(* ===== verification/Prelude.thy ===== *)
theory Prelude
  imports Complex_Main "HOL-Library.Word"
begin

unbundle bit_operations_syntax

text \<open>
  Shared vocabulary of the development: the fixed-width integers of \<open>src/src/util/stdint.h\<close>,
  C strings, the trace of calls into the screen driver, the outcome of kernel code that may
  panic (\<open>src/src/util/panic.c\<close>), little-endian byte codecs for the packed structures, and the
  generic facts about lists and words the component theories use.
\<close>

section \<open>Collections of facts\<close>

named_theorems frame_simps \<open>fields an operation leaves alone\<close>
named_theorems codec_simps \<open>round trips and lengths of byte codecs\<close>

section \<open>Integers and strings\<close>

type_synonym u8 = "8 word"
type_synonym u16 = "16 word"
type_synonym u32 = "32 word"
type_synonym u64 = "64 word"

text \<open>
  A NUL-terminated string is the list of its bytes before the terminator; \<open>str\<close> writes a
  literal.
\<close>

type_synonym cstr = "u8 list"

definition str :: "string \<Rightarrow> cstr" where
  "str cs = map of_char cs"

section \<open>The console and panics\<close>

text \<open>
  Kernel components call the screen driver. The calls are recorded in order; the theory
  Screen says what each of them does to the text buffer and to the frame buffer.
  \<open>is_screen_init\<close> is the driver's flag that \<open>panic\<close> tests.
\<close>

datatype screen_call = Screen_print cstr | Screen_clear | Screen_scroll int

record console =
  is_screen_init :: bool
  con :: "screen_call list"

definition con_print :: "cstr \<Rightarrow> 'a console_scheme \<Rightarrow> 'a console_scheme" where
  "con_print m s = s\<lparr>con := con s @ [Screen_print m]\<rparr>"

text \<open>A log line: the literal followed by a newline.\<close>

definition con_line :: "string \<Rightarrow> 'a console_scheme \<Rightarrow> 'a console_scheme" where
  "con_line m s = con_print (str m @ [10]) s"

text \<open>The simplifier leaves the text of a message alone.\<close>

lemma con_print_cong [cong]: "s = t \<Longrightarrow> con_print m s = con_print m t"
  by simp

lemma con_line_cong [cong]: "s = t \<Longrightarrow> con_line m s = con_line m t"
  by simp

datatype ('a, 's) outcome = Ok 'a 's | Halted 's

definition panic :: "cstr \<Rightarrow> 'a console_scheme \<Rightarrow> ('b, 'a console_scheme) outcome" where
  "panic msg s =
     Halted (if is_screen_init s
             then con_print msg (con_print (str ''[kernel] PANIC: '') s) else s)"

fun bind_outcome :: "('a, 's) outcome \<Rightarrow> ('a \<Rightarrow> 's \<Rightarrow> ('b, 's) outcome) \<Rightarrow> ('b, 's) outcome" where
  "bind_outcome (Ok a s) f = f a s"
| "bind_outcome (Halted s) f = Halted s"

fun final :: "('a, 's) outcome \<Rightarrow> 's" where
  "final (Ok a s) = s"
| "final (Halted s) = s"

lemma bind_outcome_Ok_iff:
  "bind_outcome r f = Ok b t \<longleftrightarrow> (\<exists>a s. r = Ok a s \<and> f a s = Ok b t)"
  by (cases r) auto

lemma bind_outcome_assoc:
  "bind_outcome (bind_outcome r f) g = bind_outcome r (\<lambda>a s. bind_outcome (f a s) g)"
  by (cases r) auto

lemma con_print_more [frame_simps]: "console.more (con_print m s) = console.more s"
  by (simp add: con_print_def)

lemma is_screen_init_con_print [frame_simps]:
  "is_screen_init (con_print m s) = is_screen_init s"
  by (simp add: con_print_def)

lemma con_line_more [frame_simps]: "console.more (con_line m s) = console.more s"
  by (simp add: con_line_def frame_simps)

lemma is_screen_init_con_line [frame_simps]:
  "is_screen_init (con_line m s) = is_screen_init s"
  by (simp add: con_line_def frame_simps)

lemma con_con_print [simp]: "con (con_print m s) = con s @ [Screen_print m]"
  by (simp add: con_print_def)

section \<open>Lists\<close>

definition slice :: "nat \<Rightarrow> nat \<Rightarrow> 'a list \<Rightarrow> 'a list" where
  "slice off n xs = take n (drop off xs)"

lemma length_slice [simp]: "length (slice off n xs) = min n (length xs - off)"
  by (simp add: slice_def)

lemma nth_slice [simp]: "i < n \<Longrightarrow> off + i < length xs \<Longrightarrow> slice off n xs ! i = xs ! (off + i)"
  by (simp add: slice_def)

lemma slice_append_left: "off + n \<le> length xs \<Longrightarrow> slice off n (xs @ ys) = slice off n xs"
  by (simp add: slice_def)

lemma slice_append_right:
  "length xs \<le> off \<Longrightarrow> slice off n (xs @ ys) = slice (off - length xs) n ys"
  by (simp add: slice_def)

lemma find_upt_Some_iff:
  "List.find P [0..<n] = Some i \<longleftrightarrow> i < n \<and> P i \<and> (\<forall>j<i. \<not> P j)"
proof
  assume "List.find P [0..<n] = Some i"
  then show "i < n \<and> P i \<and> (\<forall>j<i. \<not> P j)"
    by (auto simp: find_Some_iff)
next
  assume "i < n \<and> P i \<and> (\<forall>j<i. \<not> P j)"
  then show "List.find P [0..<n] = Some i"
    by (auto simp: find_Some_iff intro!: exI [of _ i])
qed

lemma find_upt_None_iff: "List.find P [0..<n] = None \<longleftrightarrow> (\<forall>i<n. \<not> P i)"
  by (auto simp: find_None_iff)

section \<open>Words\<close>

lemma word_of_nat_inj_less:
  "m < 2 ^ LENGTH('a) \<Longrightarrow> n < 2 ^ LENGTH('a) \<Longrightarrow>
     (word_of_nat m = (word_of_nat n :: 'a::len word)) = (m = n)"
  by (metis of_nat_inverse)

lemma unat_word_of_nat_less: "n < 2 ^ LENGTH('a) \<Longrightarrow> unat (word_of_nat n :: 'a::len word) = n"
  by (simp add: unat_of_nat)

lemma unat_less_64 [simp]: "unat (x :: u64) < 18446744073709551616"
  using unsigned_less [of x, where 'a = nat] by simp

lemma unat_less_32 [simp]: "unat (x :: u32) < 4294967296"
  using unsigned_less [of x, where 'a = nat] by simp

lemma unat_less_16 [simp]: "unat (x :: u16) < 65536"
  using unsigned_less [of x, where 'a = nat] by simp

lemma unat_less_8 [simp]: "unat (x :: u8) < 256"
  using unsigned_less [of x, where 'a = nat] by simp

lemma bit_or_power_iff:
  "k < LENGTH('a) \<Longrightarrow> bit (b OR 2 ^ k :: 'a::len word) j \<longleftrightarrow> bit b j \<or> j = k"
  by (auto simp: bit_simps)

lemma bit_and_not_power_iff:
  "k < LENGTH('a) \<Longrightarrow> bit (b AND NOT (2 ^ k) :: 'a::len word) j \<longleftrightarrow> bit b j \<and> j \<noteq> k"
  by (auto simp: bit_simps dest: bit_imp_le_length)

lemma drop_bit_and_one_iff: "(drop_bit k b AND 1 \<noteq> (0 :: 'a::len word)) \<longleftrightarrow> bit b k"
  by (metis and_one_eq bit_iff_odd_drop_bit mod_2_eq_odd of_bool_eq_0_iff)

section \<open>Little-endian codecs\<close>

definition le16_bytes :: "u16 \<Rightarrow> u8 list" where
  "le16_bytes w = [ucast w, ucast (drop_bit 8 w)]"

definition le32_bytes :: "u32 \<Rightarrow> u8 list" where
  "le32_bytes w = [ucast w, ucast (drop_bit 8 w), ucast (drop_bit 16 w), ucast (drop_bit 24 w)]"

definition le64_bytes :: "u64 \<Rightarrow> u8 list" where
  "le64_bytes w = map (\<lambda>i. ucast (drop_bit (8 * i) w)) [0..<8]"

definition le16_at :: "u8 list \<Rightarrow> nat \<Rightarrow> u16" where
  "le16_at bs i = ucast (bs ! i) OR push_bit 8 (ucast (bs ! (i + 1)))"

definition le32_at :: "u8 list \<Rightarrow> nat \<Rightarrow> u32" where
  "le32_at bs i = ucast (bs ! i) OR push_bit 8 (ucast (bs ! (i + 1)))
     OR push_bit 16 (ucast (bs ! (i + 2))) OR push_bit 24 (ucast (bs ! (i + 3)))"

definition le64_at :: "u8 list \<Rightarrow> nat \<Rightarrow> u64" where
  "le64_at bs i = ucast (le32_at bs i) OR push_bit 32 (ucast (le32_at bs (i + 4)))"

lemma length_le_bytes [simp]:
  "length (le16_bytes a) = 2" "length (le32_bytes b) = 4" "length (le64_bytes c) = 8"
  by (simp_all add: le16_bytes_def le32_bytes_def le64_bytes_def)

lemma le16_roundtrip [codec_simps]: "le16_at (le16_bytes w) 0 = w"
  by (rule bit_word_eqI) (auto simp: le16_at_def le16_bytes_def bit_simps)

lemma le32_roundtrip [codec_simps]: "le32_at (le32_bytes w) 0 = w"
proof (rule bit_word_eqI)
  fix n assume "n < LENGTH(32)"
  then consider "n < 8" | "8 \<le> n" "n < 16" | "16 \<le> n" "n < 24" | "24 \<le> n" "n < 32"
    by fastforce
  then show "bit (le32_at (le32_bytes w) 0) n = bit w n"
    by cases (simp_all add: le32_at_def le32_bytes_def bit_simps less_diff_conv2)
qed

lemma le32_at_append_left [codec_simps]:
  "i + 4 \<le> length xs \<Longrightarrow> le32_at (xs @ ys) i = le32_at xs i"
  by (simp add: le32_at_def nth_append)

lemma le32_at_append_right [codec_simps]:
  "length xs \<le> i \<Longrightarrow> le32_at (xs @ ys) i = le32_at ys (i - length xs)"
  by (simp add: le32_at_def nth_append Suc_diff_le)

end
