(* ===== verification/Pmm.thy ===== *)
theory Pmm
  imports Prelude
begin

text \<open>
  The physical memory manager, \<open>src/src/memory/pmm.c\<close>: a bitmap with one bit per 4 KiB frame,
  placed by \<open>pmm_init\<close> in the first usable memory-map entry that is large enough. The record
  \<open>pmm\<close> holds the file's static variables and the bytes the pointer \<open>pmm_bitmap\<close> reaches:
  \<open>ram s a\<close> is the byte at virtual address \<open>a\<close>, so an index past \<open>pmm_bitmap_size\<close> reads or
  writes whatever lies there, as in C. Frame numbers are \<open>uint64_t / 4096\<close> and are kept as
  \<open>nat\<close> (they are below \<open>2 ^ 52\<close>, so no loop counter wraps).
  The locale \<open>frame_pool\<close> is the contract the virtual memory manager relies on.
\<close>

section \<open>State\<close>

record pmm = console +
  ram :: "u64 \<Rightarrow> u8"
  pmm_bitmap :: u64
  pmm_bitmap_size :: u64
  total_frames :: u64

record memmap_entry =
  entry_base :: u64
  entry_length :: u64
  entry_type :: u64

section \<open>Operations\<close>

definition frame_of :: "u64 \<Rightarrow> nat" where
  "frame_of addr = unat addr div 4096"

definition bitmap_addr :: "nat \<Rightarrow> 'a pmm_scheme \<Rightarrow> u64" where
  "bitmap_addr i s = pmm_bitmap s + word_of_nat i"

definition pmm_set_frame :: "nat \<Rightarrow> bool \<Rightarrow> 'a pmm_scheme \<Rightarrow> 'a pmm_scheme" where
  "pmm_set_frame frame used s =
     (let a = bitmap_addr (frame div 8) s; b = ram s a in
      s\<lparr>ram := (ram s)(a := if used then b OR push_bit (frame mod 8) 1
                             else b AND NOT (push_bit (frame mod 8) 1))\<rparr>)"

definition pmm_get_frame :: "nat \<Rightarrow> 'a pmm_scheme \<Rightarrow> bool" where
  "pmm_get_frame frame s \<longleftrightarrow>
     drop_bit (frame mod 8) (ram s (bitmap_addr (frame div 8) s)) AND 1 \<noteq> 0"

definition pmm_set_frames :: "nat \<Rightarrow> nat \<Rightarrow> bool \<Rightarrow> 'a pmm_scheme \<Rightarrow> 'a pmm_scheme" where
  "pmm_set_frames frame_start frame_end used s =
     fold (\<lambda>i. pmm_set_frame i used) [frame_start..<Suc frame_end] s"

definition pmm_reserve_region :: "u64 \<Rightarrow> u64 \<Rightarrow> 'a pmm_scheme \<Rightarrow> bool \<times> 'a pmm_scheme" where
  "pmm_reserve_region start end s =
     (if \<exists>i \<in> set [frame_of start..<Suc (frame_of end)]. pmm_get_frame i s then (False, s)
      else (True, pmm_set_frames (frame_of start) (frame_of end) True s))"

definition pmm_free_region :: "u64 \<Rightarrow> u64 \<Rightarrow> 'a pmm_scheme \<Rightarrow> 'a pmm_scheme" where
  "pmm_free_region start end s = pmm_set_frames (frame_of start) (frame_of end) False s"

definition pmm_alloc_frame :: "'a pmm_scheme \<Rightarrow> u64 \<times> 'a pmm_scheme" where
  "pmm_alloc_frame s =
     (case List.find (\<lambda>i. \<not> pmm_get_frame i s) [0..<unat (total_frames s)] of
        Some i \<Rightarrow> (word_of_nat i * 4096, pmm_set_frame i True s)
      | None \<Rightarrow> (0, s))"

definition pmm_reserve_frame :: "u64 \<Rightarrow> 'a pmm_scheme \<Rightarrow> bool \<times> 'a pmm_scheme" where
  "pmm_reserve_frame addr s =
     (if pmm_get_frame (frame_of addr) s then (False, s)
      else (True, pmm_set_frame (frame_of addr) True s))"

definition pmm_free_frame :: "u64 \<Rightarrow> 'a pmm_scheme \<Rightarrow> 'a pmm_scheme" where
  "pmm_free_frame addr s = pmm_set_frame (frame_of addr) False s"

definition pmm_is_reserved :: "u64 \<Rightarrow> 'a pmm_scheme \<Rightarrow> bool" where
  "pmm_is_reserved addr s = pmm_get_frame (frame_of addr) s"

subsection \<open>Initialisation from the boot loader's memory map\<close>

definition usable :: "memmap_entry \<Rightarrow> bool" where
  "usable e \<longleftrightarrow> entry_type e = 0"

fun top_of_ram :: "memmap_entry list \<Rightarrow> u64 \<Rightarrow> u64" where
  "top_of_ram [] acc = acc"
| "top_of_ram (e # es) acc =
     (if usable e then
        (let limit = entry_base e + entry_length e in
         top_of_ram es (if limit > acc then limit else acc))
      else top_of_ram es acc)"

fun place_bitmap :: "u64 \<Rightarrow> memmap_entry list \<Rightarrow> u64 option \<times> memmap_entry list" where
  "place_bitmap sz [] = (None, [])"
| "place_bitmap sz (e # es) =
     (if usable e \<and> entry_length e \<ge> sz
      then (Some (entry_base e),
            e\<lparr>entry_base := entry_base e + sz, entry_length := entry_length e - sz\<rparr> # es)
      else (case place_bitmap sz es of (b, es') \<Rightarrow> (b, e # es')))"

definition fill_bitmap :: "'a pmm_scheme \<Rightarrow> 'a pmm_scheme" where
  "fill_bitmap s =
     fold (\<lambda>i s. s\<lparr>ram := (ram s)(bitmap_addr i s := 0xFF)\<rparr>) [0..<unat (pmm_bitmap_size s)] s"

fun free_usable :: "memmap_entry list \<Rightarrow> 'a pmm_scheme \<Rightarrow> 'a pmm_scheme" where
  "free_usable [] s = s"
| "free_usable (e # es) s =
     free_usable es (if usable e
       then pmm_free_region (entry_base e) (entry_base e + entry_length e) s else s)"

definition pmm_init ::
    "memmap_entry list \<Rightarrow> u64 \<Rightarrow> 'a pmm_scheme \<Rightarrow> memmap_entry list \<times> 'a pmm_scheme" where
  "pmm_init entries hhdm s0 =
     (let ram_top = top_of_ram entries 0;
          s1 = con_line ''[pmm] found top of ram: <Can't display numbers yet>'' s0;
          s2 = s1\<lparr>total_frames := ram_top div 4096,
                  pmm_bitmap_size := (ram_top div 4096 + 7) div 8\<rparr>;
          s3 = con_line ''[pmm] calculated pmm bitmap size: <Can't display numbers yet>''
                (con_line ''[pmm] calculated total physical frames: <Can't display numbers yet>'' s2);
          (place, entries') = place_bitmap (pmm_bitmap_size s3) entries;
          s4 = (case place of Some b \<Rightarrow> s3\<lparr>pmm_bitmap := b + hhdm\<rparr> | None \<Rightarrow> s3);
          s5 = con_line ''[pmm] found place for pmm bitmap: <Can't display numbers yet>'' s4;
          s6 = free_usable entries' (fill_bitmap s5);
          bitmap_phys = pmm_bitmap s6 - hhdm;
          s7 = pmm_set_frames (frame_of bitmap_phys)
                 (frame_of (bitmap_phys + pmm_bitmap_size s6)) True s6
      in (entries', con_line ''[pmm] pmm init''
                      (con_line ''[pmm] reserved memory regions'' s7)))"

section \<open>The bitmap as a set of frames\<close>

lemma frame_of_less [simp]: "frame_of a < 4503599627370496"
  using unat_less_64 [of a] by (simp add: frame_of_def less_mult_imp_div_less)

lemma bitmap_addr_eq_iff:
  "f < 4503599627370496 \<Longrightarrow> g < 4503599627370496 \<Longrightarrow>
     bitmap_addr (f div 8) s = bitmap_addr (g div 8) s \<longleftrightarrow> f div 8 = g div 8"
  by (simp add: bitmap_addr_def word_of_nat_inj_less)

lemma pmm_get_frame_bit:
  "pmm_get_frame f s \<longleftrightarrow> bit (ram s (bitmap_addr (f div 8) s)) (f mod 8)"
  by (simp add: pmm_get_frame_def drop_bit_and_one_iff)

lemma bitmap_addr_set_frame [simp]:
  "bitmap_addr i (pmm_set_frame f u s) = bitmap_addr i s"
  by (simp add: bitmap_addr_def pmm_set_frame_def Let_def)

lemma div8_mod8_eq: "(f div 8 = g div 8 \<and> f mod 8 = g mod 8) = (f = (g :: nat))"
  by (metis div_mult_mod_eq)

lemma get_set_frame [simp]:
  assumes "f < 4503599627370496" and "g < 4503599627370496"
  shows "pmm_get_frame g (pmm_set_frame f u s) = (if g = f then u else pmm_get_frame g s)"
proof (cases "g div 8 = f div 8")
  case True
  then have "(g mod 8 = f mod 8) = (g = f)"
    using div8_mod8_eq [of g f] by simp
  with True show ?thesis
    by (auto simp: pmm_get_frame_bit)
      (auto simp: pmm_set_frame_def Let_def bitmap_addr_def bit_or_power_iff
        bit_and_not_power_iff split: if_splits)
next
  case False
  then have "bitmap_addr (g div 8) s \<noteq> bitmap_addr (f div 8) s"
    using bitmap_addr_eq_iff [OF assms(2,1)] by blast
  moreover have "g \<noteq> f" using False by auto
  ultimately show ?thesis
    by (simp add: pmm_get_frame_bit) (simp add: pmm_set_frame_def Let_def bitmap_addr_def)
qed

lemma get_set_frames [simp]:
  assumes "n < 4503599627370496" and "g < 4503599627370496"
  shows "pmm_get_frame g (pmm_set_frames m n u s) =
    (if m \<le> g \<and> g \<le> n then u else pmm_get_frame g s)"
proof -
  have "pmm_get_frame g (fold (\<lambda>i. pmm_set_frame i u) [m..<k] s) =
      (if m \<le> g \<and> g < k then u else pmm_get_frame g s)" if "k \<le> Suc n" for k
    using that
  proof (induction k)
    case (Suc k)
    with assms have "k < 4503599627370496" "k \<le> Suc n" by simp_all
    with Suc assms(2) show ?case
      by (cases "m \<le> k") auto
  qed simp
  from this [of "Suc n"] show ?thesis
    by (auto simp: pmm_set_frames_def less_Suc_eq_le)
qed

definition used_frames :: "'a pmm_scheme \<Rightarrow> nat set" where
  "used_frames s = {f. f < 4503599627370496 \<and> pmm_get_frame f s}"

definition pmm_wf :: "'a pmm_scheme \<Rightarrow> bool" where
  "pmm_wf s \<longleftrightarrow> unat (total_frames s) \<le> 4503599627370496"

lemma used_set_frame [simp]:
  "f < 4503599627370496 \<Longrightarrow> used_frames (pmm_set_frame f u s) =
     (if u then insert f (used_frames s) else used_frames s - {f})"
  by (auto simp: used_frames_def split: if_splits)

lemma set_frame_fields [frame_simps]:
  "total_frames (pmm_set_frame f u s) = total_frames s"
  "pmm_bitmap (pmm_set_frame f u s) = pmm_bitmap s"
  "pmm_bitmap_size (pmm_set_frame f u s) = pmm_bitmap_size s"
  "con (pmm_set_frame f u s) = con s"
  "is_screen_init (pmm_set_frame f u s) = is_screen_init s"
  "pmm.more (pmm_set_frame f u s) = pmm.more s"
  by (simp_all add: pmm_set_frame_def Let_def)


lemma pmm_wf_set_frame [simp]: "pmm_wf (pmm_set_frame f u s) = pmm_wf s"
  by (simp add: pmm_wf_def frame_simps)

lemma set_frames_field:
  assumes "\<And>f s. P (pmm_set_frame f u s) = P s"
  shows "P (pmm_set_frames m n u s) = P s"
proof -
  have "P (fold (\<lambda>i. pmm_set_frame i u) xs s) = P s" for xs
    by (induction xs arbitrary: s) (simp_all add: assms)
  then show ?thesis by (simp add: pmm_set_frames_def)
qed

lemma set_frames_fields [frame_simps]:
  "total_frames (pmm_set_frames m n u s) = total_frames s"
  "pmm_bitmap (pmm_set_frames m n u s) = pmm_bitmap s"
  "pmm_bitmap_size (pmm_set_frames m n u s) = pmm_bitmap_size s"
  "con (pmm_set_frames m n u s) = con s"
  "is_screen_init (pmm_set_frames m n u s) = is_screen_init s"
  "pmm.more (pmm_set_frames m n u s) = pmm.more s"
  by (simp_all add: set_frames_field frame_simps)

lemma used_set_frames:
  "n < 4503599627370496 \<Longrightarrow> used_frames (pmm_set_frames m n u s) =
     (if u then used_frames s \<union> {m..n} else used_frames s - {m..n})"
  by (auto simp: used_frames_def split: if_splits)

lemma alloc_frame_Some:
  assumes "pmm_wf s" and "\<not> {..<unat (total_frames s)} \<subseteq> used_frames s"
  shows "\<exists>f < unat (total_frames s). f \<notin> used_frames s \<and> {..<f} \<subseteq> used_frames s \<and>
    pmm_alloc_frame s = (word_of_nat (f * 4096), pmm_set_frame f True s)"
proof -
  let ?n = "unat (total_frames s)"
  from assms obtain g where "g < ?n" "\<not> pmm_get_frame g s"
    by (auto simp: used_frames_def pmm_wf_def)
  then have "List.find (\<lambda>i. \<not> pmm_get_frame i s) [0..<?n] \<noteq> None"
    by (auto simp: find_upt_None_iff)
  then obtain f where f: "List.find (\<lambda>i. \<not> pmm_get_frame i s) [0..<?n] = Some f"
    by blast
  then have "f < ?n" "\<not> pmm_get_frame f s" "\<forall>j<f. pmm_get_frame j s"
    by (simp_all add: find_upt_Some_iff)
  with f assms(1) show ?thesis
    by (intro exI [of _ f]) (auto simp: pmm_alloc_frame_def used_frames_def pmm_wf_def)
qed

lemma alloc_frame_None:
  assumes "{..<unat (total_frames s)} \<subseteq> used_frames s"
  shows "pmm_alloc_frame s = (0, s)"
proof -
  have "List.find (\<lambda>i. \<not> pmm_get_frame i s) [0..<unat (total_frames s)] = None"
    using assms by (auto simp: find_upt_None_iff used_frames_def)
  then show ?thesis by (simp add: pmm_alloc_frame_def)
qed

lemma frame_of_word_of_nat [simp]:
  "f < 4503599627370496 \<Longrightarrow> frame_of (word_of_nat (f * 4096)) = f"
  by (simp add: frame_of_def unat_word_of_nat_less del: of_nat_mult)

section \<open>The contract of a frame allocator\<close>

text \<open>
  What clients rely on: \<open>used\<close> is the abstract state, a set of frame numbers below \<open>limit\<close>
  that are taken. \<open>alloc\<close> takes a frame that was not taken (its address is the frame number
  times 4096) or answers 0 and changes nothing.
\<close>

locale frame_pool =
  fixes alloc :: "'s \<Rightarrow> u64 \<times> 's"
    and release :: "u64 \<Rightarrow> 's \<Rightarrow> 's"
    and reserve :: "u64 \<Rightarrow> 's \<Rightarrow> bool \<times> 's"
    and reserved :: "u64 \<Rightarrow> 's \<Rightarrow> bool"
    and used :: "'s \<Rightarrow> nat set"
    and limit :: "'s \<Rightarrow> nat"
    and wf :: "'s \<Rightarrow> bool"
  assumes alloc_fresh: "wf s \<Longrightarrow> \<not> {..<limit s} \<subseteq> used s \<Longrightarrow>
      \<exists>f < limit s. f \<notin> used s \<and> fst (alloc s) = word_of_nat (f * 4096) \<and>
        frame_of (fst (alloc s)) = f \<and> used (snd (alloc s)) = insert f (used s)"
    and alloc_full: "{..<limit s} \<subseteq> used s \<Longrightarrow> alloc s = (0, s)"
    and alloc_limit: "limit (snd (alloc s)) = limit s"
    and alloc_wf: "wf s \<Longrightarrow> wf (snd (alloc s))"
    and release_used: "used (release a s) = used s - {frame_of a}"
    and release_limit: "limit (release a s) = limit s"
    and release_wf: "wf s \<Longrightarrow> wf (release a s)"
    and reserve_result: "fst (reserve a s) = (frame_of a \<notin> used s)"
    and reserve_used: "used (snd (reserve a s)) = insert (frame_of a) (used s)"
    and reserve_limit: "limit (snd (reserve a s)) = limit s"
    and reserved_iff: "reserved a s = (frame_of a \<in> used s)"

text \<open>Repeated allocation, over any allocator.\<close>

primrec alloc_many :: "('s \<Rightarrow> u64 \<times> 's) \<Rightarrow> nat \<Rightarrow> 's \<Rightarrow> u64 list \<times> 's" where
  "alloc_many al 0 s = ([], s)"
| "alloc_many al (Suc n) s =
     (case al s of (p, s') \<Rightarrow> (case alloc_many al n s' of (ps, s'') \<Rightarrow> (p # ps, s'')))"

context frame_pool
begin

lemma free_frames_finite: "finite ({..<limit s} - used s)"
  by simp

lemma alloc_many_distinct:
  "wf s \<Longrightarrow> n \<le> card ({..<limit s} - used s) \<Longrightarrow> alloc_many alloc n s = (ps, t) \<Longrightarrow>
     length ps = n \<and> distinct (map frame_of ps) \<and> frame_of ` set ps \<inter> used s = {} \<and>
     used t = used s \<union> frame_of ` set ps \<and> limit t = limit s"
proof (induction n arbitrary: s ps t)
  case 0
  then show ?case by simp
next
  case (Suc n)
  let ?s' = "snd (alloc s)"
  from Suc.prems(3) obtain qs where ps: "ps = fst (alloc s) # qs"
    and rec: "alloc_many alloc n ?s' = (qs, t)"
    by (auto split: prod.splits)
  have "\<not> {..<limit s} \<subseteq> used s"
    using Suc.prems(2) by (metis Diff_eq_empty_iff card.empty not_less_eq_eq zero_le)
  with alloc_fresh [OF Suc.prems(1)] obtain f where f: "f < limit s" "f \<notin> used s"
    "frame_of (fst (alloc s)) = f" "used ?s' = insert f (used s)"
    by blast
  have "{..<limit ?s'} - used ?s' = ({..<limit s} - used s) - {f}"
    using f by (auto simp: alloc_limit)
  moreover have "f \<in> {..<limit s} - used s"
    using f by simp
  ultimately have "n \<le> card ({..<limit ?s'} - used ?s')"
    using Suc.prems(2) by simp
  from Suc.IH [OF alloc_wf [OF Suc.prems(1)] this rec] f ps show ?case
    by (auto simp: alloc_limit)
qed

end

interpretation pmm: frame_pool pmm_alloc_frame pmm_free_frame pmm_reserve_frame pmm_is_reserved
  used_frames "\<lambda>s. unat (total_frames s)" pmm_wf
proof
  fix s :: "'a pmm_scheme"
  assume "pmm_wf s" and "\<not> {..<unat (total_frames s)} \<subseteq> used_frames s"
  from alloc_frame_Some [OF this] obtain f where
    "f < unat (total_frames s)" "f \<notin> used_frames s"
    "pmm_alloc_frame s = (word_of_nat (f * 4096), pmm_set_frame f True s)"
    by blast
  moreover from this \<open>pmm_wf s\<close> have "f < 4503599627370496"
    by (simp add: pmm_wf_def)
  ultimately show "\<exists>f<unat (total_frames s). f \<notin> used_frames s \<and>
      fst (pmm_alloc_frame s) = word_of_nat (f * 4096) \<and>
      frame_of (fst (pmm_alloc_frame s)) = f \<and>
      used_frames (snd (pmm_alloc_frame s)) = insert f (used_frames s)"
    by (intro exI [of _ f]) (simp del: of_nat_mult)
next
  fix s :: "'a pmm_scheme" and a :: u64
  show "unat (total_frames (snd (pmm_alloc_frame s))) = unat (total_frames s)"
    and "pmm_wf s \<Longrightarrow> pmm_wf (snd (pmm_alloc_frame s))"
    by (simp_all add: pmm_alloc_frame_def frame_simps split: option.splits)
  show "fst (pmm_reserve_frame a s) = (frame_of a \<notin> used_frames s)"
    and "used_frames (snd (pmm_reserve_frame a s)) = insert (frame_of a) (used_frames s)"
    and "unat (total_frames (snd (pmm_reserve_frame a s))) = unat (total_frames s)"
    and "pmm_is_reserved a s = (frame_of a \<in> used_frames s)"
    by (auto simp: pmm_reserve_frame_def pmm_is_reserved_def used_frames_def frame_simps)
qed (simp_all add: alloc_frame_None pmm_free_frame_def frame_simps)

section \<open>Initialisation\<close>

lemma fill_bitmap_ram:
  assumes "n \<le> 18446744073709551616"
  shows "fold (\<lambda>i s. s\<lparr>ram := (ram s)(bitmap_addr i s := 0xFF)\<rparr>) [0..<n] s =
    s\<lparr>ram := (\<lambda>a. if \<exists>i<n. a = bitmap_addr i s then 0xFF else ram s a)\<rparr>"
  using assms
proof (induction n)
  case (Suc n)
  have addr: "bitmap_addr i (s\<lparr>ram := r\<rparr>) = bitmap_addr i s" for i r
    by (simp add: bitmap_addr_def)
  from Suc have "fold (\<lambda>i s. s\<lparr>ram := (ram s)(bitmap_addr i s := 0xFF)\<rparr>) [0..<Suc n] s =
      s\<lparr>ram := (\<lambda>a. if \<exists>i<n. a = bitmap_addr i s then 0xFF else ram s a)
        (bitmap_addr n s := 0xFF)\<rparr>"
    by (simp add: addr del: fun_upd_apply)
  also have "\<dots> = s\<lparr>ram := (\<lambda>a. if \<exists>i<Suc n. a = bitmap_addr i s then 0xFF else ram s a)\<rparr>"
    by (intro arg_cong [where f = "\<lambda>r. s\<lparr>ram := r\<rparr>"]) (auto simp: fun_eq_iff less_Suc_eq)
  finally show ?case .
qed simp

lemma fill_bitmap_get:
  assumes "f div 8 < unat (pmm_bitmap_size s)"
  shows "pmm_get_frame f (fill_bitmap s)"
proof -
  have "fill_bitmap s = s\<lparr>ram := (\<lambda>a. if \<exists>i<unat (pmm_bitmap_size s). a = bitmap_addr i s
      then 0xFF else ram s a)\<rparr>"
    using fill_bitmap_ram [of "unat (pmm_bitmap_size s)" s]
    by (simp add: fill_bitmap_def less_imp_le)
  moreover have "bit (0xFF :: u8) (f mod 8)"
  proof -
    have "(0xFF :: u8) = - 1" by simp
    then show ?thesis by (simp only: bit_minus_1_iff) simp
  qed
  ultimately show ?thesis
    using assms by (auto simp: pmm_get_frame_bit bitmap_addr_def)
qed

lemma fill_bitmap_fields [frame_simps]:
  "total_frames (fill_bitmap s) = total_frames s"
  "pmm_bitmap (fill_bitmap s) = pmm_bitmap s"
  "pmm_bitmap_size (fill_bitmap s) = pmm_bitmap_size s"
  "con (fill_bitmap s) = con s"
  "pmm.more (fill_bitmap s) = pmm.more s"
  by (simp_all add: fill_bitmap_def fill_bitmap_ram less_imp_le)

definition covers :: "memmap_entry \<Rightarrow> nat \<Rightarrow> bool" where
  "covers e f \<longleftrightarrow> usable e \<and> frame_of (entry_base e) \<le> f \<and>
     f \<le> frame_of (entry_base e + entry_length e)"

lemma free_usable_get:
  "f < 4503599627370496 \<Longrightarrow> pmm_get_frame f (free_usable es s) \<longleftrightarrow>
     pmm_get_frame f s \<and> (\<forall>e \<in> set es. \<not> covers e f)"
  by (induction es arbitrary: s) (auto simp: pmm_free_region_def covers_def)

lemma free_usable_fields [frame_simps]:
  "total_frames (free_usable es s) = total_frames s"
  "pmm_bitmap (free_usable es s) = pmm_bitmap s"
  "pmm_bitmap_size (free_usable es s) = pmm_bitmap_size s"
  "con (free_usable es s) = con s"
  "pmm.more (free_usable es s) = pmm.more s"
  by (induction es arbitrary: s) (simp_all add: pmm_free_region_def frame_simps)

lemma con_print_pmm [frame_simps]:
  "ram (con_print m s) = ram s" "pmm_bitmap (con_print m s) = pmm_bitmap s"
  "pmm_bitmap_size (con_print m s) = pmm_bitmap_size s"
  "total_frames (con_print m s) = total_frames s" "pmm.more (con_print m s) = pmm.more s"
  by (simp_all add: con_print_def)

lemma con_line_pmm [frame_simps]:
  "ram (con_line m s) = ram s" "pmm_bitmap (con_line m s) = pmm_bitmap s"
  "pmm_bitmap_size (con_line m s) = pmm_bitmap_size s"
  "total_frames (con_line m s) = total_frames s" "pmm.more (con_line m s) = pmm.more s"
  by (simp_all add: con_line_def con_print_def)

lemma pmm_get_frame_con_line [simp]: "pmm_get_frame f (con_line m s) = pmm_get_frame f s"
  by (simp add: pmm_get_frame_def bitmap_addr_def frame_simps)

lemma bitmap_size_enough:
  "f < unat (t div 4096 :: u64) \<Longrightarrow> f div 8 < unat ((t div 4096 + 7) div 8 :: u64)"
proof -
  assume f: "f < unat (t div 4096 :: u64)"
  have "unat (t div 4096 :: u64) < 4503599627370496"
    using frame_of_less [of t] by (simp add: frame_of_def unat_div)
  then have "unat (t div 4096 + 7 :: u64) = unat (t div 4096) + 7"
    by (simp add: unat_word_ariths)
  with f show ?thesis by (simp add: unat_div)
qed

lemma pmm_init_total_frames:
  "pmm_init entries hhdm s = (entries', t) \<Longrightarrow>
     total_frames t = top_of_ram entries 0 div 4096 \<and>
     pmm_bitmap_size t = (total_frames t + 7) div 8 \<and>
     entries' = snd (place_bitmap (pmm_bitmap_size t) entries) \<and>
     pmm_bitmap t = (case fst (place_bitmap (pmm_bitmap_size t) entries) of
        Some b \<Rightarrow> b + hhdm | None \<Rightarrow> pmm_bitmap s)"
  by (auto simp: pmm_init_def Let_def frame_simps split: prod.splits option.splits)

lemma pmm_init_wf: "pmm_init entries hhdm s = (entries', t) \<Longrightarrow> pmm_wf t"
  using frame_of_less [of "top_of_ram entries 0"]
  by (drule_tac pmm_init_total_frames) (simp add: pmm_wf_def frame_of_def unat_div less_imp_le)

section \<open>Properties\<close>

text \<open>
  C30: \<open>pmm_alloc_frame\<close> hands out the lowest free frame and marks exactly that frame used;
  with no free frame below \<open>total_frames\<close> it answers null and changes nothing.
\<close>
theorem pmm_alloc_frame_lowest:
  assumes "pmm_wf s" and "pmm_alloc_frame s = (p, t)"
  shows "(\<exists>f < unat (total_frames s). f \<notin> used_frames s \<and> {..<f} \<subseteq> used_frames s \<and>
            p = word_of_nat (f * 4096) \<and> used_frames t = insert f (used_frames s)) \<or>
         ({..<unat (total_frames s)} \<subseteq> used_frames s \<and> p = 0 \<and> t = s)"
proof (cases "{..<unat (total_frames s)} \<subseteq> used_frames s")
  case True
  then show ?thesis using alloc_frame_None [OF True] assms(2) by simp
next
  case False
  from alloc_frame_Some [OF assms(1) False] obtain f where f:
    "f < unat (total_frames s)" "f \<notin> used_frames s" "{..<f} \<subseteq> used_frames s"
    "pmm_alloc_frame s = (word_of_nat (f * 4096), pmm_set_frame f True s)"
    by blast
  moreover from f(1) assms(1) have "f < 4503599627370496"
    by (simp add: pmm_wf_def)
  ultimately show ?thesis using assms(2) by (auto simp del: of_nat_mult)
qed

definition small_pmm :: pmm where
  "small_pmm = \<lparr>is_screen_init = True, con = [], ram = (\<lambda>_. 0x03), pmm_bitmap = 0x1000,
     pmm_bitmap_size = 1, total_frames = 6\<rparr>"

theorem pmm_alloc_frame_lowest_witness:
  "pmm_wf small_pmm \<and> fst (pmm_alloc_frame small_pmm) = 0x2000 \<and>
   ((\<exists>f < unat (total_frames small_pmm). f \<notin> used_frames small_pmm \<and>
       {..<f} \<subseteq> used_frames small_pmm \<and> 0x2000 = (word_of_nat (f * 4096) :: u64) \<and>
       used_frames (snd (pmm_alloc_frame small_pmm)) = insert f (used_frames small_pmm)) \<or>
     ({..<unat (total_frames small_pmm)} \<subseteq> used_frames small_pmm \<and> 0x2000 = (0 :: u64) \<and>
       snd (pmm_alloc_frame small_pmm) = small_pmm))"
proof -
  have wf: "pmm_wf small_pmm" by (simp add: pmm_wf_def small_pmm_def)
  have p: "fst (pmm_alloc_frame small_pmm) = 0x2000" by code_simp
  have "pmm_alloc_frame small_pmm = (0x2000, snd (pmm_alloc_frame small_pmm))"
    using p by (metis prod.collapse)
  from pmm_alloc_frame_lowest [OF wf this] wf p show ?thesis by blast
qed

text \<open>
  Consecutive calls of \<open>pmm_alloc_frame\<close> never hand out the same frame twice, nor one that
  was in use before: as long as frames are free, \<open>n\<close> calls return \<open>n\<close> addresses of pairwise
  different frames, and exactly these frames become used.
\<close>
theorem pmm_alloc_frames_distinct:
  assumes "pmm_wf s" and "n \<le> card ({..<unat (total_frames s)} - used_frames s)"
    and "alloc_many pmm_alloc_frame n s = (ps, t)"
  shows "length ps = n \<and> distinct (map frame_of ps) \<and> frame_of ` set ps \<inter> used_frames s = {} \<and>
         used_frames t = used_frames s \<union> frame_of ` set ps"
  using pmm.alloc_many_distinct [OF assms] by blast

theorem pmm_alloc_frames_distinct_witness:
  "pmm_wf small_pmm \<and> 3 \<le> card ({..<unat (total_frames small_pmm)} - used_frames small_pmm) \<and>
   distinct (map frame_of (fst (alloc_many pmm_alloc_frame 3 small_pmm)))"
proof -
  have wf: "pmm_wf small_pmm" by (simp add: pmm_wf_def small_pmm_def)
  have "{..<unat (total_frames small_pmm)} - used_frames small_pmm \<supseteq> {2, 3, 4 :: nat}"
    by (auto simp: small_pmm_def used_frames_def pmm_get_frame_def)
  from card_mono [OF _ this] have card:
    "3 \<le> card ({..<unat (total_frames small_pmm)} - used_frames small_pmm)" by simp
  have "alloc_many pmm_alloc_frame 3 small_pmm =
      (fst (alloc_many pmm_alloc_frame 3 small_pmm), snd (alloc_many pmm_alloc_frame 3 small_pmm))"
    by simp
  from pmm_alloc_frames_distinct [OF wf card this] wf card show ?thesis by blast
qed

text \<open>
  C31: \<open>pmm_reserve_region\<close> is all or nothing: it fails and changes nothing if any frame the
  region touches is in use, and otherwise marks exactly the frames of the region; freeing the
  region again restores the set of used frames.
\<close>
theorem pmm_reserve_region_atomic:
  "(if {frame_of a..frame_of b} \<inter> used_frames s = {}
    then (\<exists>t. pmm_reserve_region a b s = (True, t) \<and>
            used_frames t = used_frames s \<union> {frame_of a..frame_of b} \<and>
            used_frames (pmm_free_region a b t) = used_frames s)
    else pmm_reserve_region a b s = (False, s))"
proof (cases "{frame_of a..frame_of b} \<inter> used_frames s = {}")
  case True
  have "\<not> pmm_get_frame i s" if "frame_of a \<le> i" "i \<le> frame_of b" for i
  proof -
    have "i < 4503599627370496"
      using that(2) frame_of_less [of b] by linarith
    with True that show ?thesis by (auto simp: used_frames_def)
  qed
  then have "\<not> (\<exists>i \<in> set [frame_of a..<Suc (frame_of b)]. pmm_get_frame i s)"
    by (auto simp del: upt_Suc)
  with True show ?thesis
    by (auto simp: pmm_reserve_region_def pmm_free_region_def used_set_frames simp del: upt_Suc)
next
  case False
  then have "\<exists>i \<in> set [frame_of a..<Suc (frame_of b)]. pmm_get_frame i s"
    by (auto simp: used_frames_def simp del: upt_Suc)
  with False show ?thesis
    unfolding pmm_reserve_region_def by (simp only: if_True if_False)
qed

text \<open>
  C32: after \<open>pmm_init\<close>, a frame below \<open>total_frames\<close> is free exactly when some usable entry of
  the (adjusted) memory map reaches from its first to its end frame over it, both included, and
  the frame does not hold the bitmap itself.
\<close>
theorem pmm_init_free_frames:
  assumes "pmm_init entries hhdm s = (entries', t)" and "f < unat (total_frames t)"
  shows "pmm_get_frame f t \<longleftrightarrow>
    (frame_of (pmm_bitmap t - hhdm) \<le> f \<and> f \<le> frame_of (pmm_bitmap t - hhdm + pmm_bitmap_size t)) \<or>
    (\<forall>e \<in> set entries'. \<not> covers e f)"
proof -
  from assms(1) pmm_init_wf have "f < 4503599627370496"
    using assms(2) by (fastforce simp: pmm_wf_def)
  moreover have "f div 8 < unat (pmm_bitmap_size t)"
    using pmm_init_total_frames [OF assms(1)] assms(2) bitmap_size_enough by metis
  ultimately show ?thesis
    using assms(1)
    by (auto simp: pmm_init_def Let_def frame_simps free_usable_get fill_bitmap_get
        split: prod.splits option.splits if_splits)
qed

text \<open>
  A memory map whose second entry, between two usable ones, is reserved. The frame at its start
  (frame 3) is marked free by the loop over the usable entries, because the end address handed
  to \<open>pmm_free_region\<close> is exclusive while that function frees its end frame too.
\<close>

definition gap_map :: "memmap_entry list" where
  "gap_map = [\<lparr>entry_base = 0, entry_length = 0x3000, entry_type = 0\<rparr>,
              \<lparr>entry_base = 0x3000, entry_length = 0x1000, entry_type = 1\<rparr>,
              \<lparr>entry_base = 0x4000, entry_length = 0x2000, entry_type = 0\<rparr>]"

theorem pmm_init_free_frames_witness:
  "3 < unat (total_frames (snd (pmm_init gap_map 0 small_pmm))) \<and>
   \<not> pmm_get_frame 3 (snd (pmm_init gap_map 0 small_pmm))"
proof -
  let ?r = "pmm_init gap_map 0 small_pmm"
  have r: "?r = (fst ?r, snd ?r)" by simp
  have total: "total_frames (snd ?r) = 6"
    using pmm_init_total_frames [OF r] by (simp add: gap_map_def usable_def)
  then have n: "3 < unat (total_frames (snd ?r))" by simp
  from total have size: "pmm_bitmap_size (snd ?r) = 1"
    using pmm_init_total_frames [OF r] by simp
  then have bitmap: "pmm_bitmap (snd ?r) = 0"
    using pmm_init_total_frames [OF r] by (simp add: gap_map_def usable_def)
  have "covers \<lparr>entry_base = 1, entry_length = 0x2FFF, entry_type = 0\<rparr> 3"
    by (simp add: covers_def usable_def frame_of_def)
  moreover have "\<lparr>entry_base = 1, entry_length = 0x2FFF, entry_type = 0\<rparr> \<in> set (fst ?r)"
    using pmm_init_total_frames [OF r] size by (simp add: gap_map_def usable_def)
  moreover have "\<not> 3 \<le> frame_of (pmm_bitmap (snd ?r) - 0 + pmm_bitmap_size (snd ?r))"
    by (simp add: size bitmap frame_of_def)
  ultimately show ?thesis
    using pmm_init_free_frames [OF r n] n by blast
qed

end
