(* ===== verification/Vmm.thy ===== *)
theory Vmm
  imports Pmm
begin

unbundle bit_operations_syntax

text \<open>
  The virtual memory manager, \<open>src/src/memory/vmm.c\<close> and \<open>vmm.h\<close>: four-level page tables.
  A table is reached through a pointer into the higher-half direct map, so the model keeps
  \<open>tables s p i\<close>, the 64-bit entry \<open>p->entries[i]\<close> of the table at virtual address \<open>p\<close>
  (all four table types of \<open>vmm.h\<close> are arrays of 512 entries). \<open>cr3\<close> is the CPU register
  that \<open>vmm_load_cpu\<close> writes; translation-cache invalidation (\<open>invlpg\<close>) has no effect here.
  The record extends \<open>pmm\<close>, since every operation may take or give back frames.
\<close>

section \<open>State\<close>

record vmm = pmm +
  tables :: "u64 \<Rightarrow> nat \<Rightarrow> u64"
  current_PML4 :: u64
  hhdm_offset :: u64
  kernel_start_phys :: u64
  kernel_end_phys :: u64
  cr3 :: u64

section \<open>Page-table entries\<close>

text \<open>The bit fields of \<open>page_entry_t\<close> that the code reads and writes.\<close>

definition entry_present :: "u64 \<Rightarrow> bool" where
  "entry_present e = bit e 0"

definition physical_addr :: "u64 \<Rightarrow> u64" where
  "physical_addr e = take_bit 40 (drop_bit 12 e)"

definition set_physical_addr :: "u64 \<Rightarrow> u64 \<Rightarrow> u64" where
  "set_physical_addr v e = (e AND NOT (push_bit 12 (mask 40))) OR push_bit 12 (take_bit 40 v)"

definition clear_present :: "u64 \<Rightarrow> u64" where
  "clear_present e = e AND NOT 1"

definition VMM_FLAGS_TABLE :: u64 where "VMM_FLAGS_TABLE = 0x7"
definition VMM_FLAGS_KERNEL_RW :: u64 where "VMM_FLAGS_KERNEL_RW = 0x8000000000000003"
definition VMM_FLAGS_KERNEL_CODE :: u64 where "VMM_FLAGS_KERNEL_CODE = 0x1"
definition VMM_FLAGS_KERNEL_ALL :: u64 where "VMM_FLAGS_KERNEL_ALL = 0x3"
definition VMM_FLAGS_USER_RW :: u64 where "VMM_FLAGS_USER_RW = 0x8000000000000007"
definition VMM_FLAGS_USER_CODE :: u64 where "VMM_FLAGS_USER_CODE = 0x5"
definition VMM_FLAGS_MMIO :: u64 where "VMM_FLAGS_MMIO = 0x8000000000000013"

definition PML4_INDEX :: "u64 \<Rightarrow> nat" where "PML4_INDEX virt = unat (drop_bit 39 virt AND 0x1FF)"
definition PDPT_INDEX :: "u64 \<Rightarrow> nat" where "PDPT_INDEX virt = unat (drop_bit 30 virt AND 0x1FF)"
definition PD_INDEX :: "u64 \<Rightarrow> nat" where "PD_INDEX virt = unat (drop_bit 21 virt AND 0x1FF)"
definition PT_INDEX :: "u64 \<Rightarrow> nat" where "PT_INDEX virt = unat (drop_bit 12 virt AND 0x1FF)"

section \<open>Operations\<close>

definition set_entry :: "u64 \<Rightarrow> nat \<Rightarrow> u64 \<Rightarrow> 'a vmm_scheme \<Rightarrow> 'a vmm_scheme" where
  "set_entry t i e s = s\<lparr>tables := (tables s)(t := (tables s t)(i := e))\<rparr>"

definition zero_table :: "u64 \<Rightarrow> 'a vmm_scheme \<Rightarrow> 'a vmm_scheme" where
  "zero_table t s = s\<lparr>tables := (tables s)(t := (\<lambda>_. 0))\<rparr>"

definition entry_ptr :: "'a vmm_scheme \<Rightarrow> u64 \<Rightarrow> nat \<Rightarrow> u64" where
  "entry_ptr s t i = push_bit 12 (physical_addr (tables s t i)) + hhdm_offset s"

definition vmm_create_PML4 :: "'a vmm_scheme \<Rightarrow> u64 option \<times> 'a vmm_scheme" where
  "vmm_create_PML4 s =
     (case pmm_alloc_frame s of (frame, s1) \<Rightarrow>
        (let addr = frame + hhdm_offset s1 in
         if addr = 0 then (None, s1) else (Some addr, zero_table addr s1)))"

definition vmm_set_PML4 :: "u64 \<Rightarrow> 'a vmm_scheme \<Rightarrow> 'a vmm_scheme" where
  "vmm_set_PML4 p s = s\<lparr>current_PML4 := p\<rparr>"

definition vmm_load_cpu :: "'a vmm_scheme \<Rightarrow> 'a vmm_scheme" where
  "vmm_load_cpu s = s\<lparr>cr3 := current_PML4 s - hhdm_offset s\<rparr>"

definition vmm_copy_kernel_PML4 :: "u64 \<Rightarrow> u64 \<Rightarrow> 'a vmm_scheme \<Rightarrow> 'a vmm_scheme" where
  "vmm_copy_kernel_PML4 to from s =
     fold (\<lambda>i s. set_entry to i (tables s from i) s) [256..<512] s"

text \<open>
  One level of the descent of \<open>vmm_map_page\<close>: the three blocks of the function differ only in
  the table and the index. A missing table is allocated, cleared and linked; \<open>None\<close> is the
  early \<open>return false\<close>.
\<close>

definition vmm_next_table :: "u64 \<Rightarrow> nat \<Rightarrow> 'a vmm_scheme \<Rightarrow> u64 option \<times> 'a vmm_scheme" where
  "vmm_next_table t i s =
     (if \<not> entry_present (tables s t i) then
        (case pmm_alloc_frame s of (frame, s1) \<Rightarrow>
           (let addr = frame + hhdm_offset s1 in
            if addr = 0 then (None, s1)
            else (Some addr,
                  set_entry t i (set_physical_addr (drop_bit 12 (addr - hhdm_offset s1)) VMM_FLAGS_TABLE)
                    (zero_table addr s1))))
      else (Some (entry_ptr s t i), s))"

definition vmm_map_leaf :: "u64 \<Rightarrow> nat \<Rightarrow> u64 \<Rightarrow> u64 \<Rightarrow> 'a vmm_scheme \<Rightarrow> bool \<times> 'a vmm_scheme" where
  "vmm_map_leaf pt i phys flags s =
     (if entry_present (tables s pt i) then (False, s)
      else (case (if pmm_is_reserved phys s then (True, s) else pmm_reserve_frame phys s) of
              (False, s1) \<Rightarrow> (False, s1)
            | (True, s1) \<Rightarrow>
                (True, set_entry pt i (set_physical_addr (drop_bit 12 phys) flags) s1)))"

definition vmm_map_page :: "u64 \<Rightarrow> u64 \<Rightarrow> u64 \<Rightarrow> 'a vmm_scheme \<Rightarrow> bool \<times> 'a vmm_scheme" where
  "vmm_map_page virt phys flags s =
     (case vmm_next_table (current_PML4 s) (PML4_INDEX virt) s of
        (None, s1) \<Rightarrow> (False, s1)
      | (Some pdpt, s1) \<Rightarrow>
          (case vmm_next_table pdpt (PDPT_INDEX virt) s1 of
             (None, s2) \<Rightarrow> (False, s2)
           | (Some pd, s2) \<Rightarrow>
               (case vmm_next_table pd (PD_INDEX virt) s2 of
                  (None, s3) \<Rightarrow> (False, s3)
                | (Some pt, s3) \<Rightarrow> vmm_map_leaf pt (PT_INDEX virt) phys flags s3)))"

text \<open>
  The descent that \<open>vmm_edit_page\<close>, \<open>vmm_unmap_page\<close>, \<open>vmm_is_mapped\<close> and
  \<open>vmm_virt_to_phys\<close> share: the page table that holds the page's entry, if its entry is
  present.
\<close>

definition vmm_walk :: "u64 \<Rightarrow> 'a vmm_scheme \<Rightarrow> u64 option" where
  "vmm_walk virt s =
     (let pml4 = current_PML4 s in
      if \<not> entry_present (tables s pml4 (PML4_INDEX virt)) then None
      else let pdpt = entry_ptr s pml4 (PML4_INDEX virt) in
      if \<not> entry_present (tables s pdpt (PDPT_INDEX virt)) then None
      else let pd = entry_ptr s pdpt (PDPT_INDEX virt) in
      if \<not> entry_present (tables s pd (PD_INDEX virt)) then None
      else let pt = entry_ptr s pd (PD_INDEX virt) in
      if \<not> entry_present (tables s pt (PT_INDEX virt)) then None
      else Some pt)"

definition vmm_edit_page :: "u64 \<Rightarrow> u64 \<Rightarrow> u64 \<Rightarrow> 'a vmm_scheme \<Rightarrow> bool \<times> 'a vmm_scheme" where
  "vmm_edit_page virt phys flags s =
     (case vmm_walk virt s of
        None \<Rightarrow> (False, s)
      | Some pt \<Rightarrow>
          (let i = PT_INDEX virt;
               current_phys = push_bit 12 (physical_addr (tables s pt i));
               s1 = (if flags \<noteq> 0
                     then set_entry pt i (set_physical_addr (drop_bit 12 current_phys) flags) s
                     else s)
           in if phys \<noteq> 0 then
                (let s2 = (if pmm_is_reserved current_phys s1 then pmm_free_frame current_phys s1
                           else s1)
                 in case (if pmm_is_reserved phys s2 then (True, s2) else pmm_reserve_frame phys s2) of
                      (False, s3) \<Rightarrow> (False, s3)
                    | (True, s3) \<Rightarrow>
                        (True, set_entry pt i
                                 (set_physical_addr (drop_bit 12 phys) (tables s3 pt i)) s3))
              else (True, s1)))"

definition page_amount :: "u64 \<Rightarrow> u64 \<Rightarrow> nat" where
  "page_amount start_virt end_virt = unat (end_virt div 4096 - start_virt div 4096 + 1)"

definition page_at :: "u64 \<Rightarrow> nat \<Rightarrow> u64" where
  "page_at start_virt i = start_virt + word_of_nat i * 4096"

definition vmm_edit_pages :: "u64 \<Rightarrow> u64 \<Rightarrow> u64 \<Rightarrow> 'a vmm_scheme \<Rightarrow> bool \<times> 'a vmm_scheme" where
  "vmm_edit_pages start_virt end_virt flags s =
     fold (\<lambda>i (success, s). case vmm_edit_page (page_at start_virt i) 0 flags s of
             (ok, s') \<Rightarrow> (success \<and> ok, s'))
       [0..<page_amount start_virt end_virt] (True, s)"

definition vmm_unmap_page :: "u64 \<Rightarrow> 'a vmm_scheme \<Rightarrow> bool \<times> 'a vmm_scheme" where
  "vmm_unmap_page virt s =
     (case vmm_walk virt s of
        None \<Rightarrow> (False, s)
      | Some pt \<Rightarrow>
          (let e = tables s pt (PT_INDEX virt);
               phys = push_bit 12 (physical_addr e);
               s1 = set_entry pt (PT_INDEX virt) (clear_present e) s
           in (True, if pmm_is_reserved phys s1 then pmm_free_frame phys s1 else s1)))"

definition vmm_is_mapped :: "u64 \<Rightarrow> 'a vmm_scheme \<Rightarrow> bool" where
  "vmm_is_mapped virt s \<longleftrightarrow> vmm_walk virt s \<noteq> None"

partial_function (option) vmm_are_mapped :: "u64 \<Rightarrow> u64 \<Rightarrow> 'a vmm_scheme \<Rightarrow> bool option" where
  "vmm_are_mapped virt end_virt s =
     (if virt \<le> end_virt
      then (if \<not> vmm_is_mapped virt s then Some False
            else vmm_are_mapped (virt + 4096) end_virt s)
      else Some True)"

definition vmm_virt_to_phys :: "u64 \<Rightarrow> 'a vmm_scheme \<Rightarrow> u64" where
  "vmm_virt_to_phys virt s =
     (case vmm_walk virt s of
        None \<Rightarrow> 0
      | Some pt \<Rightarrow> (let phys = push_bit 12 (physical_addr (tables s pt (PT_INDEX virt))) in
                     if pmm_is_reserved phys s then phys else 0))"

fun vmm_alloc_pages ::
    "u64 \<Rightarrow> u64 \<Rightarrow> nat list \<Rightarrow> 'a vmm_scheme \<Rightarrow> nat option \<times> 'a vmm_scheme" where
  "vmm_alloc_pages start_virt flags [] s = (None, s)"
| "vmm_alloc_pages start_virt flags (i # is) s =
     (case pmm_alloc_frame s of (frame_addr, s1) \<Rightarrow>
        if frame_addr = 0 then (Some i, s1)
        else (case vmm_map_page (page_at start_virt i) frame_addr flags s1 of
                (True, s2) \<Rightarrow> vmm_alloc_pages start_virt flags is s2
              | (False, s2) \<Rightarrow> (Some i, pmm_free_frame frame_addr s2)))"

definition vmm_unmap_pages :: "u64 \<Rightarrow> nat \<Rightarrow> 'a vmm_scheme \<Rightarrow> 'a vmm_scheme" where
  "vmm_unmap_pages start_virt n s =
     fold (\<lambda>i s. snd (vmm_unmap_page (page_at start_virt i) s)) [0..<n] s"

definition vmm_alloc :: "u64 \<Rightarrow> u64 \<Rightarrow> u64 \<Rightarrow> 'a vmm_scheme \<Rightarrow> bool \<times> 'a vmm_scheme" where
  "vmm_alloc start_virt end_virt flags s =
     (case vmm_alloc_pages start_virt flags [0..<page_amount start_virt end_virt] s of
        (None, s') \<Rightarrow> (True, s')
      | (Some failed_i, s') \<Rightarrow> (False, vmm_unmap_pages start_virt failed_i s'))"

definition vmm_free :: "u64 \<Rightarrow> u64 \<Rightarrow> 'a vmm_scheme \<Rightarrow> 'a vmm_scheme" where
  "vmm_free start_virt end_virt s =
     vmm_unmap_pages start_virt (page_amount start_virt end_virt) s"

text \<open>\<open>vmm_unmap_PML4\<close>: the three nested loops, from the inside out.\<close>

definition unmap_page_tables :: "u64 \<Rightarrow> 'a vmm_scheme \<Rightarrow> 'a vmm_scheme" where
  "unmap_page_tables pd s =
     fold (\<lambda>i s. if entry_present (tables s pd i) then snd (vmm_unmap_page (entry_ptr s pd i) s)
                  else s) [0..<512] s"

definition unmap_directories :: "u64 \<Rightarrow> 'a vmm_scheme \<Rightarrow> 'a vmm_scheme" where
  "unmap_directories pdpt s =
     fold (\<lambda>i s. if entry_present (tables s pdpt i)
                  then (let pd = entry_ptr s pdpt i in
                        snd (vmm_unmap_page pd (unmap_page_tables pd s)))
                  else s) [0..<512] s"

definition vmm_unmap_PML4 :: "u64 \<Rightarrow> 'a vmm_scheme \<Rightarrow> 'a vmm_scheme" where
  "vmm_unmap_PML4 pml4 s =
     snd (vmm_unmap_page pml4
       (fold (\<lambda>i s. if entry_present (tables s pml4 i)
                     then (let pdpt = entry_ptr s pml4 i in
                           snd (vmm_unmap_page pdpt (unmap_directories pdpt s)))
                     else s) [0..<512] s))"

text \<open>
  \<open>vmm_init\<close>: the boot loader's root table is the one in \<open>cr3\<close>; its upper half becomes the
  upper half of the kernel's own root. The result is the kernel's root, 0 (null) on failure.
  \<open>kernel_end\<close> is the linker symbol of that name.
\<close>

definition vmm_init :: "u64 \<Rightarrow> u64 \<Rightarrow> u64 \<Rightarrow> 'a vmm_scheme \<Rightarrow> u64 \<times> 'a vmm_scheme" where
  "vmm_init hhdm physical_base kernel_end s =
     (case vmm_create_PML4 (s\<lparr>hhdm_offset := hhdm\<rparr>) of
        (None, s1) \<Rightarrow> (0, con_line ''[vmm] vmm init failed: can't create kernel PML4'' s1)
      | (Some kernel_PML4, s1) \<Rightarrow>
          (let s2 = con_line ''[vmm] created kernel PML4'' s1;
               s3 = s2\<lparr>kernel_start_phys := physical_base,
                       kernel_end_phys := kernel_end - 0xffffffff80000000 + physical_base\<rparr>;
               limine_pml4 = cr3 s3 + hhdm_offset s3;
               s4 = vmm_set_PML4 kernel_PML4 (vmm_copy_kernel_PML4 kernel_PML4 limine_pml4 s3);
               s5 = con_line ''[vmm] mapped all limine mappings to new kernel map'' s4;
               s6 = con_line ''[vmm] loaded new kernel PML4 to cpu'' (vmm_load_cpu s5)
           in (kernel_PML4, con_line ''[vmm] vmm init'' s6)))"

end
