(* ===== verification/PageTree.thy ===== *)
theory PageTree
  imports Vmm
begin

unbundle bit_operations_syntax

text \<open>
  The tables below a root as a tree. \<open>node s r p\<close> follows the index path \<open>p\<close> from the root
  table \<open>r\<close>: a path of one to three indices leads to a table, one of four to a page (its
  direct-map address). \<open>page_tree K s\<close> is the invariant the operations keep for the part of
  the current address space below the root entries in \<open>K\<close>: all nodes lie in pairwise
  different frames and these frames are marked used.
\<close>

section \<open>Bit fields\<close>

lemma entry_present_set_physical_addr [simp]:
  "entry_present (set_physical_addr v e) = entry_present e"
  by (simp add: entry_present_def set_physical_addr_def bit_simps)

lemma not_present_zero [simp]: "\<not> entry_present 0"
  by (simp add: entry_present_def)

lemma entry_present_table [simp]: "entry_present VMM_FLAGS_TABLE"
  by (simp add: entry_present_def VMM_FLAGS_TABLE_def)

lemma not_present_clear [simp]: "\<not> entry_present (clear_present e)"
  by (simp add: entry_present_def clear_present_def bit_simps)

lemma physical_addr_set [simp]: "physical_addr (set_physical_addr v e) = take_bit 40 v"
  by (rule bit_word_eqI)
    (auto simp: physical_addr_def set_physical_addr_def bit_simps)

lemma frame_addr_roundtrip:
  assumes "f < 2 ^ 40"
  shows "push_bit 12 (take_bit 40 (drop_bit 12 (word_of_nat (f * 4096) :: u64))) =
    (word_of_nat (f * 4096) :: u64)"
proof -
  have "(word_of_nat (f * 4096) :: u64) = push_bit 12 (word_of_nat f)"
    by (simp add: push_bit_eq_mult)
  moreover have "take_bit 40 (word_of_nat f :: u64) = word_of_nat f"
    using assms by (simp add: take_bit_eq_mod word_eq_iff_unsigned [where 'a = nat] unat_mod unat_of_nat)
  moreover have "drop_bit 12 (push_bit 12 (word_of_nat f :: u64)) = word_of_nat f"
  proof (rule bit_word_eqI)
    fix n
    have "bit (word_of_nat f :: u64) n \<Longrightarrow> n < 40"
      using assms by (metis bit_take_bit_iff calculation(2))
    then show "bit (drop_bit 12 (push_bit 12 (word_of_nat f :: u64))) n =
        bit (word_of_nat f :: u64) n"
      by (auto simp: bit_simps)
  qed
  ultimately show ?thesis by simp
qed

section \<open>Paths and nodes\<close>

fun node :: "'a vmm_scheme \<Rightarrow> u64 \<Rightarrow> nat list \<Rightarrow> u64 option" where
  "node s r [] = Some r"
| "node s r (i # is) =
     (if entry_present (tables s r i) then node s (entry_ptr s r i) is else None)"

lemma node_snoc:
  "node s r (p @ [i]) =
     (case node s r p of None \<Rightarrow> None
      | Some t \<Rightarrow> if entry_present (tables s t i) then Some (entry_ptr s t i) else None)"
  by (induction p arbitrary: r) auto

definition vpath :: "u64 \<Rightarrow> nat list" where
  "vpath virt = [PML4_INDEX virt, PDPT_INDEX virt, PD_INDEX virt, PT_INDEX virt]"

definition mpath :: "nat set \<Rightarrow> nat list \<Rightarrow> bool" where
  "mpath K p \<longleftrightarrow> length p \<le> 4 \<and> (p \<noteq> [] \<longrightarrow> hd p \<in> K)"

definition node_frame :: "'a vmm_scheme \<Rightarrow> u64 \<Rightarrow> nat" where
  "node_frame s t = frame_of (t - hhdm_offset s)"

definition page_tree :: "nat set \<Rightarrow> 'a vmm_scheme \<Rightarrow> bool" where
  "page_tree K s \<longleftrightarrow> unat (total_frames s) \<le> 2 ^ 40 \<and> hhdm_offset s \<noteq> 0 \<and>
     unat (hhdm_offset s) + unat (total_frames s) * 4096 < 2 ^ 64 \<and>
     (\<forall>p t. mpath K p \<longrightarrow> node s (current_PML4 s) p = Some t \<longrightarrow> node_frame s t \<in> used_frames s) \<and>
     (\<forall>p q t u. mpath K p \<longrightarrow> mpath K q \<longrightarrow> node s (current_PML4 s) p = Some t \<longrightarrow>
        node s (current_PML4 s) q = Some u \<longrightarrow> node_frame s t = node_frame s u \<longrightarrow> p = q)"

lemma mpath_butlast: "mpath K (p @ [i]) \<Longrightarrow> mpath K p"
  by (cases p) (auto simp: mpath_def)

lemma mpath_vpath [simp]: "mpath K (vpath virt) \<longleftrightarrow> PML4_INDEX virt \<in> K"
  by (simp add: mpath_def vpath_def)

lemma length_vpath [simp]: "length (vpath virt) = 4"
  by (simp add: vpath_def)

lemma page_treeD_used:
  "page_tree K s \<Longrightarrow> mpath K p \<Longrightarrow> node s (current_PML4 s) p = Some t \<Longrightarrow>
     node_frame s t \<in> used_frames s"
  by (auto simp: page_tree_def)

lemma page_treeD_inj:
  "page_tree K s \<Longrightarrow> mpath K p \<Longrightarrow> mpath K q \<Longrightarrow> node s (current_PML4 s) p = Some t \<Longrightarrow>
     node s (current_PML4 s) q = Some u \<Longrightarrow> node_frame s t = node_frame s u \<Longrightarrow> p = q"
  by (auto simp: page_tree_def)

lemma page_treeD_limit: "page_tree K s \<Longrightarrow> unat (total_frames s) \<le> 2 ^ 40"
  by (simp add: page_tree_def)

lemma page_tree_pmm_wf: "page_tree K s \<Longrightarrow> pmm_wf s"
  by (simp add: page_tree_def pmm_wf_def)

section \<open>Adding and removing a node\<close>

text \<open>
  Linking a new entry \<open>e\<close> at index \<open>i\<close> of the table at path \<open>p\<close>: the tree gains exactly the
  node \<open>p @ [i]\<close>.
\<close>

lemma node_insert:
  assumes tree: "page_tree K s" and t: "node s (current_PML4 s) p = Some t"
    and path: "mpath K (p @ [i])"
    and absent: "\<not> entry_present (tables s t i)"
    and new: "new = push_bit 12 (physical_addr e) + hhdm_offset s"
    and e: "entry_present e"
    and fresh: "node_frame s new \<notin> used_frames s \<or> length p = 3"
    and same: "hhdm_offset s' = hhdm_offset s" "current_PML4 s' = current_PML4 s"
    and at_t: "tables s' t = (tables s t)(i := e)"
    and at_new: "length p < 3 \<Longrightarrow> tables s' new = (\<lambda>_. 0)"
    and other: "\<And>u. u \<noteq> t \<Longrightarrow> u \<noteq> new \<or> length p = 3 \<Longrightarrow> tables s' u = tables s u"
    and q: "mpath K q"
  shows "node s' (current_PML4 s) q =
    (if q = p @ [i] then Some new else node s (current_PML4 s) q)"
  using q
proof (induction q rule: rev_induct)
  case Nil
  then show ?case by simp
next
  case (snoc j q)
  let ?r = "current_PML4 s"
  from snoc.prems have q: "mpath K q" by (rule mpath_butlast)
  with snoc.IH have IH: "node s' ?r q = (if q = p @ [i] then Some new else node s ?r q)" .
  have ptr: "entry_ptr s' u j = push_bit 12 (physical_addr (tables s' u j)) + hhdm_offset s" for u j
    by (simp add: entry_ptr_def same)
  show ?case
  proof (cases "q = p @ [i]")
    case True
    with snoc.prems have "length p < 3" by (simp add: mpath_def)
    then have zero: "tables s' new = (\<lambda>_. 0)" by (rule at_new)
    from True IH have "node s' ?r q = Some new" by simp
    then have "node s' ?r (q @ [j]) = None"
      using zero by (simp add: node_snoc)
    moreover have "node s ?r q = None"
      unfolding True using t absent by (simp add: node_snoc)
    then have "node s ?r (q @ [j]) = None"
      by (simp add: node_snoc)
    ultimately show ?thesis using True by simp
  next
    case False
    with IH have IH': "node s' ?r q = node s ?r q" by simp
    show ?thesis
    proof (cases "node s ?r q")
      case None
      with IH' t show ?thesis by (auto simp: node_snoc)
    next
      case (Some u)
      show ?thesis
      proof (cases "q = p")
        case True
        with Some t have "u = t" by simp
        with IH' Some True t new e at_t show ?thesis
          by (simp add: node_snoc entry_ptr_def same)
      next
        case False
        have "u \<noteq> t"
          using page_treeD_inj [OF tree q mpath_butlast [OF path] Some t] False by auto
        moreover have "u \<noteq> new \<or> length p = 3"
          using fresh page_treeD_used [OF tree q Some] by auto
        ultimately have "tables s' u = tables s u" by (rule other)
        with IH' Some False show ?thesis
          by (simp add: node_snoc entry_ptr_def same)
      qed
    qed
  qed
qed

text \<open>Clearing the present bit of a page's entry removes exactly that page.\<close>

lemma node_remove:
  assumes tree: "page_tree K s" and t: "node s (current_PML4 s) p = Some t"
    and path: "mpath K (p @ [i])" and len: "length p = 3"
    and same: "hhdm_offset s' = hhdm_offset s" "current_PML4 s' = current_PML4 s"
    and tabs: "tables s' = (tables s)(t := (tables s t)(i := e))"
    and e: "\<not> entry_present e"
    and q: "mpath K q"
  shows "node s' (current_PML4 s) q =
    (if q = p @ [i] then None else node s (current_PML4 s) q)"
  using q
proof (induction q rule: rev_induct)
  case Nil
  then show ?case by simp
next
  case (snoc j q)
  let ?r = "current_PML4 s"
  from snoc.prems have q: "mpath K q" by (rule mpath_butlast)
  from snoc.prems len have "q \<noteq> p @ [i]" by (auto simp: mpath_def)
  with snoc.IH q have IH: "node s' ?r q = node s ?r q" by simp
  show ?case
  proof (cases "node s ?r q")
    case None
    with IH show ?thesis by (simp add: node_snoc)
  next
    case (Some u)
    show ?thesis
    proof (cases "q = p")
      case True
      with Some t have "u = t" by simp
      with IH Some True tabs e show ?thesis
        by (simp add: node_snoc entry_ptr_def same)
    next
      case False
      have "u \<noteq> t"
        using page_treeD_inj [OF tree q mpath_butlast [OF path] Some t] False by auto
      with IH Some False tabs show ?thesis
        by (simp add: node_snoc entry_ptr_def same)
    qed
  qed
qed


section \<open>The operations on the tree\<close>

lemma pmm_set_frame_vmm [frame_simps]:
  "tables (pmm_set_frame f u s) = tables s" "current_PML4 (pmm_set_frame f u s) = current_PML4 s"
  "hhdm_offset (pmm_set_frame f u s) = hhdm_offset s" "cr3 (pmm_set_frame f u s) = cr3 s"
  "vmm.more (pmm_set_frame f u s) = vmm.more s"
  by (simp_all add: pmm_set_frame_def Let_def)

lemma pmm_alloc_frame_vmm [frame_simps]:
  "tables (snd (pmm_alloc_frame s)) = tables s"
  "current_PML4 (snd (pmm_alloc_frame s)) = current_PML4 s"
  "hhdm_offset (snd (pmm_alloc_frame s)) = hhdm_offset s"
  "cr3 (snd (pmm_alloc_frame s)) = cr3 s"
  "total_frames (snd (pmm_alloc_frame s)) = total_frames s"
  by (auto simp: pmm_alloc_frame_def frame_simps split: option.splits)

lemma set_entry_fields [frame_simps]:
  "current_PML4 (set_entry t i e s) = current_PML4 s" "hhdm_offset (set_entry t i e s) = hhdm_offset s"
  "cr3 (set_entry t i e s) = cr3 s" "total_frames (set_entry t i e s) = total_frames s"
  "ram (set_entry t i e s) = ram s" "pmm_bitmap (set_entry t i e s) = pmm_bitmap s"
  "vmm.more (set_entry t i e s) = vmm.more s" "con (set_entry t i e s) = con s"
  by (simp_all add: set_entry_def)

lemma zero_table_fields [frame_simps]:
  "current_PML4 (zero_table t s) = current_PML4 s" "hhdm_offset (zero_table t s) = hhdm_offset s"
  "cr3 (zero_table t s) = cr3 s" "total_frames (zero_table t s) = total_frames s"
  "ram (zero_table t s) = ram s" "pmm_bitmap (zero_table t s) = pmm_bitmap s"
  "vmm.more (zero_table t s) = vmm.more s" "con (zero_table t s) = con s"
  by (simp_all add: zero_table_def)

lemma used_frames_cong: "ram s = ram s' \<Longrightarrow> pmm_bitmap s = pmm_bitmap s' \<Longrightarrow>
    used_frames s = used_frames s'"
  by (simp add: used_frames_def pmm_get_frame_def bitmap_addr_def)

lemma used_frames_set_entry [simp]: "used_frames (set_entry t i e s) = used_frames s"
  by (rule used_frames_cong) (simp_all add: frame_simps)

lemma used_frames_zero_table [simp]: "used_frames (zero_table t s) = used_frames s"
  by (rule used_frames_cong) (simp_all add: frame_simps)

lemma pmm_get_frame_cong:
  "ram s = ram s' \<Longrightarrow> pmm_bitmap s = pmm_bitmap s' \<Longrightarrow> pmm_get_frame f s = pmm_get_frame f s'"
  by (simp add: pmm_get_frame_def bitmap_addr_def)

lemma node_cong:
  "tables s' = tables s \<Longrightarrow> hhdm_offset s' = hhdm_offset s \<Longrightarrow> node s' r p = node s r p"
  by (induction p arbitrary: r) (simp_all add: entry_ptr_def)

lemma vmm_walk_node:
  "vmm_walk virt s =
     (case node s (current_PML4 s) (vpath virt) of None \<Rightarrow> None
      | Some _ \<Rightarrow> node s (current_PML4 s) [PML4_INDEX virt, PDPT_INDEX virt, PD_INDEX virt])"
  by (simp add: vmm_walk_def vpath_def Let_def)

definition free_frames :: "'a pmm_scheme \<Rightarrow> nat set" where
  "free_frames s = {..<unat (total_frames s)} - used_frames s"

lemma finite_free_frames [simp]: "finite (free_frames s)"
  by (simp add: free_frames_def)

text \<open>The present entries of tables in frames that are in use stay as they are.\<close>

definition kept_entries :: "'a vmm_scheme \<Rightarrow> 'a vmm_scheme \<Rightarrow> bool" where
  "kept_entries s s' \<longleftrightarrow> (\<forall>t i. node_frame s t \<in> used_frames s \<longrightarrow> entry_present (tables s t i) \<longrightarrow>
     tables s' t i = tables s t i)"

lemma kept_entries_refl [simp]: "kept_entries s s"
  by (simp add: kept_entries_def)

lemma kept_entries_trans:
  assumes "kept_entries s t" "kept_entries t u" "used_frames s \<subseteq> used_frames t" "hhdm_offset t = hhdm_offset s"
  shows "kept_entries s u"
  unfolding kept_entries_def
proof (intro allI impI)
  fix v i assume v: "node_frame s v \<in> used_frames s" "entry_present (tables s v i)"
  then have st: "tables t v i = tables s v i" using assms(1) by (simp add: kept_entries_def)
  have "node_frame t v \<in> used_frames t" using v(1) assms(3,4) by (auto simp: node_frame_def)
  then show "tables u v i = tables s v i" using assms(2) v(2) st by (simp add: kept_entries_def)
qed

text \<open>
  \<open>tree_ext K s s'\<close>: the tree below the managed root entries only grew by tables, taken from
  frames that were free; all pages stay where they are.
\<close>

definition tree_ext :: "nat set \<Rightarrow> 'a vmm_scheme \<Rightarrow> 'a vmm_scheme \<Rightarrow> bool" where
  "tree_ext K s s' \<longleftrightarrow> current_PML4 s' = current_PML4 s \<and> hhdm_offset s' = hhdm_offset s \<and>
     total_frames s' = total_frames s \<and> used_frames s \<subseteq> used_frames s' \<and> kept_entries s s' \<and>
     (\<forall>q. mpath K q \<longrightarrow> length q = 4 \<longrightarrow> node s' (current_PML4 s) q = node s (current_PML4 s) q) \<and>
     (\<forall>q u. mpath K q \<longrightarrow> node s (current_PML4 s) q = Some u \<longrightarrow> node s' (current_PML4 s) q = Some u) \<and>
     (\<forall>q u. mpath K q \<longrightarrow> node s' (current_PML4 s) q = Some u \<longrightarrow>
        node s (current_PML4 s) q = Some u \<or> node_frame s u \<in> free_frames s)"

lemma tree_ext_refl [simp]: "tree_ext K s s"
  by (simp add: tree_ext_def)

lemma tree_ext_trans:
  assumes st: "tree_ext K s t" and tu: "tree_ext K t u"
  shows "tree_ext K s u"
proof -
  from st have same: "current_PML4 t = current_PML4 s" "hhdm_offset t = hhdm_offset s"
    "total_frames t = total_frames s" "used_frames s \<subseteq> used_frames t"
    by (simp_all add: tree_ext_def)
  then have free: "free_frames t \<subseteq> free_frames s" and nf: "node_frame t v = node_frame s v" for v
    by (auto simp: free_frames_def node_frame_def)
  have "node s (current_PML4 s) q = Some v \<or> node_frame s v \<in> free_frames s"
    if "mpath K q" "node u (current_PML4 s) q = Some v" for q v
  proof -
    from tu that have "node t (current_PML4 s) q = Some v \<or> node_frame s v \<in> free_frames t"
      by (simp add: tree_ext_def same nf)
    then show ?thesis using st that(1) free by (auto simp: tree_ext_def)
  qed
  moreover from same(4) tu have "used_frames s \<subseteq> used_frames u" by (auto simp: tree_ext_def)
  moreover have "kept_entries s u"
    by (rule kept_entries_trans [OF _ _ same(4,2)]) (use st tu in \<open>simp_all add: tree_ext_def\<close>)
  ultimately show ?thesis
    using st tu by (simp add: tree_ext_def same)
qed

lemma page_tree_insert:
  assumes tree: "page_tree K s"
    and nodes: "\<And>q. mpath K q \<Longrightarrow>
      node s' (current_PML4 s) q = (if q = np then Some new else node s (current_PML4 s) q)"
    and same: "hhdm_offset s' = hhdm_offset s" "current_PML4 s' = current_PML4 s"
      "total_frames s' = total_frames s"
    and used: "used_frames s' = insert (node_frame s new) (used_frames s)"
    and fresh: "\<And>q u. mpath K q \<Longrightarrow> node s (current_PML4 s) q = Some u \<Longrightarrow>
      node_frame s u \<noteq> node_frame s new"
  shows "page_tree K s'"
proof -
  have nf: "node_frame s' u = node_frame s u" for u
    by (simp add: node_frame_def same)
  have "node_frame s' t \<in> used_frames s'"
    if "mpath K p" "node s' (current_PML4 s') p = Some t" for p t
    using that nodes [OF that(1)] page_treeD_used [OF tree that(1)] used
    by (auto simp: same nf split: if_splits)
  moreover have "p = q" if "mpath K p" "mpath K q" "node s' (current_PML4 s') p = Some t"
      "node s' (current_PML4 s') q = Some u" "node_frame s' t = node_frame s' u" for p q t u
    using that nodes [OF that(1)] nodes [OF that(2)] page_treeD_inj [OF tree that(1,2)] fresh
    by (auto simp: same nf split: if_splits)
  ultimately show ?thesis
    using tree by (auto simp: page_tree_def same)
qed


lemma vmm_alloc_fresh:
  assumes tree: "page_tree K s" and free: "free_frames s \<noteq> {}"
  shows "\<exists>f s1. pmm_alloc_frame s = (word_of_nat (f * 4096), s1) \<and> f \<in> free_frames s \<and> f < 2 ^ 40 \<and>
    used_frames s1 = insert f (used_frames s) \<and> s1 = snd (pmm_alloc_frame s) \<and>
    word_of_nat (f * 4096) + hhdm_offset s \<noteq> 0 \<and>
    node_frame s (word_of_nat (f * 4096) + hhdm_offset s) = f"
proof -
  from free have "\<not> {..<unat (total_frames s)} \<subseteq> used_frames s"
    by (auto simp: free_frames_def)
  from pmm.alloc_fresh [OF page_tree_pmm_wf [OF tree] this] obtain f where f:
    "f < unat (total_frames s)" "f \<notin> used_frames s"
    "fst (pmm_alloc_frame s) = word_of_nat (f * 4096)"
    "used_frames (snd (pmm_alloc_frame s)) = insert f (used_frames s)"
    by blast
  from f(1) tree have lim: "f < 2 ^ 40" "unat (hhdm_offset s) + f * 4096 < 2 ^ 64" "hhdm_offset s \<noteq> 0"
    by (auto simp: page_tree_def)
  have un: "unat (word_of_nat (f * 4096) :: u64) = f * 4096"
    by (rule unat_word_of_nat_less) (use lim(2) in simp)
  then have "unat (word_of_nat (f * 4096) + hhdm_offset s :: u64) = f * 4096 + unat (hhdm_offset s)"
    using unat_add_lem [of "word_of_nat (f * 4096) :: u64" "hhdm_offset s"] lim(2) by simp
  moreover have "unat (hhdm_offset s) \<noteq> 0" using lim(3) by (simp add: unat_eq_zero)
  ultimately have "word_of_nat (f * 4096) + hhdm_offset s \<noteq> (0 :: u64)"
    by auto
  moreover have "node_frame s (word_of_nat (f * 4096) + hhdm_offset s) = f"
    using lim by (simp add: node_frame_def del: of_nat_mult)
  ultimately show ?thesis
    using f lim(1) by (intro exI [of _ f] exI [of _ "snd (pmm_alloc_frame s)"])
      (auto simp: free_frames_def prod_eq_iff)
qed

lemma vmm_next_table_tree:
  assumes tree: "page_tree K s" and t: "node s (current_PML4 s) p = Some t"
    and path: "mpath K (p @ [i])" and len: "length p < 3" and free: "free_frames s \<noteq> {}"
    and step: "vmm_next_table t i s = (res, s')"
  shows "\<exists>t'. res = Some t' \<and> node s' (current_PML4 s) (p @ [i]) = Some t' \<and>
    page_tree K s' \<and> tree_ext K s s' \<and> card (free_frames s) \<le> Suc (card (free_frames s'))"
proof (cases "entry_present (tables s t i)")
  case True
  with step t tree show ?thesis
    by (auto simp: vmm_next_table_def node_snoc)
next
  case False
  from vmm_alloc_fresh [OF tree free] obtain f s1 where f:
    "pmm_alloc_frame s = (word_of_nat (f * 4096), s1)" "f \<in> free_frames s" "f < 2 ^ 40"
    "used_frames s1 = insert f (used_frames s)" "s1 = snd (pmm_alloc_frame s)"
    "word_of_nat (f * 4096) + hhdm_offset s \<noteq> 0"
    "node_frame s (word_of_nat (f * 4096) + hhdm_offset s) = f"
    by blast
  have s1: "hhdm_offset s1 = hhdm_offset s" "current_PML4 s1 = current_PML4 s"
    "total_frames s1 = total_frames s" "tables s1 = tables s"
    unfolding f(5) by (simp_all add: frame_simps)
  define new where "new = word_of_nat (f * 4096) + hhdm_offset s"
  define e where "e = set_physical_addr (drop_bit 12 (new - hhdm_offset s)) VMM_FLAGS_TABLE"
  have s': "res = Some new" "s' = set_entry t i e (zero_table new s1)"
    using step False f(1,6) by (auto simp: vmm_next_table_def s1 new_def e_def Let_def)
  have e: "entry_present e" "push_bit 12 (physical_addr e) + hhdm_offset s = new"
    using frame_addr_roundtrip [OF f(3)] by (simp_all add: e_def new_def)
  have notused: "f \<notin> used_frames s" using f(2) by (simp add: free_frames_def)
  have "node_frame s t \<in> used_frames s"
    using page_treeD_used [OF tree mpath_butlast [OF path] t] .
  with notused f(7) have "t \<noteq> new" by (auto simp: new_def)
  then have tabs: "tables s' t = (tables s t)(i := e)" "tables s' new = (\<lambda>_. 0)"
    "\<And>u. u \<noteq> t \<Longrightarrow> u \<noteq> new \<Longrightarrow> tables s' u = tables s u"
    by (auto simp: s' set_entry_def zero_table_def s1)
  have same: "hhdm_offset s' = hhdm_offset s" "current_PML4 s' = current_PML4 s"
    "total_frames s' = total_frames s"
    by (simp_all add: s' frame_simps s1)
  have nodes: "node s' (current_PML4 s) q =
      (if q = p @ [i] then Some new else node s (current_PML4 s) q)" if "mpath K q" for q
    by (rule node_insert [OF tree t path False e(2) [symmetric] e(1) _ same(1,2) tabs(1) _ _ that])
      (use notused f(7) len tabs in \<open>auto simp: new_def\<close>)
  have used: "used_frames s' = insert f (used_frames s)"
    by (simp add: s' f(4))
  have "page_tree K s'"
    by (rule page_tree_insert [OF tree nodes same])
      (use used f(7) notused page_treeD_used [OF tree] in \<open>auto simp: new_def\<close>)
  moreover have kept: "kept_entries s s'"
    unfolding kept_entries_def
  proof (intro allI impI)
    fix v j assume v: "node_frame s v \<in> used_frames s" "entry_present (tables s v j)"
    then have "v \<noteq> new" using notused f(7) by (auto simp: new_def)
    moreover have "v \<noteq> t \<or> j \<noteq> i" using v(2) False by auto
    ultimately show "tables s' v j = tables s v j" using tabs(1,3) by (cases "v = t") auto
  qed
  moreover have "tree_ext K s s'"
    unfolding tree_ext_def
    using nodes used same f(2,7) False t len kept
    by (auto simp: new_def node_snoc split: if_splits)
  moreover have "free_frames s' = free_frames s - {f}"
    by (auto simp: free_frames_def used same)
  ultimately show ?thesis
    using s'(1) nodes [OF path] f(2) by (simp add: card_Diff_singleton)
qed

text \<open>The descent of \<open>vmm_map_page\<close>: with three free frames it always reaches a page table.\<close>

definition vmm_descend :: "u64 \<Rightarrow> 'a vmm_scheme \<Rightarrow> u64 option \<times> 'a vmm_scheme" where
  "vmm_descend virt s =
     (case vmm_next_table (current_PML4 s) (PML4_INDEX virt) s of
        (None, s1) \<Rightarrow> (None, s1)
      | (Some pdpt, s1) \<Rightarrow>
          (case vmm_next_table pdpt (PDPT_INDEX virt) s1 of
             (None, s2) \<Rightarrow> (None, s2)
           | (Some pd, s2) \<Rightarrow> vmm_next_table pd (PD_INDEX virt) s2))"

lemma vmm_map_page_descend:
  "vmm_map_page virt phys flags s =
     (case vmm_descend virt s of
        (None, s1) \<Rightarrow> (False, s1)
      | (Some pt, s1) \<Rightarrow> vmm_map_leaf pt (PT_INDEX virt) phys flags s1)"
  by (auto simp: vmm_map_page_def vmm_descend_def split: prod.splits option.splits)

lemma tree_ext_same: "tree_ext K s s' \<Longrightarrow> current_PML4 s' = current_PML4 s \<and>
    hhdm_offset s' = hhdm_offset s \<and> total_frames s' = total_frames s"
  by (simp add: tree_ext_def)

lemma free_frames_pos: "0 < card (free_frames s) \<Longrightarrow> free_frames s \<noteq> {}"
  by auto

lemma vmm_descend_tree:
  assumes tree: "page_tree K s" and K: "PML4_INDEX virt \<in> K" and free: "3 \<le> card (free_frames s)"
  shows "\<exists>pt s'. vmm_descend virt s = (Some pt, s') \<and>
    node s' (current_PML4 s) [PML4_INDEX virt, PDPT_INDEX virt, PD_INDEX virt] = Some pt \<and>
    page_tree K s' \<and> tree_ext K s s' \<and> card (free_frames s) \<le> card (free_frames s') + 3"
proof -
  let ?r = "current_PML4 s" and ?a = "PML4_INDEX virt" and ?b = "PDPT_INDEX virt" and ?c = "PD_INDEX virt"
  obtain r1 s1 where 1: "vmm_next_table ?r ?a s = (r1, s1)" by fastforce
  from vmm_next_table_tree [OF tree, of "[]" ?r ?a, OF _ _ _ free_frames_pos 1] K free
  obtain t1 where t1: "r1 = Some t1" "node s1 ?r [?a] = Some t1" "page_tree K s1" "tree_ext K s s1"
    "card (free_frames s) \<le> Suc (card (free_frames s1))"
    by (auto simp: mpath_def)
  note e1 = tree_ext_same [OF t1(4)]
  obtain r2 s2 where 2: "vmm_next_table t1 ?b s1 = (r2, s2)" by fastforce
  from vmm_next_table_tree [OF t1(3), of "[?a]" t1 ?b, OF _ _ _ free_frames_pos 2] K free t1 e1
  obtain t2 where t2: "r2 = Some t2" "node s2 ?r [?a, ?b] = Some t2" "page_tree K s2" "tree_ext K s1 s2"
    "card (free_frames s1) \<le> Suc (card (free_frames s2))"
    by (auto simp: mpath_def)
  note e2 = tree_ext_same [OF t2(4)]
  obtain r3 s3 where 3: "vmm_next_table t2 ?c s2 = (r3, s3)" by fastforce
  from vmm_next_table_tree [OF t2(3), of "[?a, ?b]" t2 ?c, OF _ _ _ free_frames_pos 3] K free t1 t2 e1 e2
  obtain t3 where t3: "r3 = Some t3" "node s3 ?r [?a, ?b, ?c] = Some t3" "page_tree K s3" "tree_ext K s2 s3"
    "card (free_frames s2) \<le> Suc (card (free_frames s3))"
    by (auto simp: mpath_def)
  have "tree_ext K s s3"
    using tree_ext_trans [OF tree_ext_trans [OF t1(4) t2(4)] t3(4)] .
  then show ?thesis
    using 1 2 3 t1 t2 t3 by (auto simp: vmm_descend_def)
qed

text \<open>
  The page frame \<open>f\<close> is a fresh page of the tree: in use, within the reach of an entry, and not
  the frame of a table or page below \<open>K\<close>.
\<close>

definition fresh_page :: "nat set \<Rightarrow> nat \<Rightarrow> 'a vmm_scheme \<Rightarrow> bool" where
  "fresh_page K f s \<longleftrightarrow> f < unat (total_frames s) \<and> f \<in> used_frames s \<and>
     (\<forall>q u. mpath K q \<longrightarrow> node s (current_PML4 s) q = Some u \<longrightarrow> node_frame s u \<noteq> f)"

lemma fresh_page_limit:
  "page_tree K s \<Longrightarrow> fresh_page K f s \<Longrightarrow> f < 2 ^ 40"
  by (auto simp: page_tree_def fresh_page_def)

lemma node_frame_page:
  "f < 2 ^ 40 \<Longrightarrow> node_frame s (word_of_nat (f * 4096) + hhdm_offset s) = f"
  by (simp add: node_frame_def del: of_nat_mult)

lemma fresh_page_ext:
  assumes "tree_ext K s s'" "fresh_page K f s"
  shows "fresh_page K f s'"
proof -
  have "node_frame s' u \<noteq> f" if "mpath K q" "node s' (current_PML4 s) q = Some u" for q u
    using assms that by (force simp: fresh_page_def tree_ext_def free_frames_def node_frame_def)
  with assms show ?thesis
    by (auto simp: fresh_page_def tree_ext_def)
qed

lemma vmm_map_leaf_tree:
  assumes tree: "page_tree K s" and t: "node s (current_PML4 s) p = Some pt"
    and path: "mpath K (p @ [i])" and len: "length p = 3" and f: "fresh_page K f s"
    and flags: "entry_present flags" and absent: "\<not> entry_present (tables s pt i)"
    and step: "vmm_map_leaf pt i (word_of_nat (f * 4096)) flags s = (ok, s')"
  shows "ok \<and> page_tree K s' \<and> current_PML4 s' = current_PML4 s \<and> hhdm_offset s' = hhdm_offset s \<and>
    total_frames s' = total_frames s \<and> used_frames s' = used_frames s \<and>
    (\<forall>q. mpath K q \<longrightarrow> node s' (current_PML4 s) q =
       (if q = p @ [i] then Some (word_of_nat (f * 4096) + hhdm_offset s)
        else node s (current_PML4 s) q))"
proof -
  note lim = fresh_page_limit [OF tree f]
  define new where "new = word_of_nat (f * 4096) + hhdm_offset s"
  define e where "e = set_physical_addr (drop_bit 12 (word_of_nat (f * 4096))) flags"
  have "pmm_is_reserved (word_of_nat (f * 4096)) s"
    using f lim by (simp add: fresh_page_def pmm.reserved_iff del: of_nat_mult)
  with step absent have ok: "ok" "s' = set_entry pt i e s"
    by (auto simp: vmm_map_leaf_def e_def)
  have e: "entry_present e" "new = push_bit 12 (physical_addr e) + hhdm_offset s"
    using frame_addr_roundtrip [OF lim] flags by (simp_all add: e_def new_def)
  have same: "hhdm_offset s' = hhdm_offset s" "current_PML4 s' = current_PML4 s"
    "total_frames s' = total_frames s" "used_frames s' = used_frames s"
    by (simp_all add: ok frame_simps)
  have nodes: "node s' (current_PML4 s) q =
      (if q = p @ [i] then Some new else node s (current_PML4 s) q)" if "mpath K q" for q
    by (rule node_insert [OF tree t path absent e(2,1) _ same(1,2) _ _ _ that])
      (use len in \<open>auto simp: ok set_entry_def\<close>)
  have nf: "node_frame s new = f" using node_frame_page [OF lim] by (simp add: new_def)
  have "page_tree K s'"
    by (rule page_tree_insert [OF tree nodes same(1-3)])
      (use f in \<open>auto simp: same(4) nf fresh_page_def\<close>)
  with ok same nodes show ?thesis by (simp add: new_def)
qed

lemma vpath_snoc: "vpath virt = [PML4_INDEX virt, PDPT_INDEX virt, PD_INDEX virt] @ [PT_INDEX virt]"
  by (simp add: vpath_def)

lemma vmm_map_page_tree:
  assumes tree: "page_tree K s" and K: "PML4_INDEX virt \<in> K" and free: "3 \<le> card (free_frames s)"
    and f: "fresh_page K f s" and flags: "entry_present flags"
    and absent: "node s (current_PML4 s) (vpath virt) = None"
    and step: "vmm_map_page virt (word_of_nat (f * 4096)) flags s = (ok, s')"
  shows "ok \<and> page_tree K s' \<and> current_PML4 s' = current_PML4 s \<and> hhdm_offset s' = hhdm_offset s \<and>
    total_frames s' = total_frames s \<and> used_frames s \<subseteq> used_frames s' \<and>
    card (free_frames s) \<le> card (free_frames s') + 3 \<and>
    (\<forall>q. mpath K q \<longrightarrow> length q = 4 \<longrightarrow> node s' (current_PML4 s) q =
       (if q = vpath virt then Some (word_of_nat (f * 4096) + hhdm_offset s)
        else node s (current_PML4 s) q))"
proof -
  let ?p = "[PML4_INDEX virt, PDPT_INDEX virt, PD_INDEX virt]"
  from vmm_descend_tree [OF tree K free] obtain pt s1 where d: "vmm_descend virt s = (Some pt, s1)"
    "node s1 (current_PML4 s) ?p = Some pt" "page_tree K s1" and ext: "tree_ext K s s1"
    and card: "card (free_frames s) \<le> card (free_frames s1) + 3"
    by blast
  note same = tree_ext_same [OF ext]
  have path: "mpath K (?p @ [PT_INDEX virt])" using K by (simp add: mpath_def)
  have "node s1 (current_PML4 s) (vpath virt) = None"
    using ext absent K by (simp add: tree_ext_def)
  then have "\<not> entry_present (tables s1 pt (PT_INDEX virt))"
    using d(2) by (auto simp: vpath_snoc node_snoc simp del: node.simps append_Cons split: if_splits)
  from vmm_map_leaf_tree [OF d(3) _ path _ fresh_page_ext [OF ext f] flags this, of ok s'] step d same
  have "ok \<and> page_tree K s' \<and> current_PML4 s' = current_PML4 s1 \<and> hhdm_offset s' = hhdm_offset s1 \<and>
    total_frames s' = total_frames s1 \<and> used_frames s' = used_frames s1 \<and>
    (\<forall>q. mpath K q \<longrightarrow> node s' (current_PML4 s1) q =
       (if q = vpath virt then Some (word_of_nat (f * 4096) + hhdm_offset s1)
        else node s1 (current_PML4 s1) q))"
    by (simp add: vmm_map_page_descend vpath_def)
  moreover from this same have "free_frames s' = free_frames s1" by (simp add: free_frames_def)
  ultimately show ?thesis
    using ext card same by (auto simp: tree_ext_def)
qed

section \<open>Virtual page numbers\<close>

definition vpn :: "u64 \<Rightarrow> nat" where
  "vpn virt = unat virt div 4096 mod 2 ^ 36"

lemma index_unat: "unat (drop_bit n (virt :: u64) AND 0x1FF) = unat virt div 2 ^ n mod 512"
proof -
  have "(0x1FF :: u64) = mask 9" by (simp add: mask_eq_exp_minus_1)
  then have "drop_bit n virt AND 0x1FF = take_bit 9 (drop_bit n virt)"
    by (simp only: take_bit_eq_mask)
  moreover have "unat (take_bit 9 (drop_bit n virt)) = take_bit 9 (drop_bit n (unat virt))"
    by (simp only: unsigned_take_bit_eq unsigned_drop_bit_eq take_bit_nat_eq_self unsigned_less)
  ultimately show ?thesis
    by (simp add: take_bit_eq_mod drop_bit_eq_div)
qed

lemma mod_mult_div: "0 < b \<Longrightarrow> (a mod (b * c)) div b = a div b mod (c :: nat)"
  by (simp add: mod_mult2_eq)

lemma vpath_vpn:
  "PML4_INDEX x = vpn x div 512 ^ 3" "PDPT_INDEX x = vpn x div 512 ^ 2 mod 512"
  "PD_INDEX x = vpn x div 512 mod 512" "PT_INDEX x = vpn x mod 512"
proof -
  define y where "y = unat x div 4096"
  have yd: "y div k = unat x div (4096 * k)" for k
    by (simp add: y_def div_mult2_eq)
  have v: "vpn x = y mod (512 ^ 3 * 512)" by (simp add: vpn_def y_def)
  have "vpn x div 512 ^ 3 = unat x div (4096 * 512 ^ 3) mod 512"
    unfolding v by (subst mod_mult_div) (simp_all only: yd, simp_all)
  then show "PML4_INDEX x = vpn x div 512 ^ 3"
    by (simp add: PML4_INDEX_def index_unat)
  have v: "vpn x = y mod (512 ^ 2 * 512 ^ 2)" by (simp add: vpn_def y_def)
  have "vpn x div 512 ^ 2 = unat x div (4096 * 512 ^ 2) mod 512 ^ 2"
    unfolding v by (subst mod_mult_div) (simp_all only: yd, simp_all)
  then show "PDPT_INDEX x = vpn x div 512 ^ 2 mod 512"
    by (simp add: PDPT_INDEX_def index_unat mod_mod_cancel)
  have v: "vpn x = y mod (512 * 512 ^ 3)" by (simp add: vpn_def y_def)
  have "vpn x div 512 = unat x div (4096 * 512) mod 512 ^ 3"
    unfolding v using yd [of 512] by (subst mod_mult_div) simp_all
  then show "PD_INDEX x = vpn x div 512 mod 512"
    by (simp add: PD_INDEX_def index_unat mod_mod_cancel)
  show "PT_INDEX x = vpn x mod 512"
    by (simp add: PT_INDEX_def index_unat vpn_def mod_mod_cancel)
qed

lemma vpn_vpath: "vpn x = ((PML4_INDEX x * 512 + PDPT_INDEX x) * 512 + PD_INDEX x) * 512 + PT_INDEX x"
proof -
  have "vpn x div 512 ^ 2 = vpn x div 512 div 512" "vpn x div 512 ^ 3 = vpn x div 512 div 512 div 512"
    by (simp_all add: div_mult2_eq [symmetric])
  then show ?thesis unfolding vpath_vpn by (simp only: div_mult_mod_eq)
qed

lemma vpath_eq_iff: "vpath v = vpath w \<longleftrightarrow> vpn v = vpn w"
proof
  show "vpath v = vpath w \<Longrightarrow> vpn v = vpn w"
    by (simp add: vpath_def vpn_vpath)
  show "vpn v = vpn w \<Longrightarrow> vpath v = vpath w"
    by (simp add: vpath_def vpath_vpn)
qed

lemma vpn_page_at: "vpn (page_at start i) = (unat start div 4096 + i) mod 2 ^ 36"
proof -
  have "unat (page_at start i) = (unat start + i * 4096) mod (4096 * 2 ^ 52)"
    by (simp add: page_at_def unat_word_ariths unat_of_nat mod_simps)
  then have "unat (page_at start i) div 4096 = (unat start div 4096 + i) mod 2 ^ 52"
    by (simp only: mod_mult_div) (simp add: add.commute)
  then show ?thesis
    by (simp add: vpn_def mod_mod_cancel)
qed

lemma mod_add_eq_imp:
  assumes "(a + i) mod n = (a + j) mod (n :: nat)" "i < n" "j < n"
  shows "i = j"
proof -
  have "int ((a + i) mod n) = int ((a + j) mod n)" using assms(1) by simp
  then have "(int a + int i) mod int n = (int a + int j) mod int n" by (simp add: zmod_int)
  then have "int i mod int n = int j mod int n" by (simp add: mod_eq_dvd_iff)
  with assms(2,3) show ?thesis by simp
qed

lemma vpath_page_at_inj:
  assumes "i < 2 ^ 36" "j < 2 ^ 36" "vpath (page_at start i) = vpath (page_at start j)"
  shows "i = j"
  using assms mod_add_eq_imp [of "unat start div 4096" i "2 ^ 36" j]
  by (simp add: vpath_eq_iff vpn_page_at)

end
