(* ===== verification/AddressSpace.thy ===== *)
theory AddressSpace
  imports PageTree
begin

unbundle bit_operations_syntax

text \<open>
  What the operations of \<open>src/src/memory/vmm.c\<close> do to the address space of the current root
  table: mapping, allocating, editing and releasing pages change the translation of exactly the
  pages they are given, keep every table and page in a frame of its own and account for each
  frame in the bitmap of the physical memory manager.
\<close>

section \<open>Translation\<close>

text \<open>The physical page a path of four indices leads to.\<close>

definition translation :: "'a vmm_scheme \<Rightarrow> nat list \<Rightarrow> u64 option" where
  "translation s p = map_option (\<lambda>t. t - hhdm_offset s) (node s (current_PML4 s) p)"

lemma vmm_is_mapped_translation: "vmm_is_mapped virt s \<longleftrightarrow> translation s (vpath virt) \<noteq> None"
  by (cases "node s (current_PML4 s) (vpath virt)")
    (auto simp: vmm_is_mapped_def vmm_walk_node translation_def vpath_snoc node_snoc
      simp del: append_Cons append_Nil split: option.splits if_splits)

lemma vmm_walk_Some:
  assumes "vmm_walk virt s = Some pt"
  shows "node s (current_PML4 s) [PML4_INDEX virt, PDPT_INDEX virt, PD_INDEX virt] = Some pt"
    and "entry_present (tables s pt (PT_INDEX virt))"
    and "node s (current_PML4 s) (vpath virt) = Some (entry_ptr s pt (PT_INDEX virt))"
  using assms
  by (auto simp: vmm_walk_node vpath_snoc node_snoc simp del: append_Cons append_Nil node.simps
      split: option.splits if_splits)

lemma vmm_walk_None: "vmm_walk virt s = None \<longleftrightarrow> node s (current_PML4 s) (vpath virt) = None"
  using vmm_is_mapped_translation [of virt s] by (auto simp: vmm_is_mapped_def translation_def)

lemma translation_walk:
  "vmm_walk virt s = Some pt \<Longrightarrow>
     translation s (vpath virt) = Some (push_bit 12 (physical_addr (tables s pt (PT_INDEX virt))))"
  by (simp add: translation_def vmm_walk_Some entry_ptr_def)

lemma translation_same:
  assumes "hhdm_offset s' = hhdm_offset s" "current_PML4 s' = current_PML4 s"
    "node s' (current_PML4 s) q = node s (current_PML4 s) q"
  shows "translation s' q = translation s q"
  using assms by (simp add: translation_def)

lemma vmm_virt_to_phys_translation:
  assumes "page_tree K s" "PML4_INDEX virt \<in> K"
  shows "vmm_virt_to_phys virt s = (case translation s (vpath virt) of None \<Rightarrow> 0 | Some p \<Rightarrow> p)"
proof (cases "vmm_walk virt s")
  case None
  with vmm_walk_None [of virt s] show ?thesis by (simp add: vmm_virt_to_phys_def translation_def)
next
  case (Some pt)
  then have "node_frame s (entry_ptr s pt (PT_INDEX virt)) \<in> used_frames s"
    using page_treeD_used [OF assms(1) _ vmm_walk_Some(3) [OF Some]] assms(2) by simp
  then have "pmm_is_reserved (push_bit 12 (physical_addr (tables s pt (PT_INDEX virt)))) s"
    by (simp add: pmm.reserved_iff node_frame_def entry_ptr_def)
  with Some show ?thesis
    by (simp add: vmm_virt_to_phys_def translation_walk Let_def)
qed

section \<open>Unmapping\<close>

lemma pmm_free_frame_fields [frame_simps]:
  "tables (pmm_free_frame a s) = tables s" "current_PML4 (pmm_free_frame a s) = current_PML4 s"
  "hhdm_offset (pmm_free_frame a s) = hhdm_offset s" "total_frames (pmm_free_frame a s) = total_frames s"
  "vmm.more (pmm_free_frame a s) = vmm.more s" "cr3 (pmm_free_frame a s) = cr3 s"
  by (simp_all add: pmm_free_frame_def frame_simps)

lemma vmm_unmap_page_unmapped:
  "node s (current_PML4 s) (vpath virt) = None \<Longrightarrow> vmm_unmap_page virt s = (False, s)"
  by (simp add: vmm_unmap_page_def vmm_walk_None [THEN iffD2])

lemma vmm_unmap_page_tree:
  assumes tree: "page_tree K s" and K: "PML4_INDEX virt \<in> K"
    and mapped: "node s (current_PML4 s) (vpath virt) = Some t"
  obtains s' where "vmm_unmap_page virt s = (True, s')" "page_tree K s'"
    "current_PML4 s' = current_PML4 s" "hhdm_offset s' = hhdm_offset s" "total_frames s' = total_frames s"
    "used_frames s' = used_frames s - {node_frame s t}"
    "\<And>q. mpath K q \<Longrightarrow> node s' (current_PML4 s) q =
       (if q = vpath virt then None else node s (current_PML4 s) q)"
proof -
  let ?p = "[PML4_INDEX virt, PDPT_INDEX virt, PD_INDEX virt]" and ?i = "PT_INDEX virt"
  from mapped obtain pt where pt: "vmm_walk virt s = Some pt"
    using vmm_walk_None [of virt s] by (cases "vmm_walk virt s") auto
  note w = vmm_walk_Some [OF pt]
  define e where "e = tables s pt ?i"
  define s1 where "s1 = set_entry pt ?i (clear_present e) s"
  define s' where "s' = pmm_free_frame (push_bit 12 (physical_addr e)) s1"
  from w(3) mapped have t: "t = entry_ptr s pt ?i" by simp
  then have nf: "frame_of (push_bit 12 (physical_addr e)) = node_frame s t"
    by (simp add: node_frame_def entry_ptr_def e_def)
  have used: "node_frame s t \<in> used_frames s"
    using page_treeD_used [OF tree _ mapped] K by simp
  then have step: "vmm_unmap_page virt s = (True, s')"
    using pt by (simp add: vmm_unmap_page_def Let_def pmm.reserved_iff s'_def s1_def nf flip: e_def)
  have same: "hhdm_offset s' = hhdm_offset s" "current_PML4 s' = current_PML4 s"
    "total_frames s' = total_frames s" "used_frames s' = used_frames s - {node_frame s t}"
    by (simp_all add: s'_def s1_def frame_simps pmm.release_used nf)
  have path: "mpath K (?p @ [?i])" using K by (simp add: mpath_def)
  have nodes: "node s' (current_PML4 s) q =
      (if q = vpath virt then None else node s (current_PML4 s) q)" if "mpath K q" for q
    unfolding vpath_snoc
    by (rule node_remove [OF tree w(1) path _ same(1,2) _ _ that, where e = "clear_present e"])
      (simp_all add: s'_def s1_def frame_simps, simp add: set_entry_def)
  have nf': "node_frame s' = node_frame s" by (simp add: node_frame_def fun_eq_iff same)
  have "page_tree K s'"
    unfolding page_tree_def same nf'
    using tree nodes K page_treeD_inj [OF tree _ _ mapped] page_treeD_used [OF tree]
      page_treeD_inj [OF tree]
    by (auto simp: page_tree_def split: if_splits)
  from that [OF step this same(2,1,3,4) nodes] show thesis by simp
qed

text \<open>Unmapping a range removes exactly the pages of the range and frees their frames.\<close>

definition range_paths :: "u64 \<Rightarrow> nat \<Rightarrow> nat list set" where
  "range_paths start n = (\<lambda>i. vpath (page_at start i)) ` {..<n}"

lemma range_paths_Suc: "range_paths start (Suc n) = insert (vpath (page_at start n)) (range_paths start n)"
  by (auto simp: range_paths_def lessThan_Suc)

lemma vmm_unmap_pages_Suc:
  "vmm_unmap_pages start (Suc n) s = snd (vmm_unmap_page (page_at start n) (vmm_unmap_pages start n s))"
  by (simp add: vmm_unmap_pages_def)

lemma vmm_unmap_pages_tree:
  assumes tree: "page_tree K s" and K: "\<And>i. i < n \<Longrightarrow> PML4_INDEX (page_at start i) \<in> K"
  shows "page_tree K (vmm_unmap_pages start n s) \<and>
    current_PML4 (vmm_unmap_pages start n s) = current_PML4 s \<and>
    hhdm_offset (vmm_unmap_pages start n s) = hhdm_offset s \<and>
    total_frames (vmm_unmap_pages start n s) = total_frames s \<and>
    used_frames (vmm_unmap_pages start n s) =
      used_frames s - {node_frame s t | t q. q \<in> range_paths start n \<and> node s (current_PML4 s) q = Some t} \<and>
    (\<forall>q. mpath K q \<longrightarrow> node (vmm_unmap_pages start n s) (current_PML4 s) q =
       (if q \<in> range_paths start n then None else node s (current_PML4 s) q))"
  using K
proof (induction n)
  case 0
  with tree show ?case by (simp add: vmm_unmap_pages_def range_paths_def)
next
  case (Suc n)
  define u where "u = vmm_unmap_pages start n s"
  define v where "v = page_at start n"
  have Kv: "PML4_INDEX v \<in> K" using Suc.prems by (simp add: v_def)
  from Suc have IH: "page_tree K u" "current_PML4 u = current_PML4 s" "hhdm_offset u = hhdm_offset s"
    "total_frames u = total_frames s"
    "used_frames u = used_frames s - {node_frame s t | t q. q \<in> range_paths start n \<and> node s (current_PML4 s) q = Some t}"
    "\<And>q. mpath K q \<Longrightarrow> node u (current_PML4 s) q =
       (if q \<in> range_paths start n then None else node s (current_PML4 s) q)"
    by (auto simp: u_def)
  have nf: "node_frame u = node_frame s" by (simp add: node_frame_def fun_eq_iff IH)
  have vp: "mpath K (vpath v)" using Kv by simp
  show ?case
  proof (cases "node u (current_PML4 s) (vpath v)")
    case None
    then have "vmm_unmap_pages start (Suc n) s = u"
      using vmm_unmap_page_unmapped [of u v] by (simp add: vmm_unmap_pages_Suc IH flip: u_def v_def)
    moreover have "vpath v \<in> range_paths start n \<or> node s (current_PML4 s) (vpath v) = None"
      using IH(6) [OF vp] None by (auto split: if_splits)
    ultimately show ?thesis
      using IH by (auto simp: range_paths_Suc simp flip: v_def)
  next
    case (Some t)
    then have "node u (current_PML4 u) (vpath v) = Some t" by (simp add: IH)
    from vmm_unmap_page_tree [OF IH(1) Kv this] obtain s' where s':
      "vmm_unmap_page v u = (True, s')" "page_tree K s'" "current_PML4 s' = current_PML4 u"
      "hhdm_offset s' = hhdm_offset u" "total_frames s' = total_frames u"
      "used_frames s' = used_frames u - {node_frame u t}"
      "\<And>q. mpath K q \<Longrightarrow> node s' (current_PML4 u) q =
         (if q = vpath v then None else node u (current_PML4 u) q)"
      by blast
    have last: "vmm_unmap_pages start (Suc n) s = s'"
      using s'(1) by (simp add: vmm_unmap_pages_Suc flip: u_def v_def)
    have "vpath v \<notin> range_paths start n" "node s (current_PML4 s) (vpath v) = Some t"
      using IH(6) [OF vp] Some by (auto split: if_splits)
    then show ?thesis
      unfolding last using s'(2-6) IH(2-5) s'(7) IH(6)
      by (auto simp: range_paths_Suc nf simp flip: v_def)
  qed
qed

section \<open>Allocating a range\<close>

lemma alloc_frame_page_tree:
  assumes tree: "page_tree K s" and zero: "0 \<in> used_frames s" and free: "free_frames s \<noteq> {}"
  obtains f s1 where "pmm_alloc_frame s = (word_of_nat (f * 4096), s1)" "f \<in> free_frames s"
    "(word_of_nat (f * 4096) :: u64) \<noteq> 0" "page_tree K s1" "fresh_page K f s1"
    "current_PML4 s1 = current_PML4 s" "hhdm_offset s1 = hhdm_offset s" "total_frames s1 = total_frames s"
    "used_frames s1 = insert f (used_frames s)" "\<And>q. node s1 (current_PML4 s) q = node s (current_PML4 s) q"
proof -
  from vmm_alloc_fresh [OF tree free] obtain f s1 where f:
    "pmm_alloc_frame s = (word_of_nat (f * 4096), s1)" "f \<in> free_frames s" "f < 2 ^ 40"
    "used_frames s1 = insert f (used_frames s)" "s1 = snd (pmm_alloc_frame s)"
    by blast
  have s1: "hhdm_offset s1 = hhdm_offset s" "current_PML4 s1 = current_PML4 s"
    "total_frames s1 = total_frames s" "tables s1 = tables s"
    unfolding f(5) by (simp_all add: frame_simps)
  have nodes: "node s1 r q = node s r q" for r q by (rule node_cong) (simp_all add: s1)
  have nf: "node_frame s1 = node_frame s" by (simp add: node_frame_def fun_eq_iff s1)
  have "f \<noteq> 0" using f(2) zero by (metis Diff_iff free_frames_def)
  then have nz: "(word_of_nat (f * 4096) :: u64) \<noteq> 0"
    using f(3) unat_word_of_nat_less [of "f * 4096", where 'a = 64] by force
  have "page_tree K s1"
    using tree by (auto simp: page_tree_def s1 nodes nf f(4))
  moreover have "fresh_page K f s1"
    using f(2) page_treeD_used [OF tree]
    by (force simp: fresh_page_def s1 nodes nf f(4) free_frames_def)
  ultimately show thesis using that f(1,2,4) nz s1 nodes by blast
qed

lemma vmm_alloc_pages_tree:
  assumes "page_tree K s" "0 \<in> used_frames s" "entry_present flags"
    and "\<And>i. i \<in> set is \<Longrightarrow> PML4_INDEX (page_at start i) \<in> K"
    and "\<And>i. i \<in> set is \<Longrightarrow> node s (current_PML4 s) (vpath (page_at start i)) = None"
    and "distinct (map (\<lambda>i. vpath (page_at start i)) is)"
    and "4 * length is \<le> card (free_frames s)"
  shows "\<exists>s'. vmm_alloc_pages start flags is s = (None, s') \<and> page_tree K s' \<and>
    current_PML4 s' = current_PML4 s \<and> hhdm_offset s' = hhdm_offset s \<and> total_frames s' = total_frames s \<and>
    used_frames s \<subseteq> used_frames s' \<and> card (free_frames s) \<le> card (free_frames s') + 4 * length is \<and>
    (\<forall>i\<in>set is. \<exists>f\<in>free_frames s. node s' (current_PML4 s) (vpath (page_at start i)) =
       Some (word_of_nat (f * 4096) + hhdm_offset s)) \<and>
    (\<forall>q. mpath K q \<longrightarrow> length q = 4 \<longrightarrow> q \<notin> (\<lambda>i. vpath (page_at start i)) ` set is \<longrightarrow>
       node s' (current_PML4 s) q = node s (current_PML4 s) q)"
  using assms
proof (induction "is" arbitrary: s)
  case Nil
  then show ?case by simp
next
  case (Cons i "is")
  let ?v = "page_at start i"
  have "free_frames s \<noteq> {}" using Cons.prems(7) by auto
  from alloc_frame_page_tree [OF Cons.prems(1,2) this] obtain f s1 where f:
    "pmm_alloc_frame s = (word_of_nat (f * 4096), s1)" "f \<in> free_frames s"
    "(word_of_nat (f * 4096) :: u64) \<noteq> 0" "page_tree K s1" "fresh_page K f s1"
    and s1: "current_PML4 s1 = current_PML4 s" "hhdm_offset s1 = hhdm_offset s" "total_frames s1 = total_frames s"
    "used_frames s1 = insert f (used_frames s)" "\<And>q. node s1 (current_PML4 s) q = node s (current_PML4 s) q"
    by blast
  have "free_frames s1 = free_frames s - {f}" by (auto simp: free_frames_def s1)
  with f(2) have card1: "card (free_frames s) = Suc (card (free_frames s1))"
    by (metis card_Suc_Diff1 finite_free_frames)
  obtain ok s2 where step: "vmm_map_page ?v (word_of_nat (f * 4096)) flags s1 = (ok, s2)" by fastforce
  have "PML4_INDEX ?v \<in> K" "3 \<le> card (free_frames s1)" "node s1 (current_PML4 s1) (vpath ?v) = None"
    using Cons.prems card1 by (auto simp: s1)
  from vmm_map_page_tree [OF f(4) this(1,2) f(5) Cons.prems(3) this(3) step] s1(1-3)
  have s2: "ok" "page_tree K s2" "current_PML4 s2 = current_PML4 s" "hhdm_offset s2 = hhdm_offset s"
    "total_frames s2 = total_frames s" "used_frames s1 \<subseteq> used_frames s2"
    "card (free_frames s1) \<le> card (free_frames s2) + 3"
    and n2: "\<And>q. mpath K q \<Longrightarrow> length q = 4 \<Longrightarrow> node s2 (current_PML4 s) q =
       (if q = vpath ?v then Some (word_of_nat (f * 4096) + hhdm_offset s) else node s (current_PML4 s) q)"
    by (auto simp: s1(5))
  have free2: "free_frames s2 \<subseteq> free_frames s" using s1(4) s2(5,6) by (auto simp: free_frames_def)
  have rest: "vpath (page_at start j) \<noteq> vpath ?v" if "j \<in> set is" for j
    using Cons.prems(6) that by (metis (no_types, lifting) distinct.simps(2) image_eqI list.set_map list.simps(9))
  have "\<exists>s'. vmm_alloc_pages start flags is s2 = (None, s') \<and> page_tree K s' \<and>
    current_PML4 s' = current_PML4 s2 \<and> hhdm_offset s' = hhdm_offset s2 \<and> total_frames s' = total_frames s2 \<and>
    used_frames s2 \<subseteq> used_frames s' \<and> card (free_frames s2) \<le> card (free_frames s') + 4 * length is \<and>
    (\<forall>i\<in>set is. \<exists>f\<in>free_frames s2. node s' (current_PML4 s2) (vpath (page_at start i)) =
       Some (word_of_nat (f * 4096) + hhdm_offset s2)) \<and>
    (\<forall>q. mpath K q \<longrightarrow> length q = 4 \<longrightarrow> q \<notin> (\<lambda>i. vpath (page_at start i)) ` set is \<longrightarrow>
       node s' (current_PML4 s2) q = node s2 (current_PML4 s2) q)"
    by (rule Cons.IH) (use s2 s1 Cons.prems n2 rest card1 in \<open>auto simp: s2(3)\<close>)
  then obtain s' where s': "vmm_alloc_pages start flags is s2 = (None, s')" "page_tree K s'"
    "current_PML4 s' = current_PML4 s" "hhdm_offset s' = hhdm_offset s" "total_frames s' = total_frames s"
    "used_frames s2 \<subseteq> used_frames s'"
    "\<forall>i\<in>set is. \<exists>f\<in>free_frames s2. node s' (current_PML4 s) (vpath (page_at start i)) =
       Some (word_of_nat (f * 4096) + hhdm_offset s)"
    "\<And>q. mpath K q \<Longrightarrow> length q = 4 \<Longrightarrow> q \<notin> (\<lambda>i. vpath (page_at start i)) ` set is \<Longrightarrow>
       node s' (current_PML4 s) q = node s2 (current_PML4 s) q"
    "card (free_frames s2) \<le> card (free_frames s') + 4 * length is"
    using s2(3-5) by auto
  have "card (free_frames s) \<le> card (free_frames s') + 4 * length (i # is)" using card1 s2(7) s'(9) by simp
  moreover have "node s' (current_PML4 s) (vpath ?v) = Some (word_of_nat (f * 4096) + hhdm_offset s)"
    using s'(8) [of "vpath ?v"] n2 [of "vpath ?v"] rest Cons.prems(4) by fastforce
  moreover have "\<forall>i\<in>set is. \<exists>f\<in>free_frames s. node s' (current_PML4 s) (vpath (page_at start i)) =
       Some (word_of_nat (f * 4096) + hhdm_offset s)"
    using s'(7) free2 by blast
  ultimately show ?case
    using s'(1-6,8) f s2 s1(4) n2 step by (auto intro!: exI [of _ s'] simp del: of_nat_mult)
qed

section \<open>A fresh address space\<close>

lemma node_empty_root:
  assumes "\<And>i. i \<in> K \<Longrightarrow> \<not> entry_present (tables s r i)" "mpath K p"
  shows "node s r p = (if p = [] then Some r else None)"
  using assms by (cases p) (auto simp: mpath_def)

lemma page_tree_empty_root:
  assumes "\<And>i. i \<in> K \<Longrightarrow> \<not> entry_present (tables s (current_PML4 s) i)"
    and "unat (total_frames s) \<le> 2 ^ 40" "hhdm_offset s \<noteq> 0"
    and "unat (hhdm_offset s) + unat (total_frames s) * 4096 < 2 ^ 64"
    and "node_frame s (current_PML4 s) \<in> used_frames s"
  shows "page_tree K s"
proof -
  have "node s (current_PML4 s) p = (if p = [] then Some (current_PML4 s) else None)" if "mpath K p" for p
    using assms(1) that by (rule node_empty_root)
  with assms(2-) show ?thesis by (auto simp: page_tree_def split: if_splits)
qed

text \<open>
  A machine with sixteen frames, of which frames 0 (low memory), 1 (the root table) and 2 (some
  page) are in use, and an empty root table.
\<close>

definition boot_vmm :: vmm where
  "boot_vmm = \<lparr>is_screen_init = True, con = [], ram = (\<lambda>_. 0)(0x5000 := 0x07), pmm_bitmap = 0x5000,
     pmm_bitmap_size = 2, total_frames = 16, tables = (\<lambda>_ _. 0), current_PML4 = 0xFFFF800000001000,
     hhdm_offset = 0xFFFF800000000000, kernel_start_phys = 0, kernel_end_phys = 0, cr3 = 0x1000\<rparr>"

lemma boot_vmm_sel [simp]:
  "current_PML4 boot_vmm = 0xFFFF800000001000" "hhdm_offset boot_vmm = 0xFFFF800000000000"
  "total_frames boot_vmm = 16" "tables boot_vmm = (\<lambda>_ _. 0)"
  by (simp_all add: boot_vmm_def)

lemma boot_vmm_used: "f < 16 \<Longrightarrow> f \<in> used_frames boot_vmm \<longleftrightarrow> f < 3"
proof -
  assume "f < 16"
  then have "f = 0 \<or> f = 1 \<or> f = 2 \<or> f = 3 \<or> f = 4 \<or> f = 5 \<or> f = 6 \<or> f = 7 \<or> f = 8 \<or>
      f = 9 \<or> f = 10 \<or> f = 11 \<or> f = 12 \<or> f = 13 \<or> f = 14 \<or> f = 15" by presburger
  then show ?thesis
    by (auto simp: used_frames_def pmm_get_frame_def bitmap_addr_def boot_vmm_def)
qed

lemma boot_vmm_tree [simp]: "page_tree K boot_vmm"
  by (rule page_tree_empty_root)
    (simp_all add: node_frame_def frame_of_def boot_vmm_used)

lemma boot_vmm_free: "free_frames boot_vmm = {3..<16}"
  using boot_vmm_used by (auto simp: free_frames_def not_less)

lemma boot_vmm_node: "mpath K p \<Longrightarrow> node boot_vmm (current_PML4 boot_vmm) p = (if p = [] then Some (current_PML4 boot_vmm) else None)"
  by (rule node_empty_root) simp_all

lemma boot_vmm_fresh: "fresh_page K 2 boot_vmm"
  by (auto simp: fresh_page_def boot_vmm_used boot_vmm_node node_frame_def frame_of_def
      simp del: boot_vmm_sel(1) split: if_splits) (simp add: frame_of_def)

section \<open>Properties\<close>

lemma all_nat_split: "(\<forall>i. P i) \<longleftrightarrow> P 0 \<and> (\<forall>i. P (Suc i))"
  by (metis not0_implies_Suc)

lemma virt_to_phys_cong:
  assumes "page_tree K s" "page_tree K s'" "PML4_INDEX w \<in> K" "translation s' (vpath w) = translation s (vpath w)"
  shows "vmm_virt_to_phys w s' = vmm_virt_to_phys w s"
  using assms by (simp add: vmm_virt_to_phys_translation)

lemma vmm_map_page_mapped:
  assumes tree: "page_tree K s" and K: "PML4_INDEX virt \<in> K" and free: "3 \<le> card (free_frames s)"
    and mapped: "node s (current_PML4 s) (vpath virt) = Some t"
    and step: "vmm_map_page virt phys flags s = (ok, s')"
  shows "\<not> ok \<and> page_tree K s' \<and> tree_ext K s s'"
proof -
  let ?p = "[PML4_INDEX virt, PDPT_INDEX virt, PD_INDEX virt]"
  from vmm_descend_tree [OF tree K free] obtain pt s1 where d: "vmm_descend virt s = (Some pt, s1)"
    "node s1 (current_PML4 s) ?p = Some pt" "page_tree K s1" "tree_ext K s s1"
    by blast
  have "node s1 (current_PML4 s) (vpath virt) = Some t"
    using d(4) mapped K by (simp add: tree_ext_def)
  then have "entry_present (tables s1 pt (PT_INDEX virt))"
    using d(2) by (auto simp: vpath_snoc node_snoc simp del: node.simps append_Cons split: if_splits)
  with step d show ?thesis by (simp add: vmm_map_page_descend vmm_map_leaf_def)
qed

text \<open>
  C10: \<open>vmm_map_page\<close>, given a reserved page frame that no table or page uses and three frames to
  spare for tables, succeeds exactly if the virtual page was unmapped; afterwards the page
  translates to the frame on success, every other virtual page of the managed part of the
  address space translates as before, and the tables still lie in pairwise different frames.
\<close>
theorem vmm_map_page_correct:
  assumes "page_tree K s" "PML4_INDEX virt \<in> K" "3 \<le> card (free_frames s)"
    and "fresh_page K f s" "entry_present flags"
    and "vmm_map_page virt (word_of_nat (f * 4096)) flags s = (ok, s')"
  shows "ok = (\<not> vmm_is_mapped virt s) \<and> page_tree K s' \<and>
    (\<forall>w. PML4_INDEX w \<in> K \<longrightarrow> vmm_virt_to_phys w s' =
      (if ok \<and> vpn w = vpn virt then word_of_nat (f * 4096) else vmm_virt_to_phys w s))"
proof (cases "node s (current_PML4 s) (vpath virt)")
  case None
  from vmm_map_page_tree [OF assms(1-5) None assms(6)] have r: "ok" "page_tree K s'"
    "current_PML4 s' = current_PML4 s" "hhdm_offset s' = hhdm_offset s"
    "\<And>q. mpath K q \<Longrightarrow> length q = 4 \<Longrightarrow> node s' (current_PML4 s) q =
       (if q = vpath virt then Some (word_of_nat (f * 4096) + hhdm_offset s)
        else node s (current_PML4 s) q)"
    by auto
  have "vmm_virt_to_phys w s' =
      (if vpn w = vpn virt then word_of_nat (f * 4096) else vmm_virt_to_phys w s)" if "PML4_INDEX w \<in> K" for w
    using that r(5) [of "vpath w"]
    by (auto simp: vmm_virt_to_phys_translation [OF r(2)] vmm_virt_to_phys_translation [OF assms(1)]
        translation_def r(3,4) simp flip: vpath_eq_iff)
  with r None show ?thesis by (simp add: vmm_is_mapped_translation translation_def)
next
  case (Some t)
  from vmm_map_page_mapped [OF assms(1-3) Some assms(6)] have r: "\<not> ok" "page_tree K s'" "tree_ext K s s'"
    by auto
  then have "vmm_virt_to_phys w s' = vmm_virt_to_phys w s" if "PML4_INDEX w \<in> K" for w
    using that assms(1) by (intro virt_to_phys_cong [of K]) (auto simp: translation_def tree_ext_def)
  with r Some show ?thesis by (simp add: vmm_is_mapped_translation translation_def)
qed

theorem vmm_map_page_correct_witness:
  "page_tree {..<256} boot_vmm \<and>
   (\<exists>s'. vmm_map_page 0x400000 (word_of_nat (2 * 4096)) VMM_FLAGS_USER_RW boot_vmm = (True, s') \<and>
      vmm_virt_to_phys 0x400123 s' = 0x2000)"
proof -
  obtain ok s' where step: "vmm_map_page 0x400000 (word_of_nat (2 * 4096)) VMM_FLAGS_USER_RW boot_vmm = (ok, s')"
    by fastforce
  have "PML4_INDEX 0x400000 \<in> {..<256}" "3 \<le> card (free_frames boot_vmm)" "entry_present VMM_FLAGS_USER_RW"
    by (simp_all add: PML4_INDEX_def index_unat boot_vmm_free entry_present_def VMM_FLAGS_USER_RW_def)
  note r = vmm_map_page_correct [OF boot_vmm_tree this(1,2) boot_vmm_fresh this(3) step]
  have "node boot_vmm (current_PML4 boot_vmm) (vpath 0x400000) = None"
    using boot_vmm_node [of UNIV "vpath 0x400000"] by (simp add: vpath_def mpath_def)
  then have "\<not> vmm_is_mapped 0x400000 boot_vmm"
    by (simp add: vmm_is_mapped_translation translation_def)
  with r have ok: "ok" by simp
  have "PML4_INDEX 0x400123 \<in> {..<256}" "vpn 0x400123 = vpn 0x400000"
    by (simp_all add: PML4_INDEX_def index_unat vpn_def)
  with r ok step show ?thesis by auto
qed

text \<open>
  C11: \<open>vmm_alloc\<close> over an unmapped range, with four free frames per page (the page and at most
  three tables) and frame 0 in use, succeeds; afterwards every page of the range translates to
  a frame that was free before, different pages to different frames, and the translation of
  every other page is unchanged.
\<close>
theorem vmm_alloc_correct:
  assumes "page_tree K s" "0 \<in> used_frames s" "entry_present flags"
    and "n = page_amount start end_virt" "n \<le> 2 ^ 36" "4 * n \<le> card (free_frames s)"
    and "\<forall>i<n. PML4_INDEX (page_at start i) \<in> K"
    and "\<forall>i<n. \<not> vmm_is_mapped (page_at start i) s"
  shows "\<exists>s'. vmm_alloc start end_virt flags s = (True, s') \<and> page_tree K s' \<and>
    (\<forall>i<n. frame_of (vmm_virt_to_phys (page_at start i) s') \<in> free_frames s) \<and>
    inj_on (\<lambda>i. frame_of (vmm_virt_to_phys (page_at start i) s')) {..<n} \<and>
    (\<forall>w. PML4_INDEX w \<in> K \<longrightarrow> (\<forall>i<n. vpn w \<noteq> vpn (page_at start i)) \<longrightarrow>
       vmm_virt_to_phys w s' = vmm_virt_to_phys w s)"
proof -
  let ?v = "page_at start"
  have dist: "distinct (map (\<lambda>i. vpath (?v i)) [0..<n])"
    using assms(5) by (auto simp: distinct_map intro!: inj_onI dest: vpath_page_at_inj [rotated 2])
  have "\<And>i. i \<in> set [0..<n] \<Longrightarrow> node s (current_PML4 s) (vpath (?v i)) = None"
    using assms(8) by (simp add: vmm_is_mapped_translation translation_def)
  from vmm_alloc_pages_tree [OF assms(1-3) _ this dist] assms(6,7) obtain s' where s':
    "vmm_alloc_pages start flags [0..<n] s = (None, s')" "page_tree K s'"
    "current_PML4 s' = current_PML4 s" "hhdm_offset s' = hhdm_offset s" "total_frames s' = total_frames s"
    and pages: "\<And>i. i < n \<Longrightarrow> \<exists>f\<in>free_frames s. node s' (current_PML4 s) (vpath (?v i)) =
       Some (word_of_nat (f * 4096) + hhdm_offset s)"
    and other: "\<And>q. mpath K q \<Longrightarrow> length q = 4 \<Longrightarrow> q \<notin> (\<lambda>i. vpath (?v i)) ` {..<n} \<Longrightarrow>
       node s' (current_PML4 s) q = node s (current_PML4 s) q"
    by (auto simp: atLeast0LessThan)
  have page: "\<exists>f. f \<in> free_frames s \<and> node s' (current_PML4 s) (vpath (?v i)) = Some (word_of_nat (f * 4096) + hhdm_offset s) \<and>
      frame_of (vmm_virt_to_phys (?v i) s') = f" if "i < n" for i
  proof -
    from pages [OF that] obtain f where f: "f \<in> free_frames s"
      "node s' (current_PML4 s) (vpath (?v i)) = Some (word_of_nat (f * 4096) + hhdm_offset s)" by blast
    then have "vmm_virt_to_phys (?v i) s' = word_of_nat (f * 4096)"
      using assms(7) that by (simp add: vmm_virt_to_phys_translation [OF s'(2)] translation_def s'(3,4))
    moreover have "f < 2 ^ 40" using f(1) page_treeD_limit [OF assms(1)] by (simp add: free_frames_def)
    ultimately show ?thesis using f by (simp del: of_nat_mult)
  qed
  have "inj_on (\<lambda>i. frame_of (vmm_virt_to_phys (?v i) s')) {..<n}"
  proof (rule inj_onI)
    fix i j assume ij: "i \<in> {..<n}" "j \<in> {..<n}"
      and eq: "frame_of (vmm_virt_to_phys (?v i) s') = frame_of (vmm_virt_to_phys (?v j) s')"
    from page [of i] page [of j] ij eq obtain u where
      "node s' (current_PML4 s') (vpath (?v i)) = Some u" "node s' (current_PML4 s') (vpath (?v j)) = Some u"
      by (auto simp: s'(3))
    then have "vpath (?v i) = vpath (?v j)"
      using page_treeD_inj [OF s'(2)] ij assms(7) by auto
    then show "i = j" using vpath_page_at_inj ij assms(5) by force
  qed
  moreover have "vmm_virt_to_phys w s' = vmm_virt_to_phys w s"
    if "PML4_INDEX w \<in> K" "\<forall>i<n. vpn w \<noteq> vpn (?v i)" for w
  proof -
    have "vpath w \<notin> (\<lambda>i. vpath (?v i)) ` {..<n}" using that(2) by (auto simp: vpath_eq_iff)
    with other [of "vpath w"] that(1) have "translation s' (vpath w) = translation s (vpath w)"
      by (simp add: translation_def s'(3,4))
    with that(1) show ?thesis by (intro virt_to_phys_cong [OF assms(1) s'(2)])
  qed
  ultimately show ?thesis
    using s'(1,2) page assms(4) by (auto simp: vmm_alloc_def)
qed

lemma PML4_low_pages: "i < 2 \<Longrightarrow> PML4_INDEX (page_at 0x400000 i) \<in> {..<256}"
proof -
  assume "i < 2"
  then have "i = 0 \<or> i = 1" by auto
  then show ?thesis by (auto simp: page_at_def PML4_INDEX_def index_unat)
qed

theorem vmm_alloc_correct_witness:
  "\<exists>s'. vmm_alloc 0x400000 0x401fff VMM_FLAGS_USER_RW boot_vmm = (True, s') \<and>
     frame_of (vmm_virt_to_phys (page_at 0x400000 1) s') \<in> free_frames boot_vmm"
proof -
  have n: "2 = page_amount 0x400000 0x401fff" by (simp add: page_amount_def)
  have "node boot_vmm (current_PML4 boot_vmm) (vpath (page_at 0x400000 i)) = None" for i
    using boot_vmm_node [of UNIV "vpath (page_at 0x400000 i)"] by (simp add: vpath_def mpath_def)
  then have "\<forall>i<2. \<not> vmm_is_mapped (page_at 0x400000 i) boot_vmm"
    by (simp add: vmm_is_mapped_translation translation_def)
  moreover have "entry_present VMM_FLAGS_USER_RW" "0 \<in> used_frames boot_vmm"
    by (simp_all add: entry_present_def VMM_FLAGS_USER_RW_def boot_vmm_used)
  ultimately show ?thesis
    using vmm_alloc_correct [OF boot_vmm_tree [of "{..<256}"] _ _ n, of VMM_FLAGS_USER_RW] PML4_low_pages
    by (auto simp: boot_vmm_free)
qed

lemma page_frame:
  "page_tree K s \<Longrightarrow> PML4_INDEX w \<in> K \<Longrightarrow> node s (current_PML4 s) (vpath w) = Some t \<Longrightarrow>
     frame_of (vmm_virt_to_phys w s) = node_frame s t"
  by (simp add: vmm_virt_to_phys_translation translation_def node_frame_def)

text \<open>
  C12: \<open>vmm_free\<close> removes exactly the translations of the range, gives back exactly the frames
  those pages had, and leaves every other page as it was.
\<close>
theorem vmm_free_correct:
  assumes "page_tree K s" "n = page_amount start end_virt"
    and "\<forall>i<n. PML4_INDEX (page_at start i) \<in> K"
  shows "page_tree K (vmm_free start end_virt s) \<and>
    used_frames (vmm_free start end_virt s) = used_frames s -
      (\<lambda>i. frame_of (vmm_virt_to_phys (page_at start i) s)) ` {i. i < n \<and> vmm_is_mapped (page_at start i) s} \<and>
    (\<forall>w. PML4_INDEX w \<in> K \<longrightarrow> vmm_virt_to_phys w (vmm_free start end_virt s) =
       (if \<exists>i<n. vpn w = vpn (page_at start i) then 0 else vmm_virt_to_phys w s))"
proof -
  define s' where "s' = vmm_free start end_virt s"
  from vmm_unmap_pages_tree [OF assms(1), of n start] assms(2,3) have s': "page_tree K s'"
    "current_PML4 s' = current_PML4 s" "hhdm_offset s' = hhdm_offset s"
    "used_frames s' = used_frames s -
       {node_frame s t | t q. q \<in> range_paths start n \<and> node s (current_PML4 s) q = Some t}"
    "\<And>q. mpath K q \<Longrightarrow> node s' (current_PML4 s) q =
       (if q \<in> range_paths start n then None else node s (current_PML4 s) q)"
    by (simp_all add: s'_def vmm_free_def)
  have "{node_frame s t | t q. q \<in> range_paths start n \<and> node s (current_PML4 s) q = Some t} =
      (\<lambda>i. frame_of (vmm_virt_to_phys (page_at start i) s)) ` {i. i < n \<and> vmm_is_mapped (page_at start i) s}"
    using assms(3) page_frame [OF assms(1)]
    by (auto simp: range_paths_def vmm_is_mapped_translation translation_def image_iff) metis+
  moreover have "vmm_virt_to_phys w s' =
      (if \<exists>i<n. vpn w = vpn (page_at start i) then 0 else vmm_virt_to_phys w s)" if "PML4_INDEX w \<in> K" for w
    using that s'(5) [of "vpath w"]
    by (auto simp: vmm_virt_to_phys_translation [OF s'(1)] vmm_virt_to_phys_translation [OF assms(1)]
        translation_def s'(2,3) range_paths_def vpath_eq_iff)
  ultimately show ?thesis
    using s' by (simp flip: s'_def)
qed

theorem vmm_free_correct_witness:
  "vmm_virt_to_phys 0x400123 (vmm_free 0x400000 0x401fff boot_vmm) = 0"
proof -
  have n: "2 = page_amount 0x400000 0x401fff" by (simp add: page_amount_def)
  have K: "\<forall>i<2. PML4_INDEX (page_at 0x400000 i) \<in> {..<256}"
    using PML4_low_pages by blast
  have "\<exists>i<2. vpn 0x400123 = vpn (page_at 0x400000 i)"
    by (rule exI [of _ 0]) (simp add: vpn_def page_at_def)
  moreover have "PML4_INDEX 0x400123 \<in> {..<256}"
    by (simp add: PML4_INDEX_def index_unat)
  ultimately show ?thesis
    using vmm_free_correct [OF boot_vmm_tree n K] by (simp only: simp_thms if_True)
qed

text \<open>
  C27: \<open>vmm_copy_kernel_PML4\<close> makes the upper half of the target root equal to that of the source
  root and touches nothing else, so that every kernel address has the same translation below
  both roots.
\<close>
theorem vmm_copy_kernel_PML4_shares:
  assumes "\<forall>n<length p. node s from (i # take n p) \<noteq> Some to" "256 \<le> i" "i < 512"
  shows "node (vmm_copy_kernel_PML4 to from s) to (i # p) = node s from (i # p) \<and>
    (\<forall>t j. t \<noteq> to \<or> j < 256 \<longrightarrow>
       tables (vmm_copy_kernel_PML4 to from s) t j = tables s t j)"
proof -
  let ?s' = "vmm_copy_kernel_PML4 to from s"
  have tabs: "tables (fold (\<lambda>i s. set_entry to i (tables s from i) s) is s) =
      (tables s)(to := (\<lambda>j. if j \<in> set is then tables s from j else tables s to j))" for "is"
    by (induction "is" rule: rev_induct) (auto simp: set_entry_def fun_eq_iff)
  have hh: "hhdm_offset (fold (\<lambda>i s. set_entry to i (tables s from i) s) is s) = hhdm_offset s" for "is"
    by (induction "is" rule: rev_induct) (simp_all add: frame_simps)
  have t': "tables ?s' = (tables s)(to := (\<lambda>j. if 256 \<le> j \<and> j < 512 then tables s from j else tables s to j))"
    unfolding vmm_copy_kernel_PML4_def tabs by (simp only: set_upt atLeastLessThan_iff)
  have hh': "hhdm_offset ?s' = hhdm_offset s" unfolding vmm_copy_kernel_PML4_def by (rule hh)
  have below: "node ?s' r q = node s r q" if "\<forall>n<length q. node s r (take n q) \<noteq> Some to" for r q
    using that
  proof (induction q arbitrary: r)
    case Nil
    then show ?case by simp
  next
    case (Cons j q)
    from Cons.prems have "r \<noteq> to" by force
    moreover have "\<forall>n<length q. node s (entry_ptr s r j) (take n q) \<noteq> Some to"
      if "entry_present (tables s r j)"
    proof (intro allI impI)
      fix n assume "n < length q"
      then show "node s (entry_ptr s r j) (take n q) \<noteq> Some to"
        using Cons.prems [rule_format, of "Suc n"] that by simp
    qed
    ultimately show ?case
      using Cons.IH by (simp add: t' entry_ptr_def hh')
  qed
  have "node ?s' to (i # p) = node s from (i # p)"
  proof (cases "entry_present (tables s from i)")
    case True
    then have "node ?s' (entry_ptr s from i) p = node s (entry_ptr s from i) p"
      using assms(1) by (intro below) auto
    with True assms(2,3) show ?thesis by (simp add: t' entry_ptr_def hh')
  next
    case False
    with assms(2,3) show ?thesis by (simp add: t')
  qed
  then show ?thesis by (simp add: t')
qed

theorem vmm_copy_kernel_PML4_shares_witness:
  "node (vmm_copy_kernel_PML4 0xFFFF800000002000 0xFFFF800000001000 boot_vmm) 0xFFFF800000002000 [256, 0] =
     node boot_vmm 0xFFFF800000001000 [256, 0]"
  by (rule vmm_copy_kernel_PML4_shares [THEN conjunct1]) simp_all

text \<open>
  C28: the null check of \<open>vmm_create_PML4\<close> tests the address after the direct-map offset was
  added, so running out of frames is not reported: with every frame in use the call returns the
  direct-map address of physical frame 0 and clears that frame.
\<close>
theorem vmm_create_PML4_out_of_memory:
  assumes "{..<unat (total_frames s)} \<subseteq> used_frames s" "hhdm_offset s \<noteq> 0"
  shows "vmm_create_PML4 s = (Some (hhdm_offset s), zero_table (hhdm_offset s) s)"
  using pmm.alloc_full [OF assms(1)] assms(2) by (simp add: vmm_create_PML4_def Let_def)

theorem vmm_create_PML4_out_of_memory_witness:
  "fst (vmm_create_PML4 (boot_vmm\<lparr>total_frames := 3\<rparr>)) = Some 0xFFFF800000000000"
proof -
  have "f \<in> used_frames (boot_vmm\<lparr>total_frames := 3\<rparr>) \<longleftrightarrow> f \<in> used_frames boot_vmm" for f
    by (simp add: used_frames_def pmm_get_frame_def bitmap_addr_def)
  then have "{..<unat (total_frames (boot_vmm\<lparr>total_frames := 3\<rparr>))} \<subseteq> used_frames (boot_vmm\<lparr>total_frames := 3\<rparr>)"
    using boot_vmm_used by auto
  from vmm_create_PML4_out_of_memory [OF this] show ?thesis by simp
qed



end
