(* ===== verification/Util.thy ===== *)
theory Util
  imports Prelude "HOL-Library.Signed_Division"
begin

unbundle bit_operations_syntax

text \<open>
  The arithmetic and memory helpers of \<open>src/src/util/util.c\<close>. A \<open>double\<close> is a real number
  (every caller passes integers or short decimal fractions); the conversion to \<open>int\<close> truncates
  and yields the smallest \<open>int\<close> outside the range, as the instruction that the compiler emits
  does. Memory is a function from addresses to bytes.
\<close>

section \<open>Arithmetic\<close>

definition INT_MIN :: int where "INT_MIN = - (2 ^ 31)"

definition trunc :: "real \<Rightarrow> int" where
  "trunc x = (if 0 \<le> x then \<lfloor>x\<rfloor> else \<lceil>x\<rceil>)"

definition int_of_double :: "real \<Rightarrow> int" where
  "int_of_double x = (let t = trunc x in if INT_MIN \<le> t \<and> t < 2 ^ 31 then t else INT_MIN)"

definition abs_double :: "real \<Rightarrow> real" where
  "abs_double num = (if num < 0 then - num else num)"

definition pow :: "real \<Rightarrow> int \<Rightarrow> real" where
  "pow base n =
     (if n = 0 then 1
      else if n = 1 then base
      else if n = -1 then 1 / base
      else if n > 1 then fold (\<lambda>_ result. result * base) [0..<nat (\<bar>n\<bar> - 1)] base
      else fold (\<lambda>_ result. result / base) [0..<nat (\<bar>n\<bar> - 1)] (1 / base))"

definition max_double :: "real \<Rightarrow> real \<Rightarrow> real" where
  "max_double num1 num2 = (if num1 > num2 then num1 else num2)"

definition min_double :: "real \<Rightarrow> real \<Rightarrow> real" where
  "min_double num1 num2 = (if num1 < num2 then num1 else num2)"

definition clamp :: "real \<Rightarrow> real \<Rightarrow> real \<Rightarrow> real" where
  "clamp num mn mx = (if num > mx then mx else if num < mn then mn else num)"

definition floor_double :: "real \<Rightarrow> real" where
  "floor_double num =
     (if num \<ge> 0 then of_int (int_of_double num)
      else if num - of_int (int_of_double num) \<noteq> 0 then of_int (int_of_double num) - 1
      else num)"

definition ceil_double :: "real \<Rightarrow> real" where
  "ceil_double num =
     (let flo = floor_double num; frac = num - flo in if frac \<noteq> 0 then flo + 1 else num)"

definition ceil_div :: "u64 \<Rightarrow> u64 \<Rightarrow> u64" where
  "ceil_div a b = (a + b - 1) div b"

definition round_double :: "real \<Rightarrow> real" where
  "round_double num =
     (let flo = floor_double num; frac = num - flo in if frac \<ge> 0.5 then flo + 1 else flo)"

text \<open>
  \<open>rand\<close>: the product is computed in 32 bits, widened to \<open>long\<close>, and reduced by the C
  remainder; the result is the new state.
\<close>

definition rand :: "u32 \<Rightarrow> u32" where
  "rand rand_state =
     (let r = sint (rand_state * 1103515245 + 12345) in word_of_int (r smod 0xffffffff))"

section \<open>Memory\<close>

definition memcpy :: "u64 \<Rightarrow> u64 \<Rightarrow> nat \<Rightarrow> (u64 \<Rightarrow> u8) \<Rightarrow> (u64 \<Rightarrow> u8)" where
  "memcpy dest src n m =
     fold (\<lambda>i m. m(dest + word_of_nat i := m (src + word_of_nat i))) [0..<n] m"

definition memset :: "u64 \<Rightarrow> u8 \<Rightarrow> nat \<Rightarrow> (u64 \<Rightarrow> u8) \<Rightarrow> (u64 \<Rightarrow> u8)" where
  "memset dest val n m = fold (\<lambda>i m. m(dest + word_of_nat i := val)) [0..<n] m"

section \<open>Facts\<close>

lemma int_of_double_in_range:
  "\<bar>x\<bar> < 2 ^ 31 \<Longrightarrow> int_of_double x = trunc x"
proof -
  assume "\<bar>x\<bar> < 2 ^ 31"
  then have "- (2 ^ 31) \<le> trunc x \<and> trunc x < 2 ^ 31"
    by (auto simp: trunc_def le_floor_iff floor_less_iff le_ceiling_iff ceiling_less_iff abs_less_iff; linarith)
  then show ?thesis by (simp add: int_of_double_def INT_MIN_def Let_def)
qed

lemma floor_double_eq:
  assumes "\<bar>x\<bar> < 2 ^ 31"
  shows "floor_double x = of_int \<lfloor>x\<rfloor>"
proof (cases "0 \<le> x")
  case True
  with assms show ?thesis by (simp add: floor_double_def int_of_double_in_range trunc_def)
next
  case False
  have "x - of_int \<lceil>x\<rceil> \<noteq> 0 \<Longrightarrow> \<lfloor>x\<rfloor> = \<lceil>x\<rceil> - 1"
    by linarith
  moreover have "x - of_int \<lceil>x\<rceil> = 0 \<Longrightarrow> of_int \<lfloor>x\<rfloor> = x"
    by (metis eq_iff_diff_eq_0 floor_of_int)
  ultimately show ?thesis
    using False assms by (auto simp: floor_double_def int_of_double_in_range trunc_def)
qed

lemma ceil_double_eq: "\<bar>x\<bar> < 2 ^ 31 \<Longrightarrow> ceil_double x = of_int \<lceil>x\<rceil>"
proof -
  assume x: "\<bar>x\<bar> < 2 ^ 31"
  have "x - of_int \<lfloor>x\<rfloor> \<noteq> 0 \<Longrightarrow> \<lceil>x\<rceil> = \<lfloor>x\<rfloor> + 1" "x - of_int \<lfloor>x\<rfloor> = 0 \<Longrightarrow> of_int \<lceil>x\<rceil> = x"
    by linarith (metis eq_iff_diff_eq_0 ceiling_of_int)
  then show ?thesis by (auto simp: ceil_double_def floor_double_eq [OF x] Let_def)
qed

text \<open>
  Within the range of \<open>int\<close>, \<open>floor\<close>, \<open>ceil\<close> and \<open>round\<close> of \<open>util.c\<close> are the mathematical
  functions (\<open>round\<close> rounds halves up).
\<close>
theorem util_rounding_correct:
  assumes "\<bar>x\<bar> < 2 ^ 31"
  shows "floor_double x = of_int \<lfloor>x\<rfloor> \<and> ceil_double x = of_int \<lceil>x\<rceil> \<and>
    round_double x = of_int \<lfloor>x + 1 / 2\<rfloor>"
proof -
  have r: "x - of_int \<lfloor>x\<rfloor> \<ge> 1 / 2 \<Longrightarrow> \<lfloor>x + 1 / 2\<rfloor> = \<lfloor>x\<rfloor> + 1"
    "\<not> x - of_int \<lfloor>x\<rfloor> \<ge> 1 / 2 \<Longrightarrow> \<lfloor>x + 1 / 2\<rfloor> = \<lfloor>x\<rfloor>"
    by linarith+
  show ?thesis
    using r by (auto simp: ceil_double_eq [OF assms] round_double_def floor_double_eq [OF assms] Let_def)
qed

theorem util_rounding_correct_witness:
  "floor_double (- 5 / 2) = - 3 \<and> ceil_double (- 5 / 2) = - 2 \<and> round_double (- 5 / 2) = - 2"
proof -
  have "\<lfloor>- 5 / 2 :: real\<rfloor> = - 3" "\<lceil>- 5 / 2 :: real\<rceil> = - 2" "\<lfloor>- 5 / 2 + 1 / 2 :: real\<rfloor> = - 2"
    by linarith+
  with util_rounding_correct [of "- 5 / 2"] show ?thesis by simp
qed

text \<open>
  \<open>ceil_div a b\<close> is the least \<open>q\<close> such that \<open>q\<close> chunks of size \<open>b\<close> hold \<open>a\<close> bytes,
  whenever \<open>a + b - 1\<close> does not exceed 64 bits.
\<close>
theorem ceil_div_correct:
  assumes "0 < b" "unat a + unat b \<le> 2 ^ 64"
  shows "unat (ceil_div a b) \<le> q \<longleftrightarrow> unat a \<le> q * unat b"
proof -
  have b: "0 < unat b" using assms(1) by (simp add: word_less_nat_alt)
  have b1: "unat (b - 1) = unat b - 1"
    using b by (metis One_nat_def Suc_leI unat_1 unat_sub word_le_nat_alt)
  with assms(2) b have "unat a + unat (b - 1) < 2 ^ LENGTH(64)" by simp
  then have "unat (a + (b - 1)) = unat a + (unat b - 1)"
    using b1 by (simp add: unat_add_lem [THEN iffD1])
  then have "unat (ceil_div a b) = (unat a + (unat b - 1)) div unat b"
    by (simp add: ceil_div_def unat_div algebra_simps)
  then have "unat (ceil_div a b) \<le> q \<longleftrightarrow> unat a + (unat b - 1) < Suc q * unat b"
    using b by (simp only: less_Suc_eq_le [symmetric] div_less_iff_less_mult)
  also have "\<dots> \<longleftrightarrow> unat a \<le> q * unat b"
    using b by auto
  finally show ?thesis .
qed

theorem ceil_div_correct_witness:
  "unat (ceil_div 513 512) \<le> 2 \<and> \<not> unat (ceil_div 513 512) \<le> 1"
  using ceil_div_correct [of 512 513 2] ceil_div_correct [of 512 513 1] by simp

section \<open>Copying\<close>

lemma memcpy_Suc:
  "memcpy dest src (Suc n) m =
     (memcpy dest src n m)(dest + word_of_nat n := memcpy dest src n m (src + word_of_nat n))"
  by (simp add: memcpy_def)

text \<open>
  C33: \<open>memcpy\<close> copies the source as it was before the call, and nothing else changes, if the
  buffers do not overlap or the destination starts at or below the source; it is a forward
  copy, so an overlapping destination above the source would not be copied correctly.
\<close>
theorem memcpy_correct:
  assumes "unat dest + n \<le> 2 ^ 64" "unat src + n \<le> 2 ^ 64"
    and "unat dest \<le> unat src \<or> unat src + n \<le> unat dest"
  shows "(\<forall>i<n. memcpy dest src n m (dest + word_of_nat i) = m (src + word_of_nat i)) \<and>
    (\<forall>a. \<not> (unat dest \<le> unat a \<and> unat a < unat dest + n) \<longrightarrow> memcpy dest src n m a = m a)"
  using assms
proof (induction n)
  case 0
  then show ?case by (simp add: memcpy_def)
next
  case (Suc n)
  have off: "unat (dest + word_of_nat i) = unat dest + i" "unat (src + word_of_nat i) = unat src + i"
    if "i \<le> n" for i
    using Suc.prems(1,2) that unat_add_lem [of dest "word_of_nat i"] unat_add_lem [of src "word_of_nat i"]
    by (simp_all add: unat_of_nat)
  have IH: "\<And>i. i < n \<Longrightarrow> memcpy dest src n m (dest + word_of_nat i) = m (src + word_of_nat i)"
    "\<And>a. \<not> (unat dest \<le> unat a \<and> unat a < unat dest + n) \<Longrightarrow> memcpy dest src n m a = m a"
    using Suc by auto
  have "memcpy dest src n m (src + word_of_nat n) = m (src + word_of_nat n)"
    using Suc.prems(3) by (intro IH(2)) (auto simp: off)
  moreover have "dest + word_of_nat i \<noteq> dest + word_of_nat n" if "i < n" for i
    using off(1) [of i] off(1) [of n] that by (metis add_left_cancel less_imp_le nat_less_le order_refl)
  ultimately show ?case
    using IH off(1) [of n] by (auto simp: memcpy_Suc less_Suc_eq)
qed

theorem memcpy_correct_witness:
  "memcpy 0x10 0x20 4 (\<lambda>a. ucast a) 0x13 = (0x23 :: u8)"
proof -
  have "\<forall>i<4. memcpy 0x10 0x20 4 (\<lambda>a. ucast a :: u8) (0x10 + word_of_nat i) = ucast (0x20 + word_of_nat i :: u64)"
    using memcpy_correct [of "0x10" 4 "0x20" "\<lambda>a. ucast a :: u8"] by simp
  from this [rule_format, of 3] show ?thesis by simp
qed

end
