(* ===== verification/CString.thy ===== *)
theory CString
  imports Util
begin

unbundle bit_operations_syntax

text \<open>
  The string library, \<open>src/src/util/string.c\<close>. A string is the list of its bytes before the
  terminating NUL; a freshly allocated result is a value. Where the code would use a length
  of -1 (\<open>strlen\<close> of a string longer than 1001 bytes) as a size or an index, the result is
  \<open>None\<close>.
\<close>

section \<open>Lengths and comparison\<close>

fun strlen_loop :: "cstr \<Rightarrow> int \<Rightarrow> int" where
  "strlen_loop [] count = count"
| "strlen_loop (c # cs) count = (if count > 1000 then -1 else strlen_loop cs (count + 1))"

definition strlen :: "cstr \<Rightarrow> int" where
  "strlen s = strlen_loop s 0"

definition strcmp :: "cstr \<Rightarrow> cstr \<Rightarrow> bool" where
  "strcmp s1 s2 =
     (let len = strlen s1 in
      if len \<noteq> strlen s2 then False
      else list_all (\<lambda>i. s1 ! i = s2 ! i) [0..<nat len])"

text \<open>\<open>*s\<close>: the first byte, the terminator at the end.\<close>

definition deref :: "cstr \<Rightarrow> u8" where
  "deref s = (case s of [] \<Rightarrow> 0 | c # _ \<Rightarrow> c)"

fun strncmp :: "cstr \<Rightarrow> cstr \<Rightarrow> nat \<Rightarrow> bool" where
  "strncmp s1 s2 0 = True"
| "strncmp s1 s2 (Suc n) =
     (if deref s1 \<noteq> deref s2 \<or> deref s1 = 0 then False else strncmp (tl s1) (tl s2) n)"

section \<open>Searching and cutting\<close>

text \<open>Positions instead of pointers; \<open>None\<close> is \<open>null\<close>.\<close>

fun strchr_loop :: "u8 \<Rightarrow> cstr \<Rightarrow> nat \<Rightarrow> nat option" where
  "strchr_loop target [] i = (if target = 0 then Some i else None)"
| "strchr_loop target (c # cs) i = (if c = target then Some i else strchr_loop target cs (Suc i))"

definition strchr :: "cstr \<Rightarrow> u8 \<Rightarrow> nat option" where
  "strchr s c = strchr_loop c s 0"

fun strrchr_loop :: "u8 \<Rightarrow> cstr \<Rightarrow> nat \<Rightarrow> nat option \<Rightarrow> nat option" where
  "strrchr_loop c [] i found = found"
| "strrchr_loop c (x # xs) i found = strrchr_loop c xs (Suc i) (if x = c then Some i else found)"

definition strrchr :: "cstr \<Rightarrow> u8 \<Rightarrow> nat option" where
  "strrchr s c = strrchr_loop c s 0 None"

definition substr :: "cstr \<Rightarrow> nat \<Rightarrow> nat \<Rightarrow> cstr" where
  "substr s start n = take n (drop start s)"

function str_split :: "u8 \<Rightarrow> cstr \<Rightarrow> cstr list" where
  "str_split delim p =
     (let p1 = dropWhile ((=) delim) p in
      if p1 = [] then []
      else takeWhile ((\<noteq>) delim) p1 # str_split delim (dropWhile ((\<noteq>) delim) p1))"
  by pat_completeness auto
termination
proof (relation "measure (length \<circ> snd)")
  fix delim :: u8 and p p1 :: cstr
  assume p1: "p1 = dropWhile ((=) delim) p" and ne: "p1 \<noteq> []"
  then have "hd p1 \<noteq> delim" using hd_dropWhile by metis
  with ne have "length (dropWhile ((\<noteq>) delim) p1) < length p1"
    by (cases p1) (auto simp: less_Suc_eq_le length_dropWhile_le)
  also have "length p1 \<le> length p" by (simp add: p1 length_dropWhile_le)
  finally show "((delim, dropWhile ((\<noteq>) delim) p1), (delim, p)) \<in> measure (length \<circ> snd)" by simp
qed simp

declare str_split.simps [simp del]

section \<open>Building\<close>

definition str_concat :: "cstr \<Rightarrow> cstr \<Rightarrow> cstr option" where
  "str_concat s1 s2 =
     (let len1 = strlen s1; len2 = strlen s2 in
      if len1 < 0 \<or> len2 < 0 then None
      else Some (take (nat len1) s1 @ take (nat len2) s2))"

definition strdup :: "cstr \<Rightarrow> cstr option" where
  "strdup s = (if strlen s < 0 then None else Some (take (nat (strlen s)) s))"

fun str_concats_loop :: "cstr option \<Rightarrow> cstr list \<Rightarrow> cstr option" where
  "str_concats_loop result [] = result"
| "str_concats_loop result (s # ss) =
     str_concats_loop (case result of None \<Rightarrow> None | Some r \<Rightarrow> str_concat r s) ss"

definition str_concats :: "cstr list \<Rightarrow> cstr option" where
  "str_concats strings = str_concats_loop (strdup (hd strings)) (tl strings)"

section \<open>Numbers\<close>

definition long_of_double :: "real \<Rightarrow> int option" where
  "long_of_double x = (let t = trunc x in if - (2 ^ 63) \<le> t \<and> t < 2 ^ 63 then Some t else None)"

text \<open>The loop that scales the number until it is integral, at most six times.\<close>

primrec frac_loop :: "nat \<Rightarrow> real \<Rightarrow> nat \<times> real" where
  "frac_loop 0 x = (0, x)"
| "frac_loop (Suc n) x =
     (if map_option real_of_int (long_of_double x) \<noteq> Some x
      then (case frac_loop n (x * 10) of (k, y) \<Rightarrow> (Suc k, y)) else (0, x))"

fun digit_count :: "nat \<Rightarrow> nat" where
  "digit_count tmp = (if tmp div 10 > 0 then Suc (digit_count (tmp div 10)) else 1)"

declare digit_count.simps [simp del]

text \<open>
  The loop that writes the digits from the last to the first. \<open>neg\<close>, \<open>point\<close> and \<open>lead\<close> are the
  0/1 values of \<open>is_negative\<close>, \<open>fraction_digit_count > 0\<close> and
  \<open>fraction_digit_count == digit_count\<close>.
\<close>

function write_digits :: "int \<Rightarrow> int \<Rightarrow> int \<Rightarrow> int \<Rightarrow> int \<Rightarrow> nat \<Rightarrow> int \<Rightarrow> u8 list \<Rightarrow> u8 list" where
  "write_digits dc fdc neg point lead n i result =
     (if n = 0 then result
      else
        (let r1 = result[nat (dc - i - 1) := word_of_nat (n mod 10) + 48] in
         if i + neg + point + lead + 1 = fdc then
           (let i1 = i + 1;
                r2 = r1[nat (dc - i1 - 1) := 46];
                r3 = (if n div 10 = 0 then r2[nat neg := 48] else r2)
            in write_digits dc fdc neg point lead (n div 10) (i1 + 1) r3)
         else write_digits dc fdc neg point lead (n div 10) (i + 1) r1))"
  by pat_completeness auto
termination by (relation "measure (\<lambda>(_, _, _, _, _, n, _). n)") auto

declare write_digits.simps [simp del]

text \<open>
  \<open>num_to_str\<close>; \<open>junk\<close> is the content of the freshly allocated result, \<open>None\<close> the conversion of
  a number beyond \<open>long\<close>.
\<close>

definition num_to_str :: "(nat \<Rightarrow> u8) \<Rightarrow> real \<Rightarrow> cstr option" where
  "num_to_str junk num =
     (if num = 0 then Some [48]
      else
        (let neg = (if num < 0 then 1 else 0);
             (fdc, no_frac_num) = frac_loop 6 (abs_double (if num < 0 then - num else num))
         in case long_of_double no_frac_num of
              None \<Rightarrow> None
            | Some int_num \<Rightarrow>
                (let dc = int (digit_count (nat int_num));
                     point = (if fdc > 0 then 1 else 0);
                     lead = (if int fdc = dc then 1 else 0);
                     len = dc + point + lead + neg + 1;
                     r0 = map junk [0..<nat len];
                     r1 = r0[nat (len - 1) := 0];
                     r2 = (if neg = 1 then r1[0 := 45] else r1)
                 in Some (takeWhile ((\<noteq>) 0)
                      (write_digits dc (int fdc) neg point lead (nat int_num)
                         (- neg - point - lead) r2)))))"

fun back_digits :: "nat \<Rightarrow> nat \<Rightarrow> cstr \<Rightarrow> cstr" where
  "back_digits n room acc =
     (if n > 0 \<and> room > 0 then back_digits (n div 10) (room - 1) ((word_of_nat (n mod 10) + 48) # acc)
      else acc)"

declare back_digits.simps [simp del]

definition num_to_str_no_malloc :: "u64 \<Rightarrow> nat \<Rightarrow> cstr option" where
  "num_to_str_no_malloc num buffer_size =
     (if buffer_size < 2 then None
      else if num = 0 then Some [48]
      else Some (back_digits (unat num) (buffer_size - 1) []))"

section \<open>Facts about lengths and comparison\<close>

lemma strlen_loop_eq:
  "0 \<le> n \<Longrightarrow> strlen_loop s n = (if n + int (length s) \<le> 1001 \<or> s = [] then n + int (length s) else -1)"
  by (induction s arbitrary: n) auto

lemma strlen_eq: "strlen s = (if length s \<le> 1001 then int (length s) else -1)"
  by (auto simp: strlen_def strlen_loop_eq)

lemma strcmp_alt: "strcmp s1 s2 \<longleftrightarrow> strlen s1 = strlen s2 \<and> (\<forall>i<nat (strlen s1). s1 ! i = s2 ! i)"
  by (auto simp: strcmp_def Let_def list_all_iff)

lemma strcmp_iff:
  assumes "length s1 \<le> 1001 \<or> length s2 \<le> 1001"
  shows "strcmp s1 s2 \<longleftrightarrow> s1 = s2"
proof
  assume c: "strcmp s1 s2"
  then have "length s1 = length s2" using assms by (simp add: strcmp_alt strlen_eq split: if_splits)
  moreover with c assms have "\<forall>i<length s1. s1 ! i = s2 ! i" by (simp add: strcmp_alt strlen_eq)
  ultimately show "s1 = s2" by (simp add: nth_equalityI)
qed (simp add: strcmp_alt)

lemma strncmp_iff:
  "0 \<notin> set s1 \<Longrightarrow> 0 \<notin> set s2 \<Longrightarrow>
     strncmp s1 s2 n \<longleftrightarrow> n \<le> length s1 \<and> n \<le> length s2 \<and> take n s1 = take n s2"
proof (induction n arbitrary: s1 s2)
  case (Suc n)
  then show ?case
    by (cases s1; cases s2) (auto simp: deref_def)
qed simp

lemma str_concat_Some: "length s1 \<le> 1001 \<Longrightarrow> length s2 \<le> 1001 \<Longrightarrow> str_concat s1 s2 = Some (s1 @ s2)"
  by (simp add: str_concat_def strlen_eq)

lemma strdup_Some: "length s \<le> 1001 \<Longrightarrow> strdup s = Some s"
  by (simp add: strdup_def strlen_eq)

lemma str_concats_Some:
  assumes "ss \<noteq> []" "length (concat ss) \<le> 1001"
  shows "str_concats ss = Some (concat ss)"
proof -
  have "str_concats_loop (Some r) ts = Some (r @ concat ts)" if "length r + length (concat ts) \<le> 1001" for r ts
    using that by (induction ts arbitrary: r) (auto simp: str_concat_Some)
  moreover from assms obtain s ts where "ss = s # ts" by (cases ss) auto
  ultimately show ?thesis
    using assms(2) by (simp add: str_concats_def strdup_Some)
qed

text \<open>
  C34: \<open>strcmp\<close> (which returns true on equality) decides equality of strings of at most 1001
  bytes; because \<open>strlen\<close> gives up beyond that, any two longer strings compare equal.
\<close>
theorem strcmp_correct:
  "(length s1 \<le> 1001 \<or> length s2 \<le> 1001 \<longrightarrow> strcmp s1 s2 = (s1 = s2)) \<and>
   (1001 < length s1 \<and> 1001 < length s2 \<longrightarrow> strcmp s1 s2)"
  using strcmp_iff [of s1 s2] by (simp add: strcmp_alt [of s1 s2] strlen_eq)

theorem strcmp_correct_witness:
  "\<not> strcmp (str ''ls'') (str ''cd'') \<and> strcmp (replicate 1002 1) (replicate 1002 2)"
proof
  show "\<not> strcmp (str ''ls'') (str ''cd'')"
    using strcmp_correct [of "str ''ls''" "str ''cd''"] by (simp add: str_def)
  show "strcmp (replicate 1002 1) (replicate 1002 2)"
    by (rule strcmp_correct [THEN conjunct2, rule_format]) (simp only: length_replicate, simp)
qed

section \<open>Splitting\<close>

definition str_join :: "u8 \<Rightarrow> cstr list \<Rightarrow> cstr" where
  "str_join delim ts = concat (map (\<lambda>t. delim # t) ts)"

lemma str_split_tokens: "t \<in> set (str_split d s) \<Longrightarrow> t \<noteq> [] \<and> d \<notin> set t \<and> set t \<subseteq> set s"
proof (induction d s rule: str_split.induct)
  case (1 d p)
  define p1 where "p1 = dropWhile ((=) d) p"
  have sub: "set p1 \<subseteq> set p" by (auto simp: p1_def dest: set_dropWhileD)
  show ?case
  proof (cases "p1 = []")
    case True
    with 1(2) show ?thesis by (simp add: str_split.simps [of d p] p1_def)
  next
    case False
    then have hd: "hd p1 \<noteq> d" unfolding p1_def using hd_dropWhile by metis
    from 1(2) False consider "t = takeWhile ((\<noteq>) d) p1" | "t \<in> set (str_split d (dropWhile ((\<noteq>) d) p1))"
      by (auto simp: str_split.simps [of d p] Let_def simp flip: p1_def)
    then show ?thesis
    proof cases
      case 1
      with hd False sub show ?thesis by (cases p1) (auto dest: set_takeWhileD)
    next
      case 2
      with 1(1) [OF p1_def False] sub show ?thesis by (auto dest: set_dropWhileD)
    qed
  qed
qed

lemma str_split_delims: "str_split d (replicate k d @ s) = str_split d s"
proof -
  have "dropWhile ((=) d) (replicate k d @ s) = dropWhile ((=) d) s"
    by (induction k) auto
  then show ?thesis by (simp add: str_split.simps [of d "replicate k d @ s"] str_split.simps [of d s])
qed

lemma str_split_Cons_delim: "str_split d (d # s) = str_split d s"
  using str_split_delims [of d 1 s] by simp

lemma str_split_Nil [simp]: "str_split d [] = []"
  by (simp add: str_split.simps)

lemma str_split_token:
  assumes "t \<noteq> []" "d \<notin> set t" "s = [] \<or> hd s = d"
  shows "str_split d (t @ s) = t # str_split d s"
proof -
  have "dropWhile ((=) d) (t @ s) = t @ s" using assms(1,2) by (cases t) auto
  moreover have "takeWhile ((\<noteq>) d) (t @ s) = t" "dropWhile ((\<noteq>) d) (t @ s) = s"
    using assms(2,3) by (auto simp: takeWhile_append dropWhile_append takeWhile_eq_Nil_iff; cases s; auto)+
  ultimately show ?thesis
    using assms(1) by (simp add: str_split.simps [of d "t @ s"])
qed

lemma str_split_join:
  "\<forall>t\<in>set ts. t \<noteq> [] \<and> d \<notin> set t \<Longrightarrow> str_split d (str_join d ts) = ts"
proof (induction ts)
  case Nil
  then show ?case by (simp add: str_join_def)
next
  case (Cons t ts)
  have "str_join d ts = [] \<or> hd (str_join d ts) = d" by (cases ts) (auto simp: str_join_def)
  with Cons show ?case
    by (simp add: str_join_def str_split_Cons_delim str_split_token)
qed



section \<open>Decimal numbers\<close>

fun digs :: "nat \<Rightarrow> cstr" where
  "digs n = (if n = 0 then [] else digs (n div 10) @ [word_of_nat (n mod 10) + 48])"

declare digs.simps [simp del]

definition decimal :: "nat \<Rightarrow> cstr" where
  "decimal n = (if n = 0 then [48] else digs n)"

fun undecimal :: "cstr \<Rightarrow> nat" where
  "undecimal ds = foldl (\<lambda>v c. 10 * v + unat (c - 48)) 0 ds"

lemma digs_0 [simp]: "digs 0 = []"
  by (simp add: digs.simps)

lemma digs_rec: "0 < n \<Longrightarrow> digs n = digs (n div 10) @ [word_of_nat (n mod 10) + 48]"
  by (subst digs.simps) simp

lemma undecimal_digs: "undecimal (digs n) = n"
proof (induction n rule: less_induct)
  case (less n)
  have "unat (word_of_nat (n mod 10) :: u8) = n mod 10"
    by (rule unat_word_of_nat_less) (use mod_less_divisor [of 10 n] in simp)
  with less [of "n div 10"] show ?case
    by (cases "n = 0") (simp_all add: digs_rec)
qed

lemma length_digs: "0 < n \<Longrightarrow> length (digs n) = digit_count n"
proof (induction n rule: less_induct)
  case (less n)
  then show ?case
    by (cases "n div 10 = 0") (simp_all add: digs_rec digit_count.simps [of n])
qed

lemma digs_no_nul: "0 \<notin> set (digs n)"
proof (induction n rule: less_induct)
  case (less n)
  have "unat (word_of_nat (n mod 10) + 48 :: u8) = n mod 10 + 48"
    using mod_less_divisor [of 10 n] by (simp add: unat_word_ariths unat_of_nat)
  then have "(word_of_nat (n mod 10) + 48 :: u8) \<noteq> 0" by auto
  with less [of "n div 10"] show ?case
    by (cases "n = 0") (auto simp: digs_rec)
qed

lemma back_digits_digs: "length (digs n) \<le> room \<Longrightarrow> back_digits n room acc = digs n @ acc"
proof (induction n room acc rule: back_digits.induct)
  case (1 n room acc)
  show ?case
  proof (cases "n = 0")
    case True
    then show ?thesis by (simp add: back_digits.simps)
  next
    case False
    with 1(2) have room: "room > 0" "length (digs (n div 10)) \<le> room - 1" by (simp_all add: digs_rec)
    with False show ?thesis
      using 1(1) by (subst back_digits.simps) (simp add: digs_rec)
  qed
qed

lemma length_digs_le: "n < 10 ^ k \<Longrightarrow> length (digs n) \<le> k"
proof (induction k arbitrary: n)
  case (Suc k)
  then show ?case by (cases "n = 0") (simp_all add: digs_rec less_mult_imp_div_less mult.commute)
qed simp

text \<open>
  C36: \<open>num_to_str_no_malloc\<close> prints every 64-bit number in decimal when the buffer has at least 21
  bytes; reading the digits back gives the number.
\<close>
theorem num_to_str_no_malloc_correct:
  assumes "21 \<le> buffer_size"
  shows "num_to_str_no_malloc num buffer_size = Some (decimal (unat num)) \<and>
    undecimal (decimal (unat num)) = unat num"
proof -
  have "unat num < 10 ^ 20" by (rule less_trans [OF unat_less_64]) simp
  then have "length (digs (unat num)) \<le> buffer_size - 1"
    using length_digs_le [of "unat num" 20] assms by simp
  then show ?thesis
    using assms undecimal_digs [of "unat num"]
    by (auto simp: num_to_str_no_malloc_def decimal_def back_digits_digs unat_eq_zero)
qed

theorem num_to_str_no_malloc_correct_witness:
  "num_to_str_no_malloc 4096 100 = Some (decimal 4096) \<and> undecimal (decimal 4096) = 4096"
  using num_to_str_no_malloc_correct [of 100 4096] by simp

lemma long_of_double_int: "\<bar>n\<bar> < 2 ^ 63 \<Longrightarrow> long_of_double (real_of_int n) = Some n"
  by (auto simp: long_of_double_def trunc_def Let_def)

lemma frac_loop_int: "0 \<le> n \<Longrightarrow> n < 2 ^ 63 \<Longrightarrow> frac_loop k (real_of_int n) = (0, real_of_int n)"
  by (cases k) (simp_all add: long_of_double_int)

text \<open>Without a fraction the writing loop fills the block with the digits.\<close>

lemma write_digits_int:
  assumes "length gap = length (digs n)" "int (length (pre @ gap)) = dc - i" "0 \<le> i + neg"
  shows "write_digits dc 0 neg 0 0 n i (pre @ gap @ post) = pre @ digs n @ post"
  using assms
proof (induction n arbitrary: i gap post rule: less_induct)
  case (less n)
  show ?case
  proof (cases "n = 0")
    case True
    with less.prems show ?thesis by (simp add: write_digits.simps)
  next
    case False
    then have d: "digs n = digs (n div 10) @ [word_of_nat (n mod 10) + 48]" by (simp add: digs_rec)
    with less.prems(1) obtain g x where gap: "gap = g @ [x]" "length g = length (digs (n div 10))"
      by (metis append_butlast_last_id length_append_singleton length_butlast length_greater_0_conv
          diff_Suc_1 zero_less_Suc)
    from less.prems(2) gap have pos: "nat (dc - i - 1) = length (pre @ g)" by simp
    have upd: "(pre @ gap @ post)[nat (dc - i - 1) := word_of_nat (n mod 10) + 48] =
        pre @ g @ ((word_of_nat (n mod 10) + 48) # post)"
      unfolding pos gap by (simp add: list_update_append)
    have "write_digits dc 0 neg 0 0 (n div 10) (i + 1) (pre @ g @ ((word_of_nat (n mod 10) + 48) # post)) =
        pre @ digs (n div 10) @ (word_of_nat (n mod 10) + 48) # post"
      using False less.prems(2,3) gap by (intro less.IH) auto
    with False less.prems(3) show ?thesis
      by (subst write_digits.simps) (simp only: upd Let_def, simp add: d)
  qed
qed

lemma nonempty_digs: "0 < n \<Longrightarrow> digs n \<noteq> []"
  by (simp add: digs_rec)

lemma num_to_str_pos:
  assumes "0 < n" "n < 2 ^ 63"
  shows "num_to_str junk (real n) = Some (digs n)"
    and "num_to_str junk (- real n) = Some (45 # digs n)"
proof -
  have l: "long_of_double (real n) = Some (int n)" "frac_loop 6 (real n) = (0, real n)"
    using assms long_of_double_int [of "int n"] frac_loop_int [of "int n" 6] by simp_all
  have c: "digit_count n = length (digs n)" "0 < digit_count n"
    using assms length_digs [of n] nonempty_digs [of n] by (simp_all flip: length_greater_0_conv)
  have stop: "takeWhile (\<lambda>y. y \<noteq> 0) (xs @ [0]) = xs" if "0 \<notin> set xs" for xs :: cstr
    using that by (auto simp: takeWhile_append)
  have "(map junk [0..<Suc (length (digs n))])[length (digs n) := 0] = [] @ map junk [0..<length (digs n)] @ [0]"
    by (simp add: list_update_append)
  then have "write_digits (int (length (digs n))) 0 0 0 0 n 0
      ((map junk [0..<Suc (length (digs n))])[length (digs n) := 0]) = digs n @ [0]"
    using write_digits_int [of "map junk [0..<length (digs n)]" n "[]" "int (length (digs n))" 0 0 "[0]"]
    by simp
  with assms l c show "num_to_str junk (real n) = Some (digs n)"
    using digs_no_nul [of n]
    by (simp add: num_to_str_def abs_double_def Let_def nat_add_distrib stop del: upt_Suc)
  have b: "(map junk [0..<Suc (Suc (length (digs n)))])[Suc (length (digs n)) := 0, 0 := 45] =
      [45] @ map junk [1..<Suc (length (digs n))] @ [0]"
  proof -
    have "map junk [0..<Suc (Suc (length (digs n)))] =
        (junk 0 # map junk [1..<Suc (length (digs n))]) @ [junk (Suc (length (digs n)))]"
      using upt_conv_Cons [of 0 "Suc (length (digs n))"] upt_Suc [of 0 "Suc (length (digs n))"]
      by (simp del: upt_Suc)
    then show ?thesis
      using list_update_length [of "junk 0 # map junk [1..<Suc (length (digs n))]"
          "junk (Suc (length (digs n)))" "[]" 0] by (simp del: upt_Suc)
  qed
  have "write_digits (int (length (digs n))) 0 1 0 0 n (-1)
      ((map junk [0..<Suc (Suc (length (digs n)))])[Suc (length (digs n)) := 0, 0 := 45]) = [45] @ digs n @ [0]"
    unfolding b by (rule write_digits_int) (simp_all del: upt_Suc)
  with assms l c show "num_to_str junk (- real n) = Some (45 # digs n)"
    using digs_no_nul [of n] stop [of "45 # digs n"]
    by (simp add: num_to_str_def abs_double_def Let_def nat_add_distrib del: upt_Suc)
qed

text \<open>
  \<open>num_to_str\<close> prints every integer of fewer than 64 bits in decimal, with a sign if it is
  negative, whatever the freshly allocated result contained.
\<close>
theorem num_to_str_correct:
  assumes "\<bar>k\<bar> < 2 ^ 63"
  shows "num_to_str junk (real_of_int k) =
    Some ((if k < 0 then [45] else []) @ decimal (nat \<bar>k\<bar>))"
proof -
  consider "k = 0" | "0 < k" | "k < 0" by linarith
  then show ?thesis
  proof cases
    case 1
    then show ?thesis by (simp add: num_to_str_def decimal_def)
  next
    case 2
    then show ?thesis using num_to_str_pos(1) [of "nat k" junk] assms by (simp add: decimal_def)
  next
    case 3
    then show ?thesis using num_to_str_pos(2) [of "nat (- k)" junk] assms by (simp add: decimal_def)
  qed
qed

theorem num_to_str_correct_witness:
  "num_to_str (\<lambda>_. 7) (real_of_int (- 42)) = Some (45 # decimal 42)"
  using num_to_str_correct [of "- 42" "\<lambda>_. 7"] by simp

end
