(* ===== verification/Allocator.thy ===== *)
theory Allocator
  imports AddressSpace CString
begin

unbundle bit_operations_syntax

text \<open>
  The heap, \<open>src/src/memory/allocator.c\<close>: a first-fit allocator with an address-ordered free list
  and coalescing. A block header is a record at an address. Addresses of the kernel heap lie in
  the half that all address spaces share (\<open>kernel_blocks\<close>); the process heap and its
  \<open>allocator_data\<close> page lie at the same address in every address space, so they are indexed by
  \<open>cr3\<close>. The list walks are partial functions: \<open>None\<close> is a walk that never ends.
\<close>

section \<open>State\<close>

record block_t =
  block_size :: u64
  block_next :: u64

record allocator_data =
  free_list :: u64
  is_kernel :: bool
  heap_size :: u64

record allocator = vmm +
  process_data :: "u64 \<Rightarrow> allocator_data"
  kernel_data :: allocator_data
  process_blocks :: "u64 \<Rightarrow> u64 \<Rightarrow> block_t"
  kernel_blocks :: "u64 \<Rightarrow> block_t"
  kernel_heap_initialized :: bool

definition HEAP_START_KERNEL :: u64 where "HEAP_START_KERNEL = 0xffffc90000000000"
definition HEAP_START :: u64 where "HEAP_START = 0x0000555555554000"
definition HEAP_SIZE :: u64 where "HEAP_SIZE = 0x100000"
definition PAGE_SIZE :: u64 where "PAGE_SIZE = 4096"

text \<open>\<open>data\<close> and the header memory as the CPU sees them.\<close>

definition data :: "'a allocator_scheme \<Rightarrow> allocator_data" where
  "data s = process_data s (cr3 s)"

definition set_data :: "allocator_data \<Rightarrow> 'a allocator_scheme \<Rightarrow> 'a allocator_scheme" where
  "set_data d s = s\<lparr>process_data := (process_data s)(cr3 s := d)\<rparr>"

definition set_process_block :: "u64 \<Rightarrow> block_t \<Rightarrow> 'a allocator_scheme \<Rightarrow> 'a allocator_scheme" where
  "set_process_block p b s =
     s\<lparr>process_blocks := (process_blocks s)(cr3 s := (process_blocks s (cr3 s))(p := b))\<rparr>"

definition set_kernel_block :: "u64 \<Rightarrow> block_t \<Rightarrow> 'a allocator_scheme \<Rightarrow> 'a allocator_scheme" where
  "set_kernel_block p b s = s\<lparr>kernel_blocks := (kernel_blocks s)(p := b)\<rparr>"

section \<open>The free list\<close>

definition ALIGN_UP :: "u64 \<Rightarrow> u64" where
  "ALIGN_UP x = (x + 7) AND NOT 7"

text \<open>Links \<open>target\<close> behind \<open>prev\<close>, or at the head of the list if \<open>prev\<close> is null.\<close>

definition link_block ::
    "u64 \<Rightarrow> u64 \<Rightarrow> u64 \<times> (u64 \<Rightarrow> block_t) \<Rightarrow> u64 \<times> (u64 \<Rightarrow> block_t)" where
  "link_block prev target fh =
     (case fh of (fl, h) \<Rightarrow>
        if prev \<noteq> 0 then (fl, h(prev := (h prev)\<lparr>block_next := target\<rparr>)) else (target, h))"

partial_function (option) malloc_loop ::
    "u64 \<Rightarrow> u64 \<Rightarrow> u64 \<Rightarrow> u64 \<times> (u64 \<Rightarrow> block_t) \<Rightarrow> (u64 \<times> u64 \<times> (u64 \<Rightarrow> block_t)) option" where
  "malloc_loop sz prev cur fh =
     (if cur = 0 then Some (0, fh)
      else
        (let h = snd fh in
         if block_size (h cur) \<ge> sz then
           (if block_size (h cur) - sz \<ge> 16 + 8 then
              (let nxt = cur + sz;
                   h1 = h(nxt := \<lparr>block_size = block_size (h cur) - sz, block_next = block_next (h cur)\<rparr>);
                   (fl, h2) = link_block prev nxt (fst fh, h1)
               in Some (cur + 16, fl, h2(cur := (h2 cur)\<lparr>block_size := sz\<rparr>)))
            else Some (cur + 16, link_block prev (block_next (h cur)) fh))
         else malloc_loop sz cur (block_next (h cur)) fh))"

definition malloc_internal ::
    "u64 \<Rightarrow> u64 \<times> (u64 \<Rightarrow> block_t) \<Rightarrow> (u64 \<times> u64 \<times> (u64 \<Rightarrow> block_t)) option" where
  "malloc_internal sz fh =
     (if sz = 0 then Some (0, fh) else malloc_loop (ALIGN_UP (sz + 16)) 0 (fst fh) fh)"

text \<open>The search of \<open>free_internal\<close> for the neighbours of a block: \<open>(prev, cur)\<close>.\<close>

partial_function (option) free_search ::
    "u64 \<Rightarrow> u64 \<Rightarrow> u64 \<Rightarrow> (u64 \<Rightarrow> block_t) \<Rightarrow> (u64 \<times> u64) option" where
  "free_search blk prev cur h =
     (if cur \<noteq> 0 \<and> cur < blk then free_search blk cur (block_next (h cur)) h
      else Some (prev, cur))"

definition free_internal ::
    "u64 \<Rightarrow> u64 \<times> (u64 \<Rightarrow> block_t) \<Rightarrow> (u64 \<times> (u64 \<Rightarrow> block_t)) option" where
  "free_internal ptr fh =
     (if ptr = 0 then Some fh
      else
        (let blk = ptr - 16 in
         case free_search blk 0 (fst fh) (snd fh) of
           None \<Rightarrow> None
         | Some (prev, cur) \<Rightarrow>
             (let h1 = (snd fh)(blk := (snd fh blk)\<lparr>block_next := cur\<rparr>);
                  (fl, h2) = link_block prev blk (fst fh, h1);
                  nxt = block_next (h2 blk);
                  h3 = (if nxt \<noteq> 0 \<and> blk + block_size (h2 blk) = nxt
                        then h2(blk := \<lparr>block_size = block_size (h2 blk) + block_size (h2 nxt),
                                        block_next = block_next (h2 nxt)\<rparr>)
                        else h2);
                  h4 = (if prev \<noteq> 0 \<and> prev + block_size (h3 prev) = blk
                        then h3(prev := \<lparr>block_size = block_size (h3 prev) + block_size (h3 blk),
                                         block_next = block_next (h3 blk)\<rparr>)
                        else h3)
              in Some (fl, h4))))"

section \<open>Entry points\<close>

definition kernel_view :: "'a allocator_scheme \<Rightarrow> u64 \<times> (u64 \<Rightarrow> block_t)" where
  "kernel_view s = (free_list (kernel_data s), kernel_blocks s)"

definition put_kernel_view :: "u64 \<times> (u64 \<Rightarrow> block_t) \<Rightarrow> 'a allocator_scheme \<Rightarrow> 'a allocator_scheme" where
  "put_kernel_view fh s =
     s\<lparr>kernel_data := (kernel_data s)\<lparr>free_list := fst fh\<rparr>, kernel_blocks := snd fh\<rparr>"

definition process_view :: "'a allocator_scheme \<Rightarrow> u64 \<times> (u64 \<Rightarrow> block_t)" where
  "process_view s = (free_list (data s), process_blocks s (cr3 s))"

definition put_process_view :: "u64 \<times> (u64 \<Rightarrow> block_t) \<Rightarrow> 'a allocator_scheme \<Rightarrow> 'a allocator_scheme" where
  "put_process_view fh s =
     set_data ((data s)\<lparr>free_list := fst fh\<rparr>)
       (s\<lparr>process_blocks := (process_blocks s)(cr3 s := snd fh)\<rparr>)"

definition malloc_kernel :: "u64 \<Rightarrow> 'a allocator_scheme \<Rightarrow> (u64, 'a allocator_scheme) outcome option" where
  "malloc_kernel sz s =
     (if \<not> kernel_heap_initialized s
      then Some (panic (str ''Tried to malloc before kernel heap initialized'') s)
      else map_option (\<lambda>(p, fh). Ok p (put_kernel_view fh s)) (malloc_internal sz (kernel_view s)))"

definition malloc :: "u64 \<Rightarrow> 'a allocator_scheme \<Rightarrow> (u64, 'a allocator_scheme) outcome option" where
  "malloc sz s =
     (if \<not> kernel_heap_initialized s
      then Some (panic (str ''Tried to malloc before kernel heap initialized'') s)
      else if is_kernel (data s)
      then map_option (\<lambda>(p, fh). Ok p (put_kernel_view fh s)) (malloc_internal sz (kernel_view s))
      else map_option (\<lambda>(p, fh). Ok p (put_process_view fh s)) (malloc_internal sz (process_view s)))"

definition free_kernel :: "u64 \<Rightarrow> 'a allocator_scheme \<Rightarrow> (unit, 'a allocator_scheme) outcome option" where
  "free_kernel ptr s =
     (if \<not> kernel_heap_initialized s
      then Some (panic (str ''Tried to free before kernel heap initialized'') s)
      else map_option (\<lambda>fh. Ok () (put_kernel_view fh s)) (free_internal ptr (kernel_view s)))"

definition free :: "u64 \<Rightarrow> 'a allocator_scheme \<Rightarrow> (unit, 'a allocator_scheme) outcome option" where
  "free ptr s =
     (if \<not> kernel_heap_initialized s
      then Some (panic (str ''Tried to free before kernel heap initialized'') s)
      else if is_kernel (data s)
      then map_option (\<lambda>fh. Ok () (put_kernel_view fh s)) (free_internal ptr (kernel_view s))
      else map_option (\<lambda>fh. Ok () (put_process_view fh s)) (free_internal ptr (process_view s)))"

section \<open>Creating and destroying a heap\<close>

definition data_addr :: u64 where "data_addr = HEAP_START - PAGE_SIZE"
definition kernel_data_addr :: u64 where "kernel_data_addr = HEAP_START_KERNEL - PAGE_SIZE"

text \<open>The last part of \<open>allocator_heap_init\<close>: the headers of the new heap.\<close>

definition init_lists :: "u64 \<Rightarrow> bool \<Rightarrow> 'a allocator_scheme \<Rightarrow> 'a allocator_scheme" where
  "init_lists sz kern s =
     (if kern then
        set_kernel_block HEAP_START_KERNEL \<lparr>block_size = sz, block_next = 0\<rparr>
          ((set_data \<lparr>free_list = 0, is_kernel = True, heap_size = 0\<rparr> s)
             \<lparr>kernel_data := \<lparr>free_list = HEAP_START_KERNEL, is_kernel = True, heap_size = sz\<rparr>\<rparr>)
      else
        set_process_block HEAP_START \<lparr>block_size = sz, block_next = 0\<rparr>
          (set_data \<lparr>free_list = HEAP_START, is_kernel = False, heap_size = sz\<rparr> s))"

definition map_heap :: "u64 \<Rightarrow> bool \<Rightarrow> 'a allocator_scheme \<Rightarrow> bool \<times> 'a allocator_scheme" where
  "map_heap sz kern s =
     (let start = (if kern then HEAP_START_KERNEL else HEAP_START) in
      case vmm_alloc start (start + sz - 1) (if kern then VMM_FLAGS_KERNEL_RW else VMM_FLAGS_USER_RW) s of
        (False, s1) \<Rightarrow>
          (let s2 = snd (vmm_unmap_page data_addr s1);
               s3 = (if kern then snd (vmm_unmap_page kernel_data_addr s2) else s2)
           in (False, con_line ''[allocator] failed to map heap pages'' s3))
      | (True, s1) \<Rightarrow>
          (let s2 = init_lists sz kern (con_line ''[allocator] mapped heap pages'' s1) in
           (True, con_line ''[allocator] allocator heap init'' (s2\<lparr>kernel_heap_initialized := True\<rparr>))))"

definition allocator_heap_init ::
    "u64 \<Rightarrow> bool \<Rightarrow> 'a allocator_scheme \<Rightarrow> (bool, 'a allocator_scheme) outcome" where
  "allocator_heap_init sz kern s =
     (if \<not> kernel_heap_initialized s \<and> \<not> kern
      then panic (str ''Tried to init a non kernel heap before kernel heap initialized'') s
      else if kernel_heap_initialized s \<and> kern
      then panic (str ''Tried to re-init kernel heap'') s
      else
        (case vmm_alloc data_addr (data_addr + PAGE_SIZE - 1) VMM_FLAGS_KERNEL_RW s of
           (False, s1) \<Rightarrow> Ok False (con_line ''[allocator] failed to map allocator data page'' s1)
         | (True, s1) \<Rightarrow>
             (let s2 = con_line ''[allocator] mapped allocator data page'' s1 in
              if kern then
                (case vmm_alloc kernel_data_addr (kernel_data_addr + PAGE_SIZE - 1) VMM_FLAGS_KERNEL_RW s2 of
                   (False, s3) \<Rightarrow>
                     Ok False (con_line ''[allocator] failed to map kernel allocator data page'' s3)
                 | (True, s3) \<Rightarrow>
                     (case map_heap sz kern
                             (con_line ''[allocator] mapped kernel allocator data page'' s3) of
                        (ok, s4) \<Rightarrow> Ok ok s4))
              else (case map_heap sz kern s2 of (ok, s4) \<Rightarrow> Ok ok s4))))"

definition allocator_unmap_heap :: "'a allocator_scheme \<Rightarrow> (unit, 'a allocator_scheme) outcome" where
  "allocator_unmap_heap s =
     (if \<not> kernel_heap_initialized s
      then panic (str ''Tried to unmap heap before kernel heap initialized'') s
      else if is_kernel (data s) then panic (str ''Tried to unmap kernel heap'') s
      else Ok () (vmm_free data_addr (HEAP_START + heap_size (data s) - 1) s))"

text \<open>\<open>allocator_print_status\<close>: one line per free block, its size.\<close>

partial_function (option) print_blocks ::
    "u64 \<Rightarrow> (u64 \<Rightarrow> block_t) \<Rightarrow> 'a console_scheme \<Rightarrow> 'a console_scheme option" where
  "print_blocks cur h s =
     (if cur = 0 then Some s
      else print_blocks (block_next (h cur)) h
             (con_line '''' (con_print (the (num_to_str_no_malloc (block_size (h cur)) 100))
               (con_print (str ''  '') s))))"

definition allocator_print_status ::
    "'a allocator_scheme \<Rightarrow> (unit, 'a allocator_scheme) outcome option" where
  "allocator_print_status s =
     (if \<not> kernel_heap_initialized s
      then Some (panic (str ''Tried to print status before kernel heap initialized'') s)
      else
        (case (if is_kernel (data s) then kernel_view s else process_view s) of (cur, h) \<Rightarrow>
           map_option (\<lambda>s. Ok () (con_line ''}'' s))
             (print_blocks cur h (con_line ''Memory Blocks {'' s))))"

end
