(* ===== verification/Heap.thy ===== *)
theory Heap
  imports Allocator
begin

unbundle bit_operations_syntax

text \<open>
  Correctness of the heap of \<open>src/src/memory/allocator.c\<close>. The free list of headers is abstracted
  to the list of its blocks \<open>(address, size)\<close>; \<open>malloc_list\<close> and \<open>give_back\<close> are the specification
  on that list (first fit with splitting, ordered insertion with coalescing), and the pointer code
  refines them. The heap invariant says that the free blocks and the blocks handed out partition
  the heap.
\<close>

lemma unat_inject: "unat (a :: u64) = unat b \<Longrightarrow> a = b"
  by (simp add: word_eq_iff_unsigned [where 'a = nat])

section \<open>Specification on lists of blocks\<close>

type_synonym blk = "nat \<times> nat"

fun malloc_list :: "nat \<Rightarrow> blk list \<Rightarrow> (blk \<times> blk list) option" where
  "malloc_list need [] = None"
| "malloc_list need ((p, n) # bs) =
     (if need \<le> n then
        (if 24 \<le> n - need then Some ((p, need), (p + need, n - need) # bs) else Some ((p, n), bs))
      else (case malloc_list need bs of None \<Rightarrow> None | Some (b, bs') \<Rightarrow> Some (b, (p, n) # bs')))"

fun join :: "blk \<Rightarrow> blk list \<Rightarrow> blk list" where
  "join b [] = [b]"
| "join (p, n) ((q, m) # bs) = (if p + n = q then (p, n + m) # bs else (p, n) # (q, m) # bs)"

definition give_back :: "blk \<Rightarrow> blk list \<Rightarrow> blk list" where
  "give_back b bs =
     (let xs = takeWhile (\<lambda>c. fst c < fst b) bs; zs = join b (dropWhile (\<lambda>c. fst c < fst b) bs) in
      if xs = [] then zs else butlast xs @ join (last xs) zs)"

section \<open>Blocks in memory\<close>

fun lseg :: "(u64 \<Rightarrow> block_t) \<Rightarrow> u64 \<Rightarrow> u64 \<Rightarrow> blk list \<Rightarrow> bool" where
  "lseg h a b [] \<longleftrightarrow> a = b"
| "lseg h a b ((p, n) # bs) \<longleftrightarrow>
     unat a = p \<and> a \<noteq> 0 \<and> unat (block_size (h a)) = n \<and> lseg h (block_next (h a)) b bs"

lemma lseg_append: "lseg h a b (xs @ ys) \<longleftrightarrow> (\<exists>c. lseg h a c xs \<and> lseg h c b ys)"
  by (induction h a b xs rule: lseg.induct) auto

lemma lseg_cong:
  "(\<And>c. unat c \<in> fst ` set bs \<Longrightarrow> h' c = h c) \<Longrightarrow> lseg h' a b bs = lseg h a b bs"
  by (induction h a b bs rule: lseg.induct) auto

lemma lseg_fun_upd [simp]:
  "unat q \<notin> fst ` set bs \<Longrightarrow> lseg (h(q := v)) a b bs = lseg h a b bs"
  by (rule lseg_cong) auto

lemma lseg_nonempty: "lseg h a b bs \<Longrightarrow> bs \<noteq> [] \<Longrightarrow> unat a = fst (hd bs) \<and> a \<noteq> 0"
  by (cases bs) auto

lemma lseg_last:
  "lseg h a b (xs @ [(p, n)]) \<Longrightarrow>
     \<exists>q. unat q = p \<and> q \<noteq> 0 \<and> unat (block_size (h q)) = n \<and> block_next (h q) = b \<and> lseg h a q xs"
  by (auto simp: lseg_append)

definition block_ok :: "nat \<Rightarrow> nat \<Rightarrow> blk \<Rightarrow> bool" where
  "block_ok lo hi b \<longleftrightarrow> lo \<le> fst b \<and> fst b + snd b \<le> hi \<and> 24 \<le> snd b \<and> 8 dvd fst b \<and> 8 dvd snd b"

definition apart :: "blk \<Rightarrow> blk \<Rightarrow> bool" where
  "apart b c \<longleftrightarrow> fst b + snd b < fst c"

definition free_ok :: "nat \<Rightarrow> nat \<Rightarrow> blk list \<Rightarrow> bool" where
  "free_ok lo hi bs \<longleftrightarrow> sorted_wrt apart bs \<and> list_all (block_ok lo hi) bs"

definition bytes :: "blk \<Rightarrow> nat set" where
  "bytes b = {fst b..<fst b + snd b}"

definition disjoint_blocks :: "blk set \<Rightarrow> bool" where
  "disjoint_blocks S \<longleftrightarrow> pairwise (\<lambda>b c. bytes b \<inter> bytes c = {}) S"

text \<open>
  The heap invariant for the heap between \<open>lo\<close> and \<open>hi\<close>: the free list in memory is \<open>bs\<close>, sorted,
  fully coalesced; \<open>A\<close> are the blocks handed out, whose headers hold their sizes; free and
  allocated blocks partition the heap.
\<close>

definition heap_inv :: "nat \<Rightarrow> nat \<Rightarrow> u64 \<times> (u64 \<Rightarrow> block_t) \<Rightarrow> blk list \<Rightarrow> blk set \<Rightarrow> bool" where
  "heap_inv lo hi fh bs A \<longleftrightarrow> 0 < lo \<and> hi < 2 ^ 64 \<and>
     lseg (snd fh) (fst fh) 0 bs \<and> free_ok lo hi bs \<and>
     (\<forall>b\<in>A. block_ok lo hi b \<and> block_size (snd fh (word_of_nat (fst b))) = word_of_nat (snd b)) \<and>
     A \<inter> set bs = {} \<and> disjoint_blocks (set bs \<union> A) \<and>
     \<Union> (bytes ` (set bs \<union> A)) = {lo..<hi}"

section \<open>First fit\<close>

lemma malloc_list_split:
  "malloc_list need bs = Some (b, bs') \<Longrightarrow>
     \<exists>xs p n ys. bs = xs @ (p, n) # ys \<and> (\<forall>c\<in>set xs. snd c < need) \<and> need \<le> n \<and>
       (if 24 \<le> n - need then b = (p, need) \<and> bs' = xs @ (p + need, n - need) # ys
        else b = (p, n) \<and> bs' = xs @ ys)"
proof (induction need bs arbitrary: bs' rule: malloc_list.induct)
  case (1 need)
  then show ?case by simp
next
  case (2 need p n bs)
  show ?case
  proof (cases "need \<le> n")
    case True
    with 2(2) show ?thesis by (intro exI [of _ "[]"] exI [of _ p] exI [of _ n] exI [of _ bs]) (auto split: if_splits)
  next
    case False
    with 2(2) obtain bs1 where r: "malloc_list need bs = Some (b, bs1)" "bs' = (p, n) # bs1"
      by (auto split: option.splits)
    from 2(1) [OF False r(1)] obtain xs q m ys where
      "bs = xs @ (q, m) # ys" "\<forall>c\<in>set xs. snd c < need" "need \<le> m"
      "if 24 \<le> m - need then b = (q, need) \<and> bs1 = xs @ (q + need, m - need) # ys
        else b = (q, m) \<and> bs1 = xs @ ys" by blast
    with False r(2) show ?thesis
      by (intro exI [of _ "(p, n) # xs"] exI [of _ q] exI [of _ m] exI [of _ ys]) (auto split: if_splits)
  qed
qed

lemma malloc_list_None: "malloc_list need bs = None \<longleftrightarrow> (\<forall>b\<in>set bs. snd b < need)"
  by (induction need bs rule: malloc_list.induct) (auto split: option.splits if_splits)

lemma free_ok_Cons:
  "free_ok lo hi (b # bs) \<longleftrightarrow> block_ok lo hi b \<and> list_all (apart b) bs \<and> free_ok lo hi bs"
  by (auto simp: free_ok_def list_all_iff)

lemma free_ok_append:
  "free_ok lo hi (xs @ ys) \<longleftrightarrow> free_ok lo hi xs \<and> free_ok lo hi ys \<and> (\<forall>b\<in>set xs. list_all (apart b) ys)"
  by (auto simp: free_ok_def sorted_wrt_append list_all_iff)

text \<open>The address of the free block before a position, 0 for the head.\<close>

definition before :: "u64 \<Rightarrow> blk list \<Rightarrow> bool" where
  "before prev xs \<longleftrightarrow> (if xs = [] then prev = 0 else prev \<noteq> 0 \<and> unat prev = fst (last xs))"

lemma free_ok_distinct:
  assumes "free_ok lo hi (xs @ (p, n) # ys)"
  shows "p \<notin> fst ` set xs" "p \<notin> fst ` set ys" "fst ` set xs \<inter> fst ` set ys = {}"
proof -
  have a: "\<And>b. b \<in> set xs \<Longrightarrow> apart b (p, n)" "\<And>c. c \<in> set ys \<Longrightarrow> apart (p, n) c"
    using assms by (auto simp: free_ok_append free_ok_Cons list_all_iff)
  from a show "p \<notin> fst ` set xs" "p \<notin> fst ` set ys" by (force simp: apart_def)+
  from a show "fst ` set xs \<inter> fst ` set ys = {}" by (force simp: apart_def)
qed

lemma lseg_relink:
  assumes "lseg h a b xs" "before prev xs" "sorted_wrt apart xs"
    and "link_block prev target (a, h) = (a', h')"
  shows "lseg h' a' target xs \<and> (\<forall>c. unat c \<notin> fst ` set xs \<longrightarrow> h' c = h c) \<and>
    (\<forall>c. block_size (h' c) = block_size (h c))"
proof (cases xs rule: rev_cases)
  case Nil
  with assms show ?thesis by (simp add: before_def link_block_def)
next
  case (snoc ys y)
  obtain p n where y: "y = (p, n)" by force
  from assms(1) snoc y obtain q where q: "unat q = p" "q \<noteq> 0" "unat (block_size (h q)) = n"
    "lseg h a q ys" using lseg_last by blast
  from assms(2) snoc y q have prev: "prev = q" "prev \<noteq> 0" by (auto simp: before_def dest: unat_inject)
  from assms(3) snoc y have "p \<notin> fst ` set ys" by (force simp: sorted_wrt_append apart_def)
  with q prev assms(4) snoc y show ?thesis
    by (auto simp: link_block_def lseg_append)
qed

lemma unat_add_less: "unat (a :: u64) + unat b < 2 ^ 64 \<Longrightarrow> unat (a + b) = unat a + unat b"
  using unat_add_lem [of a b] by simp

text \<open>The search loop refines \<open>malloc_list\<close>.\<close>

lemma malloc_loop_refines:
  assumes "lseg h fl cur xs" "lseg h cur 0 ys" "before prev xs" "free_ok lo hi (xs @ ys)"
    "hi < 2 ^ 64" "0 < unat sz"
  shows "\<exists>r fl' h'. malloc_loop sz prev cur (fl, h) = Some (r, fl', h') \<and>
    (case malloc_list (unat sz) ys of
       None \<Rightarrow> r = 0 \<and> fl' = fl \<and> h' = h
     | Some ((p, g), ys') \<Rightarrow> unat r = p + 16 \<and> lseg h' fl' 0 (xs @ ys') \<and>
         (\<forall>c. unat c \<notin> fst ` set (xs @ ys @ ys') \<longrightarrow> h' c = h c) \<and>
         unat (block_size (h' (word_of_nat p))) = g)"
  using assms
proof (induction ys arbitrary: xs prev cur)
  case Nil
  then show ?case by (subst malloc_loop.simps) simp
next
  case (Cons y ys)
  obtain p n where y: "y = (p, n)" by force
  from Cons.prems(2) y have cur: "unat cur = p" "cur \<noteq> 0" "unat (block_size (h cur)) = n"
    "lseg h (block_next (h cur)) 0 ys" by auto
  then have pcur: "word_of_nat p = cur" by (metis word_nat_cases unsigned_of_nat word_unat_eq_iff of_nat_inverse unsigned_less)
  from Cons.prems(4) y have ok: "free_ok lo hi (xs @ (p, n) # ys)" by simp
  note distinct = free_ok_distinct [OF ok]
  from ok Cons.prems(5) have lim: "p + n < 2 ^ 64" "24 \<le> n"
    by (auto simp: free_ok_append free_ok_Cons block_ok_def)
  have sorted: "sorted_wrt apart xs" using ok by (simp add: free_ok_def sorted_wrt_append)
  show ?case
  proof (cases "unat sz \<le> n")
    case False
    then have "\<not> sz \<le> block_size (h cur)" by (simp add: word_le_nat_alt cur)
    then have "malloc_loop sz prev cur (fl, h) = malloc_loop sz cur (block_next (h cur)) (fl, h)"
      using cur by (subst malloc_loop.simps) (simp add: Let_def)
    moreover have "lseg h fl (block_next (h cur)) (xs @ [(p, n)])" "before cur (xs @ [(p, n)])"
      using Cons.prems(1) cur by (auto simp: lseg_append before_def)
    ultimately show ?thesis
      using Cons.IH [of "block_next (h cur)" "xs @ [(p, n)]" cur] cur(4) ok Cons.prems(5,6) False y
      by (auto split: option.splits prod.splits)
  next
    case True
    then have le: "sz \<le> block_size (h cur)" by (simp add: word_le_nat_alt cur)
    then have diff: "unat (block_size (h cur) - sz) = n - unat sz" by (simp add: unat_sub cur)
    then have fits: "24 \<le> block_size (h cur) - sz \<longleftrightarrow> 24 \<le> n - unat sz" by (simp add: word_le_nat_alt)
    have r: "unat (cur + 16) = p + 16" using lim by (simp add: unat_add_less cur)
    show ?thesis
    proof (cases "24 \<le> n - unat sz")
      case False
      obtain fl' h' where l: "link_block prev (block_next (h cur)) (fl, h) = (fl', h')" by force
      from lseg_relink [OF Cons.prems(1,3) sorted l] have rl: "lseg h' fl' (block_next (h cur)) xs"
        "\<And>c. unat c \<notin> fst ` set xs \<Longrightarrow> h' c = h c" "\<And>c. block_size (h' c) = block_size (h c)" by auto
      have "lseg h' (block_next (h cur)) 0 ys"
        using cur(4) distinct(3) by (subst lseg_cong [of _ h' h]) (auto intro!: rl(2))
      moreover have "malloc_loop sz prev cur (fl, h) = Some (cur + 16, fl', h')"
        using le fits False cur l by (subst malloc_loop.simps) (simp add: Let_def)
      ultimately show ?thesis
        using True False y r rl cur pcur by (auto simp: lseg_append)
    next
      case split: True
      define nxt where "nxt = cur + sz"
      have nxt: "unat nxt = p + unat sz" using lim True by (simp add: nxt_def unat_add_less cur)
      have neq: "unat nxt \<noteq> p" "unat nxt \<notin> fst ` set xs" "unat nxt \<notin> fst ` set ys"
        using Cons.prems(6) nxt True ok by (force simp: free_ok_append free_ok_Cons list_all_iff apart_def)+
      define h1 where "h1 = h(nxt := \<lparr>block_size = block_size (h cur) - sz, block_next = block_next (h cur)\<rparr>)"
      obtain fl' h2 where l: "link_block prev nxt (fl, h1) = (fl', h2)" by force
      have "lseg h1 fl cur xs" using Cons.prems(1) neq by (simp add: h1_def)
      from lseg_relink [OF this Cons.prems(3) sorted l] have rl: "lseg h2 fl' nxt xs"
        "\<And>c. unat c \<notin> fst ` set xs \<Longrightarrow> h2 c = h1 c" by auto
      have "h2 c = h c" if "unat c \<in> fst ` set ys" for c
      proof -
        from that distinct(3) neq(3) have "unat c \<notin> fst ` set xs" "c \<noteq> nxt" by blast+
        then show ?thesis by (simp add: rl(2) h1_def)
      qed
      then have "lseg h2 (block_next (h cur)) 0 ys"
        using cur(4) by (subst lseg_cong [of _ h2 h]) auto
      then have "lseg h2 nxt 0 ((p + unat sz, n - unat sz) # ys)"
        using rl(2) [OF neq(2)] nxt neq cur(2) diff lim by (auto simp: h1_def)
      with rl(1) have seg: "lseg h2 fl' 0 (xs @ (p + unat sz, n - unat sz) # ys)"
        by (auto simp: lseg_append)
      define h' where "h' = h2(cur := (h2 cur)\<lparr>block_size := sz\<rparr>)"
      have "lseg h' fl' 0 (xs @ (p + unat sz, n - unat sz) # ys)"
        unfolding h'_def using seg distinct neq nxt cur(1) by (subst lseg_fun_upd) auto
      moreover have "malloc_loop sz prev cur (fl, h) = Some (cur + 16, fl', h')"
        using le fits split cur l by (subst malloc_loop.simps) (simp add: Let_def h'_def nxt_def h1_def)
      moreover have "h' c = h c" if "unat c \<notin> fst ` set (xs @ y # (p + unat sz, n - unat sz) # ys)" for c
      proof -
        from that y cur nxt have "c \<noteq> cur" "c \<noteq> nxt" "unat c \<notin> fst ` set xs" by auto
        then show ?thesis by (simp add: h'_def rl(2) h1_def)
      qed
      ultimately show ?thesis
        using True split y r pcur by (auto simp: h'_def image_Un)
    qed
  qed
qed

section \<open>The invariant under allocation\<close>

lemma ALIGN_UP_unat:
  assumes "unat x + 7 < 2 ^ 64"
  shows "unat (ALIGN_UP x) = (unat x + 7) div 8 * 8"
proof -
  have seven: "(7 :: u64) = mask 3" by (simp add: mask_eq_exp_minus_1)
  have "(x + 7) AND NOT 7 = push_bit 3 (drop_bit 3 (x + 7))"
    unfolding seven by (rule bit_word_eqI) (auto simp: bit_simps)
  moreover have "unat (x + 7) = unat x + 7" using assms by (simp add: unat_add_less)
  moreover have "unat (push_bit 3 (drop_bit 3 y)) = unat y div 8 * 8" for y :: u64
  proof -
    have "unat (drop_bit 3 y) = unat y div 8" by (simp add: drop_bit_eq_div unat_div)
    moreover have "unat y div 8 < 2 ^ 61"
      by (rule less_mult_imp_div_less) simp
    ultimately show ?thesis by (simp add: push_bit_eq_mult unat_word_ariths)
  qed
  ultimately show ?thesis by (simp add: ALIGN_UP_def)
qed

lemma disjoint_blocks_insert:
  "disjoint_blocks (insert b S) \<longleftrightarrow> disjoint_blocks S \<and> (\<forall>c\<in>S. c \<noteq> b \<longrightarrow> bytes b \<inter> bytes c = {})"
  by (auto simp: disjoint_blocks_def pairwise_insert)

lemma bytes_split: "k \<le> n \<Longrightarrow> bytes (p, n) = bytes (p, k) \<union> bytes (p + k, n - k)"
  by (auto simp: bytes_def)

lemma bytes_split_disjoint: "bytes (p, k) \<inter> bytes (p + k, m) = {}"
  by (auto simp: bytes_def)

lemma start_in_bytes: "block_ok lo hi b \<Longrightarrow> fst b \<in> bytes b"
  by (auto simp: block_ok_def bytes_def)

lemma free_ok_blocks: "free_ok lo hi bs \<Longrightarrow> b \<in> set bs \<Longrightarrow> block_ok lo hi b"
  by (auto simp: free_ok_def list_all_iff)

lemma free_ok_set:
  "free_ok lo hi (xs @ b # ys) \<Longrightarrow> b \<notin> set xs \<and> b \<notin> set ys"
  by (cases b) (metis free_ok_distinct(1,2) fst_conv image_eqI)

text \<open>What \<open>malloc_list\<close> does to the blocks: the chosen block is handed out, or cut in two.\<close>

lemma malloc_list_blocks:
  assumes "malloc_list need bs = Some (b, bs')" "free_ok lo hi bs" "24 \<le> need" "8 dvd need"
    and "disjoint_blocks (set bs \<union> A)" "A \<inter> set bs = {}"
  shows "block_ok lo hi b \<and> free_ok lo hi bs' \<and> disjoint_blocks (set bs' \<union> insert b A) \<and>
    \<Union> (bytes ` (set bs' \<union> insert b A)) = \<Union> (bytes ` (set bs \<union> A)) \<and> b \<notin> set bs' \<and> A \<inter> set bs' = {} \<and>
    (\<exists>c\<in>set bs. fst b = fst c \<and> snd b \<le> snd c) \<and> need \<le> snd b \<and> snd b < need + 24"
proof -
  from malloc_list_split [OF assms(1)] obtain xs p n ys where s: "bs = xs @ (p, n) # ys" "need \<le> n"
    "if 24 \<le> n - need then b = (p, need) \<and> bs' = xs @ (p + need, n - need) # ys
     else b = (p, n) \<and> bs' = xs @ ys" by blast
  from assms(2) s have pn: "block_ok lo hi (p, n)" by (simp add: free_ok_append free_ok_Cons)
  have notin: "(p, n) \<notin> set xs \<union> set ys" using free_ok_set assms(2) s(1) by blast
  define R where "R = set xs \<union> set ys \<union> A"
  have bsA: "set bs \<union> A = insert (p, n) R" by (auto simp: R_def s(1))
  have pnR: "(p, n) \<notin> R" using notin assms(6) s(1) by (auto simp: R_def)
  from assms(5) have R: "disjoint_blocks R" "\<And>c. c \<in> R \<Longrightarrow> bytes (p, n) \<inter> bytes c = {}"
    unfolding bsA using pnR by (auto simp: disjoint_blocks_insert)
  show ?thesis
  proof (cases "24 \<le> n - need")
    case False
    with s have b: "b = (p, n)" "bs' = xs @ ys" "n < need + 24" by auto
    have "set bs' \<union> insert b A = insert (p, n) R" by (auto simp: R_def b)
    with assms(5) bsA have "disjoint_blocks (set bs' \<union> insert b A)"
      "\<Union> (bytes ` (set bs' \<union> insert b A)) = \<Union> (bytes ` (set bs \<union> A))" by simp_all
    moreover have "free_ok lo hi bs'" "\<exists>c\<in>set bs. fst b = fst c \<and> snd b \<le> snd c" "b \<notin> set bs'"
      "A \<inter> set bs' = {}"
      using assms(2,6) s(1) notin by (auto simp: b free_ok_append free_ok_Cons)
    ultimately show ?thesis using pn s(2) b by simp
  next
    case True
    with s have b: "b = (p, need)" "bs' = xs @ (p + need, n - need) # ys" by auto
    have set': "set bs' \<union> insert b A = insert (p, need) (insert (p + need, n - need) R)"
      by (auto simp: R_def b)
    have split: "bytes (p, n) = bytes (p, need) \<union> bytes (p + need, n - need)"
      by (rule bytes_split) (rule s(2))
    have "disjoint_blocks (set bs' \<union> insert b A)"
      unfolding set' disjoint_blocks_insert
      using R split bytes_split_disjoint [of p need "n - need"] by auto
    moreover have "\<Union> (bytes ` (set bs' \<union> insert b A)) = \<Union> (bytes ` (set bs \<union> A))"
      unfolding set' bsA using split by auto
    moreover have "free_ok lo hi bs'" "block_ok lo hi b"
      using assms(2-4) pn s(1,2) b True
      by (auto simp: free_ok_append free_ok_Cons block_ok_def apart_def list_all_iff dvd_diff_nat)
    moreover have "b \<notin> set bs'"
    proof -
      have "fst b \<notin> fst ` set bs'"
        using free_ok_distinct [OF assms(2) [unfolded s(1)]] assms(3) by (auto simp: b)
      then show ?thesis by force
    qed
    moreover have "\<exists>c\<in>set bs. fst b = fst c \<and> snd b \<le> snd c" using b s(1,2) by auto
    moreover have "A \<inter> set bs' = {}"
    proof -
      have "p + need \<in> bytes (p + need, n - need)" using True by (simp add: bytes_def)
      then have "(p + need, n - need) \<notin> A" using R(2) [of "(p + need, n - need)"] split by (auto simp: R_def)
      then show ?thesis using assms(6) s(1) b by auto
    qed
    ultimately show ?thesis using b by simp
  qed
qed

text \<open>The addresses of blocks with disjoint bytes differ.\<close>

lemma disjoint_starts:
  assumes "disjoint_blocks S" "\<And>d. d \<in> S \<Longrightarrow> block_ok lo hi d" "b \<in> S" "c \<in> S" "b \<noteq> c"
  shows "fst b \<noteq> fst c"
proof
  assume "fst b = fst c"
  with start_in_bytes assms(2-4) have "fst b \<in> bytes b \<inter> bytes c" by fastforce
  with assms show False by (auto simp: disjoint_blocks_def pairwise_def)
qed

lemma heap_inv_blocks: "heap_inv lo hi fh bs A \<Longrightarrow> b \<in> set bs \<union> A \<Longrightarrow> block_ok lo hi b"
  by (auto simp: heap_inv_def free_ok_def list_all_iff)

definition need_of :: "nat \<Rightarrow> nat" where
  "need_of n = (n + 16 + 7) div 8 * 8"

lemma need_of_bounds: "n + 16 \<le> need_of n" "need_of n < n + 24" "8 dvd need_of n"
  unfolding need_of_def by linarith+ simp

lemma heap_inv_malloc:
  assumes inv: "heap_inv lo hi fh bs A" and sz: "0 < unat sz" "unat sz + 23 < 2 ^ 64"
  obtains r fh' where "malloc_internal sz fh = Some (r, fh')"
    "malloc_list (need_of (unat sz)) bs = None \<Longrightarrow> r = 0 \<and> fh' = fh"
    "\<And>b bs'. malloc_list (need_of (unat sz)) bs = Some (b, bs') \<Longrightarrow>
       unat r = fst b + 16 \<and> heap_inv lo hi fh' bs' (insert b A) \<and> b \<notin> A"
proof -
  obtain fl h where fh: "fh = (fl, h)" by force
  from sz(2) have "unat (sz + 16) = unat sz + 16" by (simp add: unat_add_less)
  then have need: "unat (ALIGN_UP (sz + 16)) = need_of (unat sz)"
    using sz(2) by (simp add: ALIGN_UP_unat need_of_def)
  have ok: "free_ok lo hi bs" "lseg h fl 0 bs" "hi < 2 ^ 64" "disjoint_blocks (set bs \<union> A)" "A \<inter> set bs = {}"
    using inv by (simp_all add: heap_inv_def fh)
  have "0 < unat (ALIGN_UP (sz + 16))" using need need_of_bounds(1) [of "unat sz"] by simp
  with malloc_loop_refines [of h fl fl "[]" bs 0 lo hi "ALIGN_UP (sz + 16)", unfolded append_Nil need] ok
  obtain r fl' h' where r: "malloc_loop (ALIGN_UP (sz + 16)) 0 fl (fl, h) = Some (r, fl', h')"
    "case malloc_list (need_of (unat sz)) bs of
       None \<Rightarrow> r = 0 \<and> fl' = fl \<and> h' = h
     | Some ((p, g), ys') \<Rightarrow> unat r = p + 16 \<and> lseg h' fl' 0 ys' \<and>
         (\<forall>c. unat c \<notin> fst ` set (bs @ ys') \<longrightarrow> h' c = h c) \<and>
         unat (block_size (h' (word_of_nat p))) = g"
    by (auto simp: before_def need)
  have step: "malloc_internal sz fh = Some (r, fl', h')"
    using r(1) sz(1) by (auto simp: malloc_internal_def fh)
  show thesis
  proof (rule that [OF step])
    show "malloc_list (need_of (unat sz)) bs = None \<Longrightarrow> r = 0 \<and> (fl', h') = fh"
      using r(2) by (simp add: fh)
    fix b bs' assume m: "malloc_list (need_of (unat sz)) bs = Some (b, bs')"
    have need24: "24 \<le> need_of (unat sz)"
      using sz(1) by (simp add: need_of_def)
    note mb = malloc_list_blocks [OF m ok(1) need24 need_of_bounds(3) ok(4,5)]
    have starts: "fst d \<noteq> fst e" if "d \<in> A" "e \<in> set bs" for d e
      using that ok(5) by (intro disjoint_starts [OF ok(4) heap_inv_blocks [OF inv]]) auto
    have bA: "b \<notin> A"
      using mb starts by metis
    have "block_ok lo hi d" if "d \<in> set bs' \<union> insert b A" for d
      using that mb heap_inv_blocks [OF inv, of d] free_ok_blocks [of lo hi bs' d] by auto
    then have starts': "fst d \<noteq> fst e" if "d \<in> A" "e \<in> set bs'" for d e
      using that mb by (intro disjoint_starts [of "set bs' \<union> insert b A" lo hi]) auto
    have other: "h' (word_of_nat (fst d)) = h (word_of_nat (fst d))" if "d \<in> A" for d
    proof -
      have "fst d < 2 ^ 64" using heap_inv_blocks [OF inv, of d] that ok(3) by (auto simp: block_ok_def)
      then have u: "unat (word_of_nat (fst d) :: u64) = fst d" by (simp add: unat_word_of_nat_less)
      have "unat (word_of_nat (fst d) :: u64) \<notin> fst ` set (bs @ bs')"
        unfolding u using starts [OF that] starts' [OF that] by auto
      with r(2) m show ?thesis by (cases b) simp
    qed
    have rb: "unat r = fst b + 16" "lseg h' fl' 0 bs'" "unat (block_size (h' (word_of_nat (fst b)))) = snd b"
      using r(2) m by (cases b; simp)+
    then have "block_size (h' (word_of_nat (fst b))) = word_of_nat (snd b)"
      by (metis unat_inject unat_word_of_nat_less unsigned_less)
    with rb bA other mb inv show "unat r = fst b + 16 \<and> heap_inv lo hi (fl', h') bs' (insert b A) \<and> b \<notin> A"
      by (simp add: heap_inv_def fh)
  qed
qed

section \<open>Giving a block back\<close>

lemma free_search_split:
  assumes "lseg h fl cur xs" "lseg h cur 0 ys" "before prev xs"
  shows "\<exists>prev' cur'. free_search blk prev cur h = Some (prev', cur') \<and>
    lseg h fl cur' (xs @ takeWhile (\<lambda>c. fst c < unat blk) ys) \<and>
    lseg h cur' 0 (dropWhile (\<lambda>c. fst c < unat blk) ys) \<and>
    before prev' (xs @ takeWhile (\<lambda>c. fst c < unat blk) ys)"
  using assms
proof (induction ys arbitrary: xs prev cur)
  case Nil
  then show ?case by (subst free_search.simps) auto
next
  case (Cons y ys)
  obtain p n where y: "y = (p, n)" by force
  from Cons.prems(2) y have cur: "unat cur = p" "cur \<noteq> 0" "unat (block_size (h cur)) = n"
    "lseg h (block_next (h cur)) 0 ys" by auto
  show ?case
  proof (cases "p < unat blk")
    case True
    then have "free_search blk prev cur h = free_search blk cur (block_next (h cur)) h"
      using cur by (subst free_search.simps) (simp add: word_less_nat_alt)
    moreover have "lseg h fl (block_next (h cur)) (xs @ [(p, n)])" "before cur (xs @ [(p, n)])"
      using Cons.prems(1) cur by (auto simp: lseg_append before_def)
    ultimately show ?thesis
      using Cons.IH [of "block_next (h cur)" "xs @ [(p, n)]" cur] cur(4) True y by auto
  next
    case False
    then have "free_search blk prev cur h = Some (prev, cur)"
      using cur by (subst free_search.simps) (simp add: word_less_nat_alt)
    with Cons.prems False y show ?thesis by auto
  qed
qed

text \<open>Merging a block with its successor, in memory and on the list.\<close>

definition merge_next :: "u64 \<Rightarrow> (u64 \<Rightarrow> block_t) \<Rightarrow> (u64 \<Rightarrow> block_t)" where
  "merge_next a h =
     (let nxt = block_next (h a) in
      if nxt \<noteq> 0 \<and> a + block_size (h a) = nxt
      then h(a := \<lparr>block_size = block_size (h a) + block_size (h nxt), block_next = block_next (h nxt)\<rparr>)
      else h)"

lemma merge_next_other: "c \<noteq> a \<Longrightarrow> merge_next a h c = h c"
  by (simp add: merge_next_def Let_def)

lemma merge_next_join:
  assumes "lseg h a 0 ((p, n) # ys)" "p + n + (case ys of [] \<Rightarrow> 0 | (q, m) # _ \<Rightarrow> m) < 2 ^ 64"
    and "p \<notin> fst ` set ys"
  shows "lseg (merge_next a h) a 0 (join (p, n) ys)"
proof (cases ys)
  case Nil
  with assms show ?thesis by (simp add: merge_next_def)
next
  case (Cons y zs)
  obtain q m where y: "y = (q, m)" by force
  let ?b = "block_next (h a)"
  from assms Cons y have a: "unat a = p" "a \<noteq> 0" "unat (block_size (h a)) = n" "unat ?b = q" "?b \<noteq> 0"
    "unat (block_size (h ?b)) = m" "lseg h (block_next (h ?b)) 0 zs" "p + n + m < 2 ^ 64"
    by auto
  have "unat (a + block_size (h a)) = p + n" using a by (simp add: unat_add_less)
  then have adj: "a + block_size (h a) = ?b \<longleftrightarrow> p + n = q" using a(4) unat_inject by metis
  have "unat (block_size (h a) + block_size (h ?b)) = n + m" using a by (simp add: unat_add_less)
  moreover have "unat a \<notin> fst ` set zs" using assms(3) Cons a(1) by auto
  ultimately show ?thesis
    using a adj assms(3) Cons y by (auto simp: merge_next_def Let_def)
qed

lemma join_Nil_iff [simp]: "join b ys \<noteq> []"
  by (induction b ys rule: join.induct) auto

lemma fst_hd_join [simp]: "fst (hd (join b ys)) = fst b"
  by (induction b ys rule: join.induct) auto

lemma fst_set_join: "fst ` set (join b ys) \<subseteq> insert (fst b) (fst ` set ys)"
  by (induction b ys rule: join.induct) auto

lemma bytes_join: "\<Union> (bytes ` set (join b ys)) = bytes b \<union> \<Union> (bytes ` set ys)"
  by (induction b ys rule: join.induct) (auto simp: bytes_def)

lemma join_free_ok:
  assumes "block_ok lo hi b" "free_ok lo hi ys" "\<And>c. c \<in> set ys \<Longrightarrow> fst b + snd b \<le> fst c"
  shows "free_ok lo hi (join b ys)"
proof (cases ys)
  case Nil
  with assms show ?thesis by (simp add: free_ok_Cons)
next
  case (Cons y zs)
  obtain p n q m where bb: "b = (p, n)" "y = (q, m)" by force
  have "p + n \<le> q" using assms(3) [of y] Cons bb by simp
  moreover from assms Cons bb have "block_ok lo hi (p, n)" "block_ok lo hi (q, m)"
    "list_all (apart (q, m)) zs" "free_ok lo hi zs"
    by (simp_all add: free_ok_Cons)
  ultimately show ?thesis
    using Cons bb by (auto simp: free_ok_Cons list_all_iff apart_def block_ok_def)
qed

lemma disjoint_of_free_ok: "free_ok lo hi bs \<Longrightarrow> disjoint_blocks (set bs)"
proof (induction bs)
  case Nil
  then show ?case by (simp add: disjoint_blocks_def)
next
  case (Cons b bs)
  then have "\<And>c. c \<in> set bs \<Longrightarrow> bytes b \<inter> bytes c = {}"
    by (auto simp: free_ok_Cons list_all_iff apart_def bytes_def)
  with Cons show ?case by (auto simp: disjoint_blocks_insert free_ok_Cons)
qed

lemma disjoint_blocks_Un:
  "disjoint_blocks S \<Longrightarrow> disjoint_blocks T \<Longrightarrow> \<Union> (bytes ` S) \<inter> \<Union> (bytes ` T) = {} \<Longrightarrow>
     disjoint_blocks (S \<union> T)"
  unfolding disjoint_blocks_def pairwise_def by blast

text \<open>\<open>free_internal\<close> in terms of \<open>merge_next\<close>.\<close>

lemma free_internal_merge:
  assumes "blk \<noteq> 0" "ptr = blk + 16" "ptr \<noteq> 0" "free_search blk 0 fl h = Some (prev, cur)"
    and "link_block prev blk (fl, h(blk := (h blk)\<lparr>block_next := cur\<rparr>)) = (fl', h2)"
    and "prev \<noteq> 0 \<Longrightarrow> prev \<noteq> blk \<and> block_next (h2 prev) = blk"
  shows "free_internal ptr (fl, h) =
    Some (fl', if prev = 0 then merge_next blk h2 else merge_next prev (merge_next blk h2))"
proof -
  define h3 where "h3 = merge_next blk h2"
  have h3: "(if block_next (h2 blk) \<noteq> 0 \<and> blk + block_size (h2 blk) = block_next (h2 blk)
      then h2(blk := \<lparr>block_size = block_size (h2 blk) + block_size (h2 (block_next (h2 blk))),
                      block_next = block_next (h2 (block_next (h2 blk)))\<rparr>)
      else h2) = h3"
    by (simp add: h3_def merge_next_def Let_def)
  have "free_internal ptr (fl, h) = Some (fl',
      if prev \<noteq> 0 \<and> prev + block_size (h3 prev) = blk
      then h3(prev := \<lparr>block_size = block_size (h3 prev) + block_size (h3 blk), block_next = block_next (h3 blk)\<rparr>)
      else h3)"
    using assms(2-5) by (simp add: free_internal_def h3 Let_def)
  moreover have "prev \<noteq> 0 \<Longrightarrow> block_next (h3 prev) = blk"
    using assms(6) by (simp add: h3_def merge_next_other)
  ultimately show ?thesis
    using assms(1) by (auto simp: merge_next_def [of prev] Let_def simp flip: h3_def)
qed

lemma give_back_split:
  assumes "bs = xs @ ys" "\<And>c. c \<in> set xs \<Longrightarrow> fst c < fst b" "\<And>c. c \<in> set ys \<Longrightarrow> \<not> fst c < fst b"
  shows "give_back b bs = (if xs = [] then join b ys else butlast xs @ join (last xs) (join b ys))"
proof -
  have "takeWhile (\<lambda>c. fst c < fst b) bs = xs" "dropWhile (\<lambda>c. fst c < fst b) bs = ys"
    unfolding assms(1) using assms(2,3)
    by (cases ys; force simp: takeWhile_append dropWhile_append)+
  then show ?thesis by (simp add: give_back_def Let_def)
qed

text \<open>The list side: the invariant of the list and the bytes it covers.\<close>

lemma give_back_ok:
  assumes "free_ok lo hi (xs @ ys)" "block_ok lo hi b"
    and "\<And>c. c \<in> set xs \<Longrightarrow> fst c + snd c \<le> fst b" "\<And>c. c \<in> set ys \<Longrightarrow> fst b + snd b \<le> fst c"
  shows "free_ok lo hi (if xs = [] then join b ys else butlast xs @ join (last xs) (join b ys)) \<and>
    \<Union> (bytes ` set (if xs = [] then join b ys else butlast xs @ join (last xs) (join b ys))) =
      bytes b \<union> \<Union> (bytes ` set (xs @ ys))"
proof -
  have zs: "free_ok lo hi (join b ys)"
    using assms by (intro join_free_ok) (auto simp: free_ok_append)
  show ?thesis
  proof (cases xs rule: rev_cases)
    case Nil
    with zs show ?thesis by (simp add: bytes_join)
  next
    case (snoc us u)
    have starts: "fst b \<le> fst c" if "c \<in> set (join b ys)" for c
      using fst_set_join [of b ys] that assms(4) by force
    have u: "block_ok lo hi u" "fst u + snd u \<le> fst b" "free_ok lo hi us" "\<And>c. c \<in> set us \<Longrightarrow> apart c u"
      using assms(1,3) snoc by (auto simp: free_ok_append free_ok_Cons)
    have "free_ok lo hi (join u (join b ys))"
      by (rule join_free_ok [OF u(1) zs]) (use u(2) starts in \<open>auto intro: order_trans\<close>)
    moreover have "apart c d" if "c \<in> set us" "d \<in> set (join u (join b ys))" for c d
    proof -
      from that(2) have "fst d \<in> insert (fst u) (fst ` set (join b ys))"
        using fst_set_join [of u "join b ys"] by blast
      then have "fst u \<le> fst d" using starts u(2) by force
      with u(4) [OF that(1)] show ?thesis by (simp add: apart_def)
    qed
    ultimately show ?thesis
      using u snoc by (auto simp: free_ok_append list_all_iff bytes_join)
  qed
qed

text \<open>A block apart from all free blocks has a place between them.\<close>

lemma split_around:
  assumes ok: "free_ok lo hi bs" "block_ok lo hi (p, n)"
    and apart: "\<And>c. c \<in> set bs \<Longrightarrow> bytes (p, n) \<inter> bytes c = {}"
  obtains xs ys where "bs = xs @ ys" "takeWhile (\<lambda>c. fst c < p) bs = xs" "dropWhile (\<lambda>c. fst c < p) bs = ys"
    "\<And>c. c \<in> set xs \<Longrightarrow> fst c + snd c \<le> p" "\<And>c. c \<in> set ys \<Longrightarrow> p + n \<le> fst c"
proof -
  have disj: "fst c + snd c \<le> p \<or> p + n \<le> fst c" if "c \<in> set bs" for c
  proof (rule ccontr)
    assume "\<not> ?thesis"
    then have "max p (fst c) \<in> bytes (p, n) \<inter> bytes c"
      using ok(2) free_ok_blocks [OF ok(1) that] by (auto simp: bytes_def block_ok_def)
    with apart [OF that] show False by simp
  qed
  have n: "0 < n" using ok(2) by (simp add: block_ok_def)
  show thesis
  proof (rule that [of "takeWhile (\<lambda>c. fst c < p) bs" "dropWhile (\<lambda>c. fst c < p) bs"])
    fix c assume "c \<in> set (takeWhile (\<lambda>c. fst c < p) bs)"
    then have "c \<in> set bs" "fst c < p" by (auto dest: set_takeWhileD)
    with disj [of c] show "fst c + snd c \<le> p" by linarith
  next
    fix c assume c: "c \<in> set (dropWhile (\<lambda>c. fst c < p) bs)"
    then obtain d ds where d: "dropWhile (\<lambda>c. fst c < p) bs = d # ds"
      by (cases "dropWhile (\<lambda>c. fst c < p) bs") auto
    have "\<not> fst d < p" using hd_dropWhile [of "\<lambda>c. fst c < p" bs] d by simp
    moreover have "free_ok lo hi (d # ds)"
      using ok(1) takeWhile_dropWhile_id [of "\<lambda>c. fst c < p" bs] d by (metis free_ok_append)
    then have "fst d \<le> fst c" using c d by (auto simp: free_ok_Cons list_all_iff apart_def)
    moreover have cbs: "c \<in> set bs" using c by (rule set_dropWhileD)
    moreover have "24 \<le> snd c" using free_ok_blocks [OF ok(1) cbs] by (simp add: block_ok_def)
    ultimately show "p + n \<le> fst c" using disj [of c] by linarith
  qed simp_all
qed

lemma lseg_start: "lseg h a b bs \<Longrightarrow> bs \<noteq> [] \<Longrightarrow> unat a = fst (hd bs)"
  by (cases bs) auto

text \<open>Merging the predecessor with the list behind it.\<close>

lemma merge_prev_join:
  assumes "lseg h fl blk xs" "lseg h blk 0 zs" "before prev xs" "xs \<noteq> []" "free_ok lo hi (butlast xs @ join (last xs) zs)"
    and "free_ok lo hi xs" "free_ok lo hi zs" "zs \<noteq> []" "\<And>c d. c \<in> set xs \<Longrightarrow> d \<in> set zs \<Longrightarrow> fst c + snd c \<le> fst d"
    and "hi < 2 ^ 64"
  shows "lseg (merge_next prev h) fl 0 (butlast xs @ join (last xs) zs) \<and> block_next (h prev) = blk"
proof -
  obtain us q m where xs: "xs = us @ [(q, m)]" using assms(4) by (metis rev_exhaust surj_pair)
  from lseg_last assms(1) xs obtain w where w: "unat w = q" "w \<noteq> 0" "unat (block_size (h w)) = m"
    "block_next (h w) = blk" "lseg h fl w us" by blast
  from assms(3) w(1) xs have prev: "prev = w" by (auto simp: before_def dest: unat_inject)
  from assms(8) obtain d ds where zs: "zs = d # ds" by (cases zs) auto
  have "24 \<le> m" using assms(6) xs by (auto simp: free_ok_append free_ok_Cons block_ok_def)
  then have q: "q \<notin> fst ` set zs" using assms(9) [of "(q, m)"] xs by fastforce
  have us: "q \<notin> fst ` set us"
    using assms(6) xs free_ok_distinct(1) [of lo hi us q m "[]"] by simp
  have "q + m + snd d < 2 ^ 64"
    using assms(9) [of "(q, m)" d] assms(7,10) xs zs by (auto simp: free_ok_Cons block_ok_def)
  then have "lseg (merge_next w h) w 0 (join (q, m) zs)"
    using w assms(2) q zs by (intro merge_next_join) (auto split: prod.splits)
  moreover have "lseg (merge_next w h) fl w us"
    using w(1,5) us by (subst lseg_cong [of _ _ h]) (auto intro!: merge_next_other)
  ultimately show ?thesis
    using w(4) xs prev by (auto simp: lseg_append)
qed

lemma free_internal_refines:
  assumes seg: "lseg h fl 0 bs" and ok: "free_ok lo hi bs" "block_ok lo hi (p, n)" "0 < lo" "hi < 2 ^ 64"
    and apart: "\<And>c. c \<in> set bs \<Longrightarrow> bytes (p, n) \<inter> bytes c = {}"
    and size: "block_size (h (word_of_nat p)) = word_of_nat n" and ptr: "ptr = word_of_nat (p + 16)"
  shows "\<exists>fl' h'. free_internal ptr (fl, h) = Some (fl', h') \<and> lseg h' fl' 0 (give_back (p, n) bs) \<and>
    free_ok lo hi (give_back (p, n) bs) \<and>
    \<Union> (bytes ` set (give_back (p, n) bs)) = bytes (p, n) \<union> \<Union> (bytes ` set bs) \<and>
    (\<forall>c. unat c \<notin> insert p (fst ` set bs) \<longrightarrow> h' c = h c)"
proof -
  define blk :: u64 where "blk = word_of_nat p"
  from ok have pn: "0 < p" "p + n < 2 ^ 64" "24 \<le> n" by (auto simp: block_ok_def)
  then have blk: "unat blk = p" "blk \<noteq> 0" by (auto simp: blk_def unat_word_of_nat_less simp flip: unat_eq_zero)
  have "unat ptr = p + 16" using pn by (simp add: ptr unat_word_of_nat_less del: of_nat_add)
  then have ptr': "ptr \<noteq> 0" "ptr = blk + 16" by (auto simp: ptr blk_def)
  from split_around [OF ok(1,2) apart] obtain xs ys where bs: "bs = xs @ ys"
    "takeWhile (\<lambda>c. fst c < p) bs = xs" "dropWhile (\<lambda>c. fst c < p) bs = ys"
    and xs: "\<And>c. c \<in> set xs \<Longrightarrow> fst c + snd c \<le> p" and ys: "\<And>c. c \<in> set ys \<Longrightarrow> p + n \<le> fst c"
    by blast
  define zs where "zs = join (p, n) ys"
  have okxy: "free_ok lo hi (xs @ ys)" using ok(1) bs(1) by simp
  have result: "give_back (p, n) bs = (if xs = [] then zs else butlast xs @ join (last xs) zs)"
    using bs by (simp add: give_back_def zs_def)
  have gb: "free_ok lo hi (give_back (p, n) bs)"
    "\<Union> (bytes ` set (give_back (p, n) bs)) = bytes (p, n) \<union> \<Union> (bytes ` set bs)"
    using give_back_ok [OF okxy ok(2)] xs ys bs(1) unfolding result zs_def by simp_all
  have sizes: "24 \<le> snd c" if "c \<in> set bs" for c
    using free_ok_blocks [OF ok(1) that] by (simp add: block_ok_def)
  have p: "p \<notin> fst ` set xs" "p \<notin> fst ` set ys" "fst ` set xs \<inter> fst ` set ys = {}"
    using xs ys pn sizes bs(1) by fastforce+
  from free_search_split [of h fl fl "[]" bs 0 blk] seg bs(2,3) blk(1)
  obtain prev cur where srch: "free_search blk 0 fl h = Some (prev, cur)"
    "lseg h fl cur xs" "lseg h cur 0 ys" "before prev xs" by (auto simp: before_def)
  define h1 where "h1 = h(blk := (h blk)\<lparr>block_next := cur\<rparr>)"
  obtain fl' h2 where link: "link_block prev blk (fl, h1) = (fl', h2)" by force
  have "lseg h1 fl cur xs" using srch(2) p(1) blk(1) by (simp add: h1_def)
  from lseg_relink [OF this srch(4) _ link] okxy have rl: "lseg h2 fl' blk xs"
    "\<And>c. unat c \<notin> fst ` set xs \<Longrightarrow> h2 c = h1 c" by (auto simp: free_ok_def sorted_wrt_append)
  have h2blk: "h2 blk = \<lparr>block_size = word_of_nat n, block_next = cur\<rparr>"
    using rl(2) [of blk] p(1) blk(1) size by (simp add: h1_def blk_def)
  have "h2 c = h c" if "unat c \<in> fst ` set ys" for c
  proof -
    from that p(2,3) blk(1) have "unat c \<notin> fst ` set xs" "c \<noteq> blk" by blast+
    then show ?thesis by (simp add: rl(2) h1_def)
  qed
  then have "lseg h2 cur 0 ys" using srch(3) by (subst lseg_cong [of _ h2 h]) auto
  then have seg2: "lseg h2 blk 0 ((p, n) # ys)"
    using h2blk blk pn by (simp add: unat_word_of_nat_less)
  define h3 where "h3 = merge_next blk h2"
  have "p + n + (case ys of [] \<Rightarrow> 0 | (q, m) # _ \<Rightarrow> m) < 2 ^ 64"
    using pn ys okxy ok(4) by (cases ys) (force simp: free_ok_append free_ok_Cons block_ok_def)+
  then have seg3: "lseg h3 blk 0 zs"
    unfolding h3_def zs_def using seg2 p(2) by (intro merge_next_join)
  have h3xs: "lseg h3 fl' blk xs"
    using rl(1) p(1) blk(1) by (subst lseg_cong [of _ h3 h2]) (auto simp: h3_def intro!: merge_next_other)
  have okzs: "free_ok lo hi zs" "zs \<noteq> []" "free_ok lo hi xs"
    using okxy ok(2) ys unfolding zs_def by (auto intro!: join_free_ok simp: free_ok_append)
  have zstarts: "p \<le> fst d" if "d \<in> set zs" for d
    using fst_set_join [of "(p, n)" ys] that ys unfolding zs_def by force
  have between: "fst c + snd c \<le> fst d" if "c \<in> set xs" "d \<in> set zs" for c d
    using xs [OF that(1)] zstarts [OF that(2)] by (rule order_trans)
  define h4 where "h4 = (if prev = 0 then h3 else merge_next prev h3)"
  have "lseg h4 fl' 0 (give_back (p, n) bs) \<and> (prev \<noteq> 0 \<longrightarrow> prev \<noteq> blk \<and> block_next (h2 prev) = blk)"
  proof (cases "xs = []")
    case True
    with srch(4) have "prev = 0" by (simp add: before_def)
    with True h3xs seg3 show ?thesis by (simp add: h4_def result)
  next
    case False
    with srch(4) have prev: "prev \<noteq> 0" "unat prev \<in> fst ` set xs" by (auto simp: before_def)
    then have "prev \<noteq> blk" using p(1) blk(1) by auto
    moreover have "lseg (merge_next prev h3) fl' 0 (butlast xs @ join (last xs) zs) \<and> block_next (h3 prev) = blk"
      using gb(1) False between okzs ok(4)
      by (intro merge_prev_join [OF h3xs seg3 srch(4)]) (simp_all add: result)
    ultimately show ?thesis
      using prev False by (simp add: h4_def result h3_def merge_next_other)
  qed
  moreover from this have "free_internal ptr (fl, h) = Some (fl', h4)"
    using free_internal_merge [OF blk(2) ptr'(2,1) srch(1) link [unfolded h1_def]]
    by (simp add: h4_def h3_def)
  moreover have "h4 c = h c" if "unat c \<notin> insert p (fst ` set bs)" for c
  proof -
    have "prev \<noteq> 0 \<Longrightarrow> unat prev \<in> fst ` set bs"
      using srch(4) bs(1) by (cases "xs = []") (auto simp: before_def)
    with that blk(1) have "c \<noteq> blk" "prev \<noteq> 0 \<Longrightarrow> c \<noteq> prev" "unat c \<notin> fst ` set xs"
      by (auto simp: bs(1))
    then show ?thesis by (simp add: h4_def h3_def merge_next_other rl(2) h1_def)
  qed
  ultimately show ?thesis using gb by blast
qed

section \<open>The invariant under release\<close>

lemma heap_inv_free:
  assumes inv: "heap_inv lo hi fh bs A" and b: "b \<in> A"
  shows "\<exists>fh'. free_internal (word_of_nat (fst b + 16)) fh = Some fh' \<and>
    heap_inv lo hi fh' (give_back b bs) (A - {b})"
proof -
  obtain fl h where fh: "fh = (fl, h)" by force
  obtain p n where pn: "b = (p, n)" by force
  have disj: "disjoint_blocks (set bs \<union> A)" and sep: "A \<inter> set bs = {}" and hi: "hi < 2 ^ 64"
    using inv by (simp_all add: heap_inv_def)
  have out: "bytes c \<inter> bytes d = {}" if "c \<in> A" "d \<in> set bs \<union> A" "c \<noteq> d" for c d
    using disj that unfolding disjoint_blocks_def pairwise_def by blast
  have "bytes (p, n) \<inter> bytes c = {}" if "c \<in> set bs" for c
    using out [OF b, of c] that b sep pn by auto
  moreover have "lseg h fl 0 bs" "free_ok lo hi bs" "block_ok lo hi (p, n)" "0 < lo"
    "block_size (h (word_of_nat p)) = word_of_nat n"
    using inv b by (auto simp: heap_inv_def fh pn)
  ultimately obtain fl' h' where r: "free_internal (word_of_nat (p + 16)) (fl, h) = Some (fl', h')"
    "lseg h' fl' 0 (give_back (p, n) bs)" "free_ok lo hi (give_back (p, n) bs)"
    "\<Union> (bytes ` set (give_back (p, n) bs)) = bytes (p, n) \<union> \<Union> (bytes ` set bs)"
    "\<And>c. unat c \<notin> insert p (fst ` set bs) \<Longrightarrow> h' c = h c"
    using free_internal_refines [of h fl bs lo hi p n "word_of_nat (p + 16)"] hi by blast
  let ?bs = "give_back (p, n) bs"
  have apart: "\<Union> (bytes ` set ?bs) \<inter> bytes c = {}" if "c \<in> A - {b}" for c
  proof -
    have "bytes (p, n) \<inter> bytes c = {}" using out [of b c] that b pn by blast
    moreover have "bytes d \<inter> bytes c = {}" if "d \<in> set bs" for d
      using out [of c d] that \<open>c \<in> A - {b}\<close> sep by blast
    ultimately show ?thesis unfolding r(4) by blast
  qed
  have starts: "fst c \<noteq> fst d" if "c \<in> A - {b}" "d \<in> insert b (set bs)" for c d
    using that b sep by (intro disjoint_starts [OF disj heap_inv_blocks [OF inv]]) auto
  have headers: "h' (word_of_nat (fst c)) = h (word_of_nat (fst c))" if "c \<in> A - {b}" for c
  proof (rule r(5))
    have "block_ok lo hi c" using heap_inv_blocks [OF inv, of c] that by simp
    then have "fst c < 2 ^ 64" using hi by (simp add: block_ok_def)
    then have u: "unat (word_of_nat (fst c) :: u64) = fst c" by (simp add: unat_word_of_nat_less)
    show "unat (word_of_nat (fst c) :: u64) \<notin> insert p (fst ` set bs)"
      unfolding u using starts [OF that] pn by (metis fst_conv imageE insertCI insertE)
  qed
  have "disjoint_blocks (A - {b})"
    using disj unfolding disjoint_blocks_def by (rule pairwise_subset) auto
  then have "disjoint_blocks (set ?bs \<union> (A - {b}))"
    using disjoint_of_free_ok [OF r(3)] apart by (intro disjoint_blocks_Un) blast+
  moreover have "(A - {b}) \<inter> set ?bs = {}"
  proof -
    have "c \<notin> set ?bs" if "c \<in> A - {b}" for c
      using apart [OF that] start_in_bytes [OF heap_inv_blocks [OF inv, of c]] that by blast
    then show ?thesis by blast
  qed
  moreover have "\<Union> (bytes ` (set ?bs \<union> (A - {b}))) = \<Union> (bytes ` (set bs \<union> A))"
    using r(4) b pn by (simp add: image_Un Union_Un_distrib) blast
  ultimately have "heap_inv lo hi (fl', h') ?bs (A - {b})"
    using inv r(2,3) headers unfolding heap_inv_def fh by simp
  then show ?thesis using r(1) fh pn by auto
qed

section \<open>The interface and its clients\<close>

text \<open>
  What the users of the heap rely on: \<open>live s A\<close> says that \<open>A\<close> are the memory areas handed out.
\<close>

locale block_allocator =
  fixes alloc :: "u64 \<Rightarrow> 's \<Rightarrow> (u64 \<times> 's) option"
    and release :: "u64 \<Rightarrow> 's \<Rightarrow> 's option"
    and live :: "'s \<Rightarrow> blk set \<Rightarrow> bool"
  assumes alloc_live: "live s A \<Longrightarrow> 0 < unat n \<Longrightarrow> unat n + 23 < 2 ^ 64 \<Longrightarrow>
      \<exists>p s'. alloc n s = Some (p, s') \<and>
        (p = 0 \<and> live s' A \<or> (\<exists>m\<ge>unat n. p \<noteq> 0 \<and> live s' (insert (unat p, m) A) \<and> unat p \<notin> fst ` A))"
    and release_live: "live s A \<Longrightarrow> (unat p, m) \<in> A \<Longrightarrow>
      \<exists>s'. release p s = Some s' \<and> live s' (A - {(unat p, m)})"
    and live_disjoint: "live s A \<Longrightarrow> disjoint_blocks A"

datatype heap_op = Alloc u64 | Free u64

text \<open>A client that keeps what it was given (pointer and requested size) and frees only that.\<close>

fun run_ops :: "(u64 \<Rightarrow> 's \<Rightarrow> (u64 \<times> 's) option) \<Rightarrow> (u64 \<Rightarrow> 's \<Rightarrow> 's option) \<Rightarrow> heap_op list \<Rightarrow>
    (u64 \<times> u64) list \<Rightarrow> 's \<Rightarrow> ((u64 \<times> u64) list \<times> 's) option" where
  "run_ops al re [] held s = Some (held, s)"
| "run_ops al re (Alloc n # ops) held s =
     (case al n s of None \<Rightarrow> None
      | Some (p, s') \<Rightarrow> run_ops al re ops (if p = 0 then held else (p, n) # held) s')"
| "run_ops al re (Free p # ops) held s =
     (if p \<in> fst ` set held
      then (case re p s of None \<Rightarrow> None
            | Some s' \<Rightarrow> run_ops al re ops (filter (\<lambda>h. fst h \<noteq> p) held) s')
      else run_ops al re ops held s)"

fun op_size_ok :: "heap_op \<Rightarrow> bool" where
  "op_size_ok (Alloc n) \<longleftrightarrow> 0 < unat n \<and> unat n + 23 < 2 ^ 64"
| "op_size_ok (Free p) \<longleftrightarrow> True"

definition held_disjoint :: "(u64 \<times> u64) list \<Rightarrow> bool" where
  "held_disjoint held \<longleftrightarrow> distinct (map fst held) \<and>
     (\<forall>(p, n)\<in>set held. \<forall>(q, m)\<in>set held. p \<noteq> q \<longrightarrow> bytes (unat p, unat n) \<inter> bytes (unat q, unat m) = {})"

definition holds :: "(u64 \<times> u64) list \<Rightarrow> blk set \<Rightarrow> bool" where
  "holds held A \<longleftrightarrow> distinct (map fst held) \<and> (\<forall>(p, n)\<in>set held. \<exists>m\<ge>unat n. (unat p, m) \<in> A)"

lemma holdsD: "holds held A \<Longrightarrow> (p, n) \<in> set held \<Longrightarrow> \<exists>m\<ge>unat n. (unat p, m) \<in> A"
  by (auto simp: holds_def)

lemma holds_Cons:
  assumes "holds held A" "unat n \<le> m" "unat p \<notin> fst ` A"
  shows "holds ((p, n) # held) (insert (unat p, m) A)"
proof -
  have "p \<notin> fst ` set held" using holdsD [OF assms(1)] assms(3) by force
  moreover have "\<exists>k\<ge>unat j. (unat q, k) \<in> insert (unat p, m) A" if "(q, j) \<in> set held" for q j
    using holdsD [OF assms(1) that] by blast
  ultimately show ?thesis using assms(1,2) by (auto simp: holds_def)
qed

lemma holds_filter:
  assumes "holds held A"
  shows "holds (filter (\<lambda>h. fst h \<noteq> p) held) (A - {(unat p, m)})"
proof -
  have "\<exists>k\<ge>unat j. (unat q, k) \<in> A - {(unat p, m)}" if "(q, j) \<in> set held" "q \<noteq> p" for q j
    using holdsD [OF assms that(1)] that(2) unat_inject [of q p] by blast
  then show ?thesis using assms by (auto simp: holds_def distinct_map_filter)
qed

context block_allocator
begin

lemma holds_disjoint:
  assumes "live s A" "holds held A"
  shows "held_disjoint held"
  unfolding held_disjoint_def
proof (intro conjI ballI, goal_cases)
  case 1
  then show ?case using assms(2) by (simp add: holds_def)
next
  case (2 h)
  obtain p n where h: "h = (p, n)" by force
  have "bytes (unat p, unat n) \<inter> bytes (unat q, unat m) = {}" if "(q, m) \<in> set held" "p \<noteq> q" for q m
  proof -
    from 2 h have "(p, n) \<in> set held" by simp
    from holdsD [OF assms(2) this] holdsD [OF assms(2) that(1)]
    obtain k l where "unat n \<le> k" "(unat p, k) \<in> A" "unat m \<le> l" "(unat q, l) \<in> A" by blast
    moreover from this that(2) have "bytes (unat p, k) \<inter> bytes (unat q, l) = {}"
      using live_disjoint [OF assms(1)] unfolding disjoint_blocks_def pairwise_def
      by (metis prod.inject unat_inject)
    ultimately show ?thesis by (auto simp: bytes_def)
  qed
  then show ?case using h by auto
qed

lemma run_ops_safe:
  "live s A \<Longrightarrow> holds held A \<Longrightarrow> list_all op_size_ok ops \<Longrightarrow>
     \<exists>held' s' A'. run_ops alloc release ops held s = Some (held', s') \<and> live s' A' \<and> holds held' A'"
proof (induction ops arbitrary: held s A)
  case Nil
  then show ?case by auto
next
  case (Cons op ops)
  show ?case
  proof (cases op)
    case (Alloc n)
    with Cons.prems have n: "0 < unat n" "unat n + 23 < 2 ^ 64" by simp_all
    from alloc_live [OF Cons.prems(1) n] obtain p s' where a: "alloc n s = Some (p, s')"
      "p = 0 \<and> live s' A \<or> (\<exists>m\<ge>unat n. p \<noteq> 0 \<and> live s' (insert (unat p, m) A) \<and> unat p \<notin> fst ` A)"
      by blast
    then show ?thesis
    proof (cases "p = 0")
      case True
      with a have "live s' A" by simp
      from Cons.IH [OF this Cons.prems(2)] Cons.prems(3) a(1) True Alloc show ?thesis by simp
    next
      case False
      with a obtain m where m: "unat n \<le> m" "live s' (insert (unat p, m) A)" "unat p \<notin> fst ` A" by auto
      have "holds ((p, n) # held) (insert (unat p, m) A)"
        using Cons.prems(2) m(1,3) by (rule holds_Cons)
      from Cons.IH [OF m(2) this] Cons.prems(3) a(1) False Alloc show ?thesis by simp
    qed
  next
    case (Free p)
    show ?thesis
    proof (cases "p \<in> fst ` set held")
      case False
      with Free Cons.IH [OF Cons.prems(1,2)] Cons.prems(3) show ?thesis by simp
    next
      case True
      then obtain m where m: "(unat p, m) \<in> A" using holdsD [OF Cons.prems(2)] by force
      from release_live [OF Cons.prems(1) m] obtain s' where
        s': "release p s = Some s'" "live s' (A - {(unat p, m)})" by blast
      have "holds (filter (\<lambda>h. fst h \<noteq> p) held) (A - {(unat p, m)})"
        using Cons.prems(2) by (rule holds_filter)
      from Cons.IH [OF s'(2) this] s'(1) True Free Cons.prems(3) show ?thesis by simp
    qed
  qed
qed

end

end
