(* ===== verification/HeapSafety.thy ===== *)
theory HeapSafety
  imports Heap
begin

unbundle bit_operations_syntax

text \<open>
  The properties of the heap of \<open>src/src/memory/allocator.c\<close> that its clients see: what \<open>malloc\<close>
  and \<open>free\<close> return and keep, that giving a block back restores the free list, that freeing
  everything leaves one block, that no sequence of requests ever makes two areas overlap, and that
  a new heap satisfies the invariant. The locale \<open>block_allocator\<close> is interpreted on the pointer
  code.
\<close>

section \<open>The pointer code is a block allocator\<close>

definition payload :: "blk \<Rightarrow> blk" where
  "payload b = (fst b + 16, snd b - 16)"

definition heap_live :: "u64 \<times> (u64 \<Rightarrow> block_t) \<Rightarrow> blk set \<Rightarrow> bool" where
  "heap_live fh P \<longleftrightarrow> (\<exists>lo hi bs A. heap_inv lo hi fh bs A \<and> P = payload ` A)"

lemma payload_inj: "inj_on payload A" if "\<And>b. b \<in> A \<Longrightarrow> 24 \<le> snd b"
proof (rule inj_onI)
  fix b c assume bc: "b \<in> A" "c \<in> A" "payload b = payload c"
  then have "fst b = fst c" "snd b - 16 = snd c - 16" by (simp_all add: payload_def)
  with that [OF bc(1)] that [OF bc(2)] show "b = c" by (intro prod_eqI) linarith+
qed

lemma heap_inv_size: "heap_inv lo hi fh bs A \<Longrightarrow> b \<in> A \<Longrightarrow> 24 \<le> snd b \<and> fst b + snd b < 2 ^ 64"
  using heap_inv_blocks [of lo hi fh bs A b] by (auto simp: heap_inv_def block_ok_def)

lemma heap_inv_disjoint: "heap_inv lo hi fh bs A \<Longrightarrow> disjoint_blocks (set bs \<union> A)"
  by (simp add: heap_inv_def)

lemma heap_inv_alloc_cases:
  assumes inv: "heap_inv lo hi fh bs A" and sz: "0 < unat sz" "unat sz + 23 < 2 ^ 64"
  obtains r fh' where "malloc_internal sz fh = Some (r, fh')"
    "r = 0 \<and> fh' = fh \<and> malloc_list (need_of (unat sz)) bs = None \<or>
     (\<exists>b bs'. malloc_list (need_of (unat sz)) bs = Some (b, bs') \<and> r \<noteq> 0 \<and> unat r = fst b + 16 \<and>
        heap_inv lo hi fh' bs' (insert b A) \<and> b \<notin> A \<and> need_of (unat sz) \<le> snd b \<and>
        snd b < need_of (unat sz) + 24)"
proof -
  from heap_inv_malloc [OF inv sz] obtain r fh' where m: "malloc_internal sz fh = Some (r, fh')"
    "malloc_list (need_of (unat sz)) bs = None \<Longrightarrow> r = 0 \<and> fh' = fh"
    "\<And>b bs'. malloc_list (need_of (unat sz)) bs = Some (b, bs') \<Longrightarrow>
       unat r = fst b + 16 \<and> heap_inv lo hi fh' bs' (insert b A) \<and> b \<notin> A"
    by blast
  show thesis
  proof (cases "malloc_list (need_of (unat sz)) bs")
    case None
    with m that [of r fh'] show ?thesis by blast
  next
    case (Some bb)
    obtain b bs' where bb: "bb = (b, bs')" by (rule prod.exhaust)
    note r = m(3) [OF Some [unfolded bb]]
    then have "r \<noteq> 0" by auto
    moreover have "24 \<le> need_of (unat sz)" using sz(1) by (simp add: need_of_def)
    then have "need_of (unat sz) \<le> snd b \<and> snd b < need_of (unat sz) + 24"
      using malloc_list_blocks [OF Some [unfolded bb] _ _ need_of_bounds(3), of lo hi A] inv
      by (simp add: heap_inv_def)
    ultimately show ?thesis using r Some bb that [OF m(1)] by blast
  qed
qed

interpretation kheap: block_allocator malloc_internal free_internal heap_live
proof
  fix s :: "u64 \<times> (u64 \<Rightarrow> block_t)" and A and n :: u64
  assume live: "heap_live s A" and n: "0 < unat n" "unat n + 23 < 2 ^ 64"
  from live obtain lo hi bs B where inv: "heap_inv lo hi s bs B" and A: "A = payload ` B"
    by (auto simp: heap_live_def)
  from heap_inv_alloc_cases [OF inv n] obtain r s' where m: "malloc_internal n s = Some (r, s')"
    "r = 0 \<and> s' = s \<and> malloc_list (need_of (unat n)) bs = None \<or>
     (\<exists>b bs'. malloc_list (need_of (unat n)) bs = Some (b, bs') \<and> r \<noteq> 0 \<and> unat r = fst b + 16 \<and>
        heap_inv lo hi s' bs' (insert b B) \<and> b \<notin> B \<and> need_of (unat n) \<le> snd b \<and>
        snd b < need_of (unat n) + 24)" .
  from m(2) show "\<exists>p s'. malloc_internal n s = Some (p, s') \<and>
        (p = 0 \<and> heap_live s' A \<or>
         (\<exists>m\<ge>unat n. p \<noteq> 0 \<and> heap_live s' (insert (unat p, m) A) \<and> unat p \<notin> fst ` A))"
  proof
    assume "r = 0 \<and> s' = s \<and> malloc_list (need_of (unat n)) bs = None"
    with m(1) live show ?thesis by auto
  next
    assume "\<exists>b bs'. malloc_list (need_of (unat n)) bs = Some (b, bs') \<and> r \<noteq> 0 \<and> unat r = fst b + 16 \<and>
        heap_inv lo hi s' bs' (insert b B) \<and> b \<notin> B \<and> need_of (unat n) \<le> snd b \<and>
        snd b < need_of (unat n) + 24"
    then obtain b bs' where b: "r \<noteq> 0" "unat r = fst b + 16" "heap_inv lo hi s' bs' (insert b B)"
      "b \<notin> B" "need_of (unat n) \<le> snd b" by blast
    have "fst b \<noteq> fst c" if "c \<in> B" for c
      using that b(4) by (intro disjoint_starts [OF heap_inv_disjoint [OF b(3)] heap_inv_blocks [OF b(3)]]) auto
    then have "unat r \<notin> fst ` A" by (auto simp: A b(2) payload_def)
    moreover have "heap_live s' (insert (unat r, snd b - 16) A)"
      unfolding heap_live_def using b(2,3) A
      by (intro exI [of _ lo] exI [of _ hi] exI [of _ bs'] exI [of _ "insert b B"]) (simp add: payload_def)
    moreover have "unat n \<le> snd b - 16" using b(5) need_of_bounds(1) [of "unat n"] by simp
    ultimately show ?thesis using m(1) b(1) by blast
  qed
next
  fix s :: "u64 \<times> (u64 \<Rightarrow> block_t)" and A m and p :: u64
  assume live: "heap_live s A" and p: "(unat p, m) \<in> A"
  from live obtain lo hi bs B where inv: "heap_inv lo hi s bs B" and A: "A = payload ` B"
    by (auto simp: heap_live_def)
  from p A obtain b where b: "b \<in> B" "(unat p, m) = payload b" by blast
  then have "unat p = fst b + 16" by (simp add: payload_def)
  then have "word_of_nat (fst b + 16) = p" by (metis of_nat_unat ucast_id)
  with heap_inv_free [OF inv b(1)] obtain s' where
    s': "free_internal p s = Some s'" "heap_inv lo hi s' (give_back b bs) (B - {b})" by auto
  have "payload ` (B - {b}) = A - {(unat p, m)}"
    using inj_on_image_set_diff [OF payload_inj [of B], of B "{b}"] heap_inv_size [OF inv] b
    by (simp add: A)
  with s' show "\<exists>s'. free_internal p s = Some s' \<and> heap_live s' (A - {(unat p, m)})"
    unfolding heap_live_def by (intro exI [of _ s']) (auto intro!: exI)
next
  fix s :: "u64 \<times> (u64 \<Rightarrow> block_t)" and A
  assume "heap_live s A"
  then obtain lo hi bs B where inv: "heap_inv lo hi s bs B" and A: "A = payload ` B"
    by (auto simp: heap_live_def)
  have "disjoint_blocks B"
    using heap_inv_disjoint [OF inv] unfolding disjoint_blocks_def by (rule pairwise_subset) simp
  then have "bytes b \<inter> bytes c = {}" if "b \<in> B" "c \<in> B" "b \<noteq> c" for b c
    using that by (simp add: disjoint_blocks_def pairwise_def)
  moreover have "bytes (payload b) \<subseteq> bytes b" for b by (auto simp: payload_def bytes_def)
  ultimately have "bytes (payload b) \<inter> bytes (payload c) = {}" if "b \<in> B" "c \<in> B" "payload b \<noteq> payload c" for b c
    using that by (metis (no_types) Int_mono subset_empty)
  then show "disjoint_blocks A"
    by (auto simp: A disjoint_blocks_def pairwise_def)
qed

section \<open>Round trip and coalescing on the list\<close>

lemma join_apart: "list_all (apart b) ys \<Longrightarrow> join b ys = b # ys"
  by (cases ys; cases b) (auto simp: apart_def)

lemma give_back_malloc_list:
  assumes "malloc_list need bs = Some (b, bs')" "free_ok lo hi bs" "0 < need"
  shows "give_back b bs' = bs"
proof -
  from malloc_list_split [OF assms(1)] obtain xs p n ys where s: "bs = xs @ (p, n) # ys" "need \<le> n"
    "if 24 \<le> n - need then b = (p, need) \<and> bs' = xs @ (p + need, n - need) # ys
     else b = (p, n) \<and> bs' = xs @ ys" by blast
  have xs: "apart c (p, n)" if "c \<in> set xs" for c
    using assms(2) s(1) that by (simp add: free_ok_append)
  have ys: "list_all (apart (p, n)) ys" using assms(2) s(1) by (simp add: free_ok_append free_ok_Cons)
  have below: "fst c < p" if "c \<in> set xs" for c using xs [OF that] by (simp add: apart_def)
  have above: "\<not> fst c < p" if "c \<in> set ys" for c using ys that by (auto simp: list_all_iff apart_def)
  have glue: "(if xs = [] then (p, n) # ys else butlast xs @ join (last xs) ((p, n) # ys)) = bs"
  proof (cases xs rule: rev_cases)
    case Nil
    then show ?thesis using s(1) by simp
  next
    case (snoc us u)
    have "apart u (p, n)" using xs snoc by simp
    then have "join u ((p, n) # ys) = u # (p, n) # ys" by (cases u) (simp add: apart_def)
    with snoc s(1) show ?thesis by simp
  qed
  show ?thesis
  proof (cases "24 \<le> n - need")
    case True
    with s have b: "b = (p, need)" "bs' = xs @ (p + need, n - need) # ys" by auto
    have "give_back b bs' = (if xs = [] then join b ((p + need, n - need) # ys)
        else butlast xs @ join (last xs) (join b ((p + need, n - need) # ys)))"
      using below above by (intro give_back_split [OF b(2)]) (auto simp: b(1))
    moreover have "join b ((p + need, n - need) # ys) = (p, n) # ys" using s(2) by (simp add: b(1))
    ultimately show ?thesis using glue by (simp split: if_splits)
  next
    case False
    with s have b: "b = (p, n)" "bs' = xs @ ys" by auto
    have "give_back b bs' = (if xs = [] then join b ys else butlast xs @ join (last xs) (join b ys))"
      using below above by (intro give_back_split [OF b(2)]) (auto simp: b(1))
    with glue join_apart [OF ys] show ?thesis by (simp add: b(1) split: if_splits)
  qed
qed

lemma heap_inv_all_free:
  assumes inv: "heap_inv lo hi fh bs {}" and "lo < hi"
  shows "bs = [(lo, hi - lo)]"
proof -
  have cover: "\<Union> (bytes ` set bs) = {lo..<hi}" and ok: "free_ok lo hi bs"
    using inv by (simp_all add: heap_inv_def)
  with assms(2) obtain p n cs where bs: "bs = (p, n) # cs" by (cases bs) auto
  have pn: "block_ok lo hi (p, n)" and cs: "\<And>c. c \<in> set cs \<Longrightarrow> apart (p, n) c \<and> block_ok lo hi c"
    using ok bs by (auto simp: free_ok_Cons list_all_iff dest: free_ok_blocks)
  have "cs = []"
  proof (rule ccontr)
    assume "cs \<noteq> []"
    then obtain c where c: "c \<in> set cs" by (cases cs) auto
    then have "p + n \<in> {lo..<hi}" using cs [OF c] pn by (auto simp: apart_def block_ok_def)
    then obtain d where d: "d \<in> set bs" "p + n \<in> bytes d" unfolding cover [symmetric] by blast
    then have "d \<in> set cs" using bs by (auto simp: bytes_def)
    with cs d(2) show False by (fastforce simp: apart_def bytes_def)
  qed
  with bs cover have "{p..<p + n} = {lo..<hi}" by (simp add: bytes_def)
  moreover have "p < p + n" using pn by (simp add: block_ok_def)
  ultimately have "p = lo \<and> p + n = hi" using assms(2) by (metis atLeastLessThan_eq_iff)
  with bs \<open>cs = []\<close> show ?thesis by auto
qed

section \<open>A concrete heap\<close>

text \<open>A heap of 256 bytes at address 4096, all of it free.\<close>

definition small_heap :: "u64 \<times> (u64 \<Rightarrow> block_t)" where
  "small_heap = (4096, (\<lambda>_. \<lparr>block_size = 0, block_next = 0\<rparr>)(4096 := \<lparr>block_size = 256, block_next = 0\<rparr>))"

lemma small_heap_inv: "heap_inv 4096 4352 small_heap [(4096, 256)] {}"
  by (auto simp: heap_inv_def small_heap_def free_ok_def block_ok_def disjoint_blocks_def bytes_def)

section \<open>Properties\<close>

text \<open>
  C1: \<open>malloc_internal\<close> of a size that does not overflow the header arithmetic returns null and
  changes nothing if no free block is large enough; otherwise it takes the first fit: the result
  is 8-byte aligned, has room for the request with at most 47 bytes of overhead, the block is
  disjoint from every block handed out before, and the free list and the blocks handed out still
  partition the heap.
\<close>
theorem malloc_internal_correct:
  assumes "heap_inv lo hi fh bs A" "0 < unat sz" "unat sz + 23 < 2 ^ 64"
  shows "\<exists>r fh'. malloc_internal sz fh = Some (r, fh') \<and>
    (if \<forall>b\<in>set bs. snd b < need_of (unat sz) then r = 0 \<and> fh' = fh
     else (\<exists>bs' n. malloc_list (need_of (unat sz)) bs = Some ((unat r - 16, n), bs') \<and>
       r \<noteq> 0 \<and> 8 dvd unat r \<and> unat sz + 16 \<le> n \<and> n < unat sz + 48 \<and>
       heap_inv lo hi fh' bs' (insert (unat r - 16, n) A) \<and> (unat r - 16, n) \<notin> A))"
proof -
  from heap_inv_alloc_cases [OF assms] obtain r fh' where m: "malloc_internal sz fh = Some (r, fh')"
    "r = 0 \<and> fh' = fh \<and> malloc_list (need_of (unat sz)) bs = None \<or>
     (\<exists>b bs'. malloc_list (need_of (unat sz)) bs = Some (b, bs') \<and> r \<noteq> 0 \<and> unat r = fst b + 16 \<and>
        heap_inv lo hi fh' bs' (insert b A) \<and> b \<notin> A \<and> need_of (unat sz) \<le> snd b \<and>
        snd b < need_of (unat sz) + 24)" .
  show ?thesis
  proof (cases "malloc_list (need_of (unat sz)) bs")
    case None
    with m show ?thesis using malloc_list_None [of "need_of (unat sz)" bs] by auto
  next
    case (Some bb)
    with m(2) obtain b bs' where b: "malloc_list (need_of (unat sz)) bs = Some (b, bs')" "r \<noteq> 0"
      "unat r = fst b + 16" "heap_inv lo hi fh' bs' (insert b A)" "b \<notin> A"
      "need_of (unat sz) \<le> snd b" "snd b < need_of (unat sz) + 24" by auto
    have "block_ok lo hi b" using heap_inv_blocks [OF b(4)] by simp
    then have "8 dvd unat r" by (simp add: b(3) block_ok_def)
    moreover have "(unat r - 16, snd b) = b" by (simp add: b(3) prod_eq_iff)
    moreover have "\<not> (\<forall>b\<in>set bs. snd b < need_of (unat sz))"
      using malloc_list_None [of "need_of (unat sz)" bs] b(1) by simp
    moreover have "unat sz + 16 \<le> snd b" "snd b < unat sz + 48"
      using b(6,7) need_of_bounds [of "unat sz"] by linarith+
    ultimately have "\<exists>bs' n. malloc_list (need_of (unat sz)) bs = Some ((unat r - 16, n), bs') \<and>
       r \<noteq> 0 \<and> 8 dvd unat r \<and> unat sz + 16 \<le> n \<and> n < unat sz + 48 \<and>
       heap_inv lo hi fh' bs' (insert (unat r - 16, n) A) \<and> (unat r - 16, n) \<notin> A"
      using b by (intro exI [of _ bs'] exI [of _ "snd b"]) simp
    with m(1) \<open>\<not> (\<forall>b\<in>set bs. snd b < need_of (unat sz))\<close> show ?thesis by auto
  qed
qed

theorem malloc_internal_correct_witness:
  "\<exists>r fh'. malloc_internal 100 small_heap = Some (r, fh') \<and> r \<noteq> 0 \<and> 8 dvd unat r"
  using malloc_internal_correct [OF small_heap_inv, of 100] by (auto simp: need_of_def)

text \<open>
  C2: \<open>free_internal\<close> of a block that was handed out returns: its search of the free list ends,
  the block is merged with its free neighbours and the heap invariant holds without it.
\<close>
theorem free_internal_correct:
  assumes "heap_inv lo hi fh bs A" "(p, n) \<in> A"
  shows "\<exists>fh'. free_internal (word_of_nat (p + 16)) fh = Some fh' \<and>
    heap_inv lo hi fh' (give_back (p, n) bs) (A - {(p, n)})"
  using heap_inv_free [OF assms] by simp

text \<open>
  C24: \<open>free\<close> undoes \<open>malloc\<close>: after a successful allocation, freeing the returned pointer gives
  back exactly the free list from before.
\<close>
theorem malloc_free_roundtrip:
  assumes "heap_inv lo hi fh bs A" "0 < unat sz" "unat sz + 23 < 2 ^ 64"
    and "malloc_internal sz fh = Some (r, fh1)" "r \<noteq> 0"
  shows "\<exists>fh2. free_internal r fh1 = Some fh2 \<and> heap_inv lo hi fh2 bs A"
proof -
  from heap_inv_alloc_cases [OF assms(1-3)] assms(4,5) obtain b bs' where
    b: "malloc_list (need_of (unat sz)) bs = Some (b, bs')" "unat r = fst b + 16"
      "heap_inv lo hi fh1 bs' (insert b A)" "b \<notin> A"
    by (metis Pair_inject option.inject)
  have "word_of_nat (fst b + 16) = r" using b(2) by (metis of_nat_unat ucast_id)
  moreover have "give_back b bs' = bs"
    using assms(1) need_of_bounds(1) [of "unat sz"] assms(2)
    by (intro give_back_malloc_list [OF b(1), of lo hi]) (simp_all add: heap_inv_def)
  moreover have "insert b A - {b} = A" using b(4) by simp
  ultimately show ?thesis using heap_inv_free [OF b(3), of b] by simp
qed

lemma small_heap_alloc:
  obtains r fh1 where "malloc_internal 100 small_heap = Some (r, fh1)" "r \<noteq> 0"
    "heap_inv 4096 4352 fh1 [(4216, 136)] {(4096, 120)}" "unat r = 4112"
proof -
  have m: "malloc_list (need_of (unat (100 :: u64))) [(4096, 256)] = Some ((4096, 120), [(4216, 136)])"
    by (simp add: need_of_def)
  have n: "0 < unat (100 :: u64)" "unat (100 :: u64) + 23 < 2 ^ 64" by simp_all
  from heap_inv_malloc [OF small_heap_inv n] obtain r fh1 where r: "malloc_internal 100 small_heap = Some (r, fh1)"
    "\<And>b bs'. malloc_list (need_of (unat (100 :: u64))) [(4096, 256)] = Some (b, bs') \<Longrightarrow>
       unat r = fst b + 16 \<and> heap_inv 4096 4352 fh1 bs' (insert b {}) \<and> b \<notin> {}" by metis
  from r(2) [OF m] have "unat r = 4112" "heap_inv 4096 4352 fh1 [(4216, 136)] {(4096, 120)}" by simp_all
  moreover from this(1) have "r \<noteq> 0" by auto
  ultimately show thesis using that r(1) by blast
qed

theorem malloc_free_roundtrip_witness:
  "\<exists>r fh1 fh2. malloc_internal 100 small_heap = Some (r, fh1) \<and> r \<noteq> 0 \<and>
     free_internal r fh1 = Some fh2 \<and> heap_inv 4096 4352 fh2 [(4096, 256)] {}"
proof -
  obtain r fh1 where m: "malloc_internal 100 small_heap = Some (r, fh1)" "r \<noteq> 0"
    by (rule small_heap_alloc)
  from malloc_free_roundtrip [OF small_heap_inv _ _ m] m show ?thesis by auto
qed

theorem free_internal_correct_witness:
  "\<exists>fh1 fh2. heap_inv 4096 4352 fh1 [(4216, 136)] {(4096, 120)} \<and>
     free_internal (word_of_nat (4096 + 16)) fh1 = Some fh2 \<and>
     heap_inv 4096 4352 fh2 (give_back (4096, 120) [(4216, 136)]) ({(4096, 120)} - {(4096, 120)})"
proof -
  obtain r fh1 where m: "heap_inv 4096 4352 fh1 [(4216, 136)] {(4096, 120)}"
    by (rule small_heap_alloc)
  have "(4096, 120) \<in> {(4096, 120 :: nat)}" by simp
  from free_internal_correct [OF m this] m show ?thesis by blast
qed

text \<open>
  Nothing is lost: once every block has been freed, the free list is one block that spans the
  whole heap.
\<close>
theorem heap_coalesces:
  assumes "heap_inv lo hi fh bs {}" "lo < hi"
  shows "bs = [(lo, hi - lo)] \<and> unat (fst fh) = lo \<and> unat (block_size (snd fh (fst fh))) = hi - lo"
  using heap_inv_all_free [OF assms] assms(1) by (simp add: heap_inv_def)

theorem heap_coalesces_witness: "unat (block_size (snd small_heap (fst small_heap))) = 4352 - 4096"
  using heap_coalesces [OF small_heap_inv] by simp

text \<open>
  C3: whatever sequence of allocations and releases a client performs on a heap, every call
  returns and the areas the client holds never overlap.
\<close>
theorem malloc_free_sequences_safe:
  assumes "heap_inv lo hi fh bs {}" "list_all op_size_ok ops"
  shows "\<exists>held fh'. run_ops malloc_internal free_internal ops [] fh = Some (held, fh') \<and>
    held_disjoint held \<and> (\<exists>P. heap_live fh' P)"
proof -
  have "heap_live fh {}" using assms(1) by (auto simp: heap_live_def)
  moreover have "holds [] {}" by (simp add: holds_def)
  ultimately obtain held fh' P where
    "run_ops malloc_internal free_internal ops [] fh = Some (held, fh')" "heap_live fh' P" "holds held P"
    using kheap.run_ops_safe assms(2) by blast
  with kheap.holds_disjoint show ?thesis by blast
qed

theorem malloc_free_sequences_safe_witness:
  "\<exists>held fh'. run_ops malloc_internal free_internal [Alloc 40, Alloc 8, Free 4112, Alloc 100] [] small_heap =
     Some (held, fh') \<and> held_disjoint held"
  using malloc_free_sequences_safe [OF small_heap_inv, of "[Alloc 40, Alloc 8, Free 4112, Alloc 100]"] by auto

text \<open>
  C26: the size computation wraps: a request of \<open>2 ^ 64 - 16\<close> bytes becomes a request for zero
  bytes, which \<open>malloc_internal\<close> grants: it returns a pointer into the first free block, sets the
  size of that block to zero and leaves it on the free list.
\<close>
theorem malloc_internal_wraps:
  assumes "fl \<noteq> 0" "24 \<le> block_size (h fl)"
  shows "malloc_internal (- 16) (fl, h) = Some (fl + 16, fl, h(fl := (h fl)\<lparr>block_size := 0\<rparr>))"
proof -
  have "(- 16 :: u64) \<noteq> 0" by simp
  moreover have "ALIGN_UP (- 16 + 16) = 0" by (simp add: ALIGN_UP_def)
  moreover have "h(fl := \<lparr>block_size = block_size (h fl), block_next = block_next (h fl)\<rparr>) = h"
    by (intro fun_upd_idem) (cases "h fl", simp)
  ultimately show ?thesis
    using assms by (cases "h fl") (simp add: malloc_internal_def malloc_loop.simps [of 0 0 fl] link_block_def Let_def)
qed

theorem malloc_internal_wraps_witness:
  "\<exists>h'. malloc_internal (- 16) small_heap = Some (4112, 4096, h')"
  using malloc_internal_wraps [of "fst small_heap" "snd small_heap"] by (simp add: small_heap_def)

section \<open>A new heap\<close>

lemma con_line_allocator [frame_simps]:
  "kernel_data (con_line m s) = kernel_data s" "kernel_blocks (con_line m s) = kernel_blocks s"
  "process_data (con_line m s) = process_data s" "process_blocks (con_line m s) = process_blocks s"
  "kernel_heap_initialized (con_line m s) = kernel_heap_initialized s"
  "cr3 (con_line m s) = cr3 s"
  by (simp_all add: con_line_def con_print_def)

lemma heap_inv_single:
  assumes "unat (fst fh) = lo" "0 < lo" "unat (block_size (snd fh (fst fh))) = n" "block_next (snd fh (fst fh)) = 0"
    and "24 \<le> n" "8 dvd n" "8 dvd lo" "lo + n < 2 ^ 64"
  shows "heap_inv lo (lo + n) fh [(lo, n)] {}"
  using assms by (auto simp: heap_inv_def free_ok_def block_ok_def disjoint_blocks_def bytes_def)

definition heap_start :: "bool \<Rightarrow> u64" where
  "heap_start kern = (if kern then HEAP_START_KERNEL else HEAP_START)"

definition heap_view :: "bool \<Rightarrow> 'a allocator_scheme \<Rightarrow> u64 \<times> (u64 \<Rightarrow> block_t)" where
  "heap_view kern s = (if kern then kernel_view s else process_view s)"

lemma map_heap_inv:
  assumes "24 \<le> unat sz" "8 dvd unat sz" "unat sz < 2 ^ 40" "map_heap sz kern s = (True, s')"
  shows "heap_inv (unat (heap_start kern)) (unat (heap_start kern) + unat sz) (heap_view kern s')
      [(unat (heap_start kern), unat sz)] {} \<and>
    is_kernel (data s') = kern \<and> kernel_heap_initialized s'"
proof -
  from assms(4) obtain s1 where s': "s' = con_line ''[allocator] allocator heap init''
      ((init_lists sz kern s1)\<lparr>kernel_heap_initialized := True\<rparr>)"
    by (auto simp: map_heap_def Let_def split: prod.splits bool.splits)
  have view: "heap_view kern s' = heap_view kern (init_lists sz kern s1)"
    "is_kernel (data s') = kern" "kernel_heap_initialized s'"
    by (simp_all add: s' heap_view_def kernel_view_def process_view_def data_def frame_simps init_lists_def
        set_kernel_block_def set_process_block_def set_data_def)
  have "heap_inv (unat (heap_start kern)) (unat (heap_start kern) + unat sz)
      (heap_view kern (init_lists sz kern s1)) [(unat (heap_start kern), unat sz)] {}"
    by (rule heap_inv_single)
      (use assms(1-3) in \<open>simp_all add: heap_view_def heap_start_def kernel_view_def process_view_def data_def
        init_lists_def set_kernel_block_def set_process_block_def set_data_def HEAP_START_KERNEL_def HEAP_START_def\<close>)
  with view show ?thesis by simp
qed

text \<open>
  C25: \<open>allocator_heap_init\<close> refuses, by a panic, a process heap before the kernel heap and a second
  kernel heap; whenever it reports success for a size that is a multiple of eight (at least one
  block and below \<open>2 ^ 40\<close>), the new heap is one free block that satisfies the heap invariant and
  \<open>malloc\<close> will use it.
\<close>
theorem allocator_heap_init_correct:
  assumes "24 \<le> unat sz" "8 dvd unat sz" "unat sz < 2 ^ 40"
  shows "case allocator_heap_init sz kern s of
      Halted s' \<Rightarrow> kernel_heap_initialized s = kern
    | Ok ok s' \<Rightarrow> kernel_heap_initialized s \<noteq> kern \<and>
        (ok \<longrightarrow> heap_inv (unat (heap_start kern)) (unat (heap_start kern) + unat sz) (heap_view kern s')
             [(unat (heap_start kern), unat sz)] {} \<and>
           is_kernel (data s') = kern \<and> kernel_heap_initialized s')"
proof (cases "kernel_heap_initialized s = kern")
  case True
  then show ?thesis by (auto simp: allocator_heap_init_def panic_def)
next
  case False
  then have guard: "\<not> (\<not> kernel_heap_initialized s \<and> \<not> kern)" "\<not> (kernel_heap_initialized s \<and> kern)" by auto
  show ?thesis
  proof (cases "allocator_heap_init sz kern s")
    case (Ok ok s')
    have "\<exists>s1. map_heap sz kern s1 = (True, s')" if ok
      using Ok guard that
      by (auto simp: allocator_heap_init_def Let_def split: prod.splits bool.splits if_splits)
    with map_heap_inv [OF assms] False Ok show ?thesis by auto
  next
    case (Halted s')
    with guard show ?thesis
      by (auto simp: allocator_heap_init_def Let_def split: prod.splits bool.splits if_splits)
  qed
qed

text \<open>A machine on which no heap exists yet.\<close>

definition boot_allocator :: allocator where
  "boot_allocator = vmm.extend boot_vmm
     \<lparr>process_data = (\<lambda>_. \<lparr>free_list = 0, is_kernel = False, heap_size = 0\<rparr>),
      kernel_data = \<lparr>free_list = 0, is_kernel = False, heap_size = 0\<rparr>,
      process_blocks = (\<lambda>_ _. \<lparr>block_size = 0, block_next = 0\<rparr>),
      kernel_blocks = (\<lambda>_. \<lparr>block_size = 0, block_next = 0\<rparr>), kernel_heap_initialized = False\<rparr>"

theorem allocator_heap_init_correct_witness:
  "(\<exists>s'. allocator_heap_init 0x1000 False boot_allocator = Halted s') \<and>
   (case allocator_heap_init 0x1000 True boot_allocator of
      Halted s' \<Rightarrow> False
    | Ok ok s' \<Rightarrow> ok \<longrightarrow> heap_inv (unat (heap_start True)) (unat (heap_start True) + 0x1000)
        (heap_view True s') [(unat (heap_start True), 0x1000)] {})"
proof -
  have k: "\<not> kernel_heap_initialized boot_allocator" by (simp add: boot_allocator_def vmm.extend_def)
  have "24 \<le> unat (0x1000 :: u64)" "8 dvd unat (0x1000 :: u64)" "unat (0x1000 :: u64) < 2 ^ 40" by simp_all
  note r = allocator_heap_init_correct [OF this]
  have "\<exists>s'. allocator_heap_init 0x1000 False boot_allocator = Halted s'"
    using r [of boot_allocator False] k by (auto split: outcome.splits)
  moreover have "case allocator_heap_init 0x1000 True boot_allocator of
      Halted s' \<Rightarrow> False
    | Ok ok s' \<Rightarrow> ok \<longrightarrow> heap_inv (unat (heap_start True)) (unat (heap_start True) + 0x1000)
        (heap_view True s') [(unat (heap_start True), 0x1000)] {}"
    using r [of boot_allocator True] k by (auto split: outcome.splits)
  ultimately show ?thesis by blast
qed

end
