(* ===== verification/Ata.thy ===== *)
theory Ata
  imports CString "HOL-Library.Monad_Syntax"
begin

unbundle bit_operations_syntax

text \<open>
  The disk driver of \<open>src/src/filesystem.c\<close>: \<open>wait_busy\<close>, \<open>wait_data_request_ready\<close>,
  \<open>read_sectors\<close> and \<open>write_sectors\<close>, down to the port accesses. The drive behind the ports is an
  ATA disk in programmed-I/O mode, connected as the slave: registers, a data port that transfers
  16-bit words, and a status port. After each command and each sector the drive stays busy for
  some finite number of status reads, an arbitrary function \<open>latency\<close>. The polling loops are
  partial functions.
\<close>

section \<open>The drive\<close>

definition ATA_DATA :: u16 where "ATA_DATA = 0x1F0"
definition ATA_SECTORS :: u16 where "ATA_SECTORS = 0x1F2"
definition ATA_LBA_LOW :: u16 where "ATA_LBA_LOW = 0x1F3"
definition ATA_LBA_MID :: u16 where "ATA_LBA_MID = 0x1F4"
definition ATA_LBA_HIGH :: u16 where "ATA_LBA_HIGH = 0x1F5"
definition ATA_DRIVE_SELECT :: u16 where "ATA_DRIVE_SELECT = 0x1F6"
definition ATA_COMMAND_STATUS :: u16 where "ATA_COMMAND_STATUS = 0x1F7"

definition ATA_STATUS_BUSY :: u8 where "ATA_STATUS_BUSY = 0x80"
definition ATA_STATUS_DATA_REQUEST_READY :: u8 where "ATA_STATUS_DATA_REQUEST_READY = 0x08"

definition ATA_DRIVE_SELECT_SLAVE :: u8 where "ATA_DRIVE_SELECT_SLAVE = 0xB0"
definition ATA_DRIVE_SELECT_SLAVE_LBA :: u8 where "ATA_DRIVE_SELECT_SLAVE_LBA = 0xF0"

text \<open>
  A transfer in progress: the next word and the number of words left. \<open>disk\<close> is the content of
  the platter as 16-bit words, 256 to a sector.
\<close>

datatype transfer = Idle | Reading nat nat | Writing nat nat | Identifying nat

record ata_drive =
  disk :: "nat \<Rightarrow> u16"
  identity :: "nat \<Rightarrow> u16"
  attached :: bool
  packet_device :: bool
  reg_select :: u8
  reg_sectors :: u8
  reg_low :: u8
  reg_mid :: u8
  reg_high :: u8
  mode :: transfer
  busy :: nat
  latency :: "nat \<Rightarrow> nat"
  commands :: nat

text \<open>The drive becomes busy for the next latency.\<close>

definition start_busy :: "ata_drive \<Rightarrow> ata_drive" where
  "start_busy d = d\<lparr>busy := latency d (commands d), commands := Suc (commands d)\<rparr>"

definition drive_lba :: "ata_drive \<Rightarrow> nat" where
  "drive_lba d = unat (reg_low d) + 2 ^ 8 * unat (reg_mid d) + 2 ^ 16 * unat (reg_high d) +
     2 ^ 24 * unat (reg_select d AND 0x0F)"

definition drive_count :: "ata_drive \<Rightarrow> nat" where
  "drive_count d = (if reg_sectors d = 0 then 256 else unat (reg_sectors d))"

definition slave_selected :: "ata_drive \<Rightarrow> bool" where
  "slave_selected d \<longleftrightarrow> attached d \<and> bit (reg_select d) 4"

definition io_inb :: "u16 \<Rightarrow> ata_drive \<Rightarrow> u8 \<times> ata_drive" where
  "io_inb port d =
     (if \<not> slave_selected d then (0, d)
      else if port = ATA_COMMAND_STATUS then
        (if 0 < busy d then (ATA_STATUS_BUSY, d\<lparr>busy := busy d - 1\<rparr>)
         else (0x40 OR (if mode d = Idle then 0 else ATA_STATUS_DATA_REQUEST_READY), d))
      else if port = ATA_LBA_MID then (if packet_device d then 0x14 else reg_mid d, d)
      else if port = ATA_LBA_HIGH then (if packet_device d then 0xEB else reg_high d, d)
      else (0, d))"

definition io_outb :: "u16 \<Rightarrow> u8 \<Rightarrow> ata_drive \<Rightarrow> ata_drive" where
  "io_outb port v d =
     (if port = ATA_DRIVE_SELECT then d\<lparr>reg_select := v\<rparr>
      else if port = ATA_SECTORS then d\<lparr>reg_sectors := v\<rparr>
      else if port = ATA_LBA_LOW then d\<lparr>reg_low := v\<rparr>
      else if port = ATA_LBA_MID then d\<lparr>reg_mid := v\<rparr>
      else if port = ATA_LBA_HIGH then d\<lparr>reg_high := v\<rparr>
      else if port = ATA_COMMAND_STATUS \<and> slave_selected d then
        (if v = 0x20 then start_busy (d\<lparr>mode := Reading (256 * drive_lba d) (256 * drive_count d)\<rparr>)
         else if v = 0x30 then start_busy (d\<lparr>mode := Writing (256 * drive_lba d) (256 * drive_count d)\<rparr>)
         else if v = 0xEC then start_busy (d\<lparr>mode := Identifying 0\<rparr>)
         else d)
      else d)"

text \<open>After the last word of a sector the drive is busy with the next one.\<close>

definition next_sector :: "nat \<Rightarrow> ata_drive \<Rightarrow> ata_drive" where
  "next_sector left d = (if left mod 256 = 0 then start_busy d else d)"

definition io_inw :: "u16 \<Rightarrow> ata_drive \<Rightarrow> u16 \<times> ata_drive" where
  "io_inw port d =
     (if port \<noteq> ATA_DATA then (0, d)
      else (case mode d of
          Reading p (Suc left) \<Rightarrow>
            (disk d p, next_sector left (d\<lparr>mode := (if left = 0 then Idle else Reading (Suc p) left)\<rparr>))
        | Identifying i \<Rightarrow>
            (identity d i, d\<lparr>mode := (if i = 255 then Idle else Identifying (Suc i))\<rparr>)
        | _ \<Rightarrow> (0, d)))"

definition io_outw :: "u16 \<Rightarrow> u16 \<Rightarrow> ata_drive \<Rightarrow> ata_drive" where
  "io_outw port v d =
     (if port \<noteq> ATA_DATA then d
      else (case mode d of
          Writing p (Suc left) \<Rightarrow>
            next_sector left (d\<lparr>disk := (disk d)(p := v),
                               mode := (if left = 0 then Idle else Writing (Suc p) left)\<rparr>)
        | _ \<Rightarrow> d))"

section \<open>The driver\<close>

partial_function (option) wait_busy :: "ata_drive \<Rightarrow> ata_drive option" where
  "wait_busy d =
     (case io_inb ATA_COMMAND_STATUS d of (status, d1) \<Rightarrow>
        if status AND ATA_STATUS_BUSY \<noteq> 0 then wait_busy d1 else Some d1)"

partial_function (option) wait_data_request_ready :: "ata_drive \<Rightarrow> ata_drive option" where
  "wait_data_request_ready d =
     (case io_inb ATA_COMMAND_STATUS d of (status, d1) \<Rightarrow>
        if status AND ATA_STATUS_DATA_REQUEST_READY = 0 then wait_data_request_ready d1 else Some d1)"

text \<open>
  \<open>(uint8_t)ceil((double)size / SECTOR_SIZE)\<close>.
\<close>

definition sectors_of :: "u64 \<Rightarrow> u8" where
  "sectors_of sz = word_of_int (int_of_double (ceil_double (real (unat sz) / 512)))"

text \<open>\<open>t[word_idx] = data\<close> on the bytes of the target.\<close>

definition put16 :: "u8 list \<Rightarrow> nat \<Rightarrow> u16 \<Rightarrow> u8 list" where
  "put16 t w v = t[2 * w := ucast v, 2 * w + 1 := ucast (drop_bit 8 v)]"

definition get16 :: "u8 list \<Rightarrow> nat \<Rightarrow> u16" where
  "get16 s w = ucast (s ! (2 * w)) OR push_bit 8 (ucast (s ! (2 * w + 1)))"

definition send_command :: "u32 \<Rightarrow> u8 \<Rightarrow> u8 \<Rightarrow> ata_drive \<Rightarrow> ata_drive" where
  "send_command lba count command d =
     io_outb ATA_COMMAND_STATUS command
       (io_outb ATA_LBA_HIGH (ucast (drop_bit 16 lba))
         (io_outb ATA_LBA_MID (ucast (drop_bit 8 lba))
           (io_outb ATA_LBA_LOW (ucast lba)
             (io_outb ATA_SECTORS count
               (io_outb ATA_DRIVE_SELECT
                  (ATA_DRIVE_SELECT_SLAVE_LBA OR ucast (drop_bit 24 lba AND 0x0F)) d)))))"

definition read_word :: "nat \<Rightarrow> nat \<Rightarrow> nat \<Rightarrow> u8 list \<times> ata_drive \<Rightarrow> u8 list \<times> ata_drive" where
  "read_word sz j i td =
     (let word_idx = j * 256 + i; byte_idx = word_idx * 2 in
      case td of (t, d) \<Rightarrow>
        (case io_inw ATA_DATA d of (v, d1) \<Rightarrow>
           (if byte_idx < sz
            then (if byte_idx + 1 \<ge> sz then put16 t word_idx (v AND 0xFF) else put16 t word_idx v)
            else t, d1)))"

definition read_block :: "nat \<Rightarrow> nat \<Rightarrow> u8 list \<times> ata_drive \<Rightarrow> u8 list \<times> ata_drive" where
  "read_block sz j td = fold (read_word sz j) [0..<256] td"

fun read_blocks :: "nat \<Rightarrow> nat list \<Rightarrow> u8 list \<times> ata_drive \<Rightarrow> (u8 list \<times> ata_drive) option" where
  "read_blocks sz [] td = Some td"
| "read_blocks sz (j # js) (t, d) =
     do { d1 \<leftarrow> wait_busy d;
          d2 \<leftarrow> wait_data_request_ready d1;
          read_blocks sz js (read_block sz j (t, d2)) }"

definition read_sectors ::
    "u16 \<Rightarrow> u32 \<Rightarrow> u8 list \<Rightarrow> u64 \<Rightarrow> ata_drive \<Rightarrow> (u8 list \<times> ata_drive) option" where
  "read_sectors sector_count lba target sz d =
     (let count = sectors_of sz in
      if count < 1 \<or> lba + ucast count \<ge> ucast sector_count then Some (target, d)
      else
        do { d1 \<leftarrow> wait_busy d;
             read_blocks (unat sz) [0..<unat count] (target, send_command lba count 0x20 d1) })"

definition write_word :: "nat \<Rightarrow> u8 list \<Rightarrow> nat \<Rightarrow> nat \<Rightarrow> ata_drive \<Rightarrow> ata_drive" where
  "write_word sz src j i d =
     (let word_idx = j * 256 + i; byte_idx = word_idx * 2 in
      if byte_idx < sz
      then (if byte_idx + 1 \<ge> sz then io_outw ATA_DATA (ucast (src ! byte_idx)) d
            else io_outw ATA_DATA (get16 src word_idx) d)
      else io_outw ATA_DATA 0 d)"

definition write_block :: "nat \<Rightarrow> u8 list \<Rightarrow> nat \<Rightarrow> ata_drive \<Rightarrow> ata_drive" where
  "write_block sz src j d = fold (write_word sz src j) [0..<256] d"

fun write_blocks :: "nat \<Rightarrow> u8 list \<Rightarrow> nat list \<Rightarrow> ata_drive \<Rightarrow> ata_drive option" where
  "write_blocks sz src [] d = Some d"
| "write_blocks sz src (j # js) d =
     do { d1 \<leftarrow> wait_busy d;
          d2 \<leftarrow> wait_data_request_ready d1;
          write_blocks sz src js (write_block sz src j d2) }"

definition write_sectors ::
    "bool \<Rightarrow> u16 \<Rightarrow> u32 \<Rightarrow> u8 list \<Rightarrow> u64 \<Rightarrow> ata_drive \<Rightarrow> ata_drive option" where
  "write_sectors writable_drive sector_count lba src sz d =
     (let count = sectors_of sz in
      if \<not> writable_drive \<or> count < 1 \<or> lba + ucast count \<ge> ucast sector_count then Some d
      else
        do { d1 \<leftarrow> wait_busy d;
             write_blocks (unat sz) src [0..<unat count] (send_command lba count 0x30 d1) })"

section \<open>The polling loops end\<close>

lemmas port_defs = ATA_DATA_def ATA_SECTORS_def ATA_LBA_LOW_def ATA_LBA_MID_def ATA_LBA_HIGH_def
  ATA_DRIVE_SELECT_def ATA_COMMAND_STATUS_def

lemmas status_defs = ATA_STATUS_BUSY_def ATA_STATUS_DATA_REQUEST_READY_def

lemma slave_selected_update [simp]:
  "slave_selected (d\<lparr>busy := n\<rparr>) = slave_selected d"
  "slave_selected (d\<lparr>mode := m\<rparr>) = slave_selected d"
  "slave_selected (d\<lparr>disk := dk\<rparr>) = slave_selected d"
  "slave_selected (start_busy d) = slave_selected d"
  by (simp_all add: slave_selected_def start_busy_def)

lemma wait_busy_returns:
  "wait_busy d = Some (if slave_selected d then d\<lparr>busy := 0\<rparr> else d)"
proof (induction "busy d" arbitrary: d)
  case 0
  then have "d\<lparr>busy := 0\<rparr> = d" by simp
  with 0 show ?case by (subst wait_busy.simps) (simp add: io_inb_def status_defs)
next
  case (Suc n)
  show ?case
  proof (cases "slave_selected d")
    case True
    have "n = busy (d\<lparr>busy := n\<rparr>)" by simp
    from Suc.hyps(1) [OF this] True Suc.hyps(2) [symmetric] show ?thesis
      by (subst wait_busy.simps) (simp add: io_inb_def status_defs)
  next
    case False
    then show ?thesis by (subst wait_busy.simps) (simp add: io_inb_def)
  qed
qed

lemma wait_data_request_ready_returns:
  assumes "slave_selected d" "mode d \<noteq> Idle"
  shows "wait_data_request_ready d = Some (d\<lparr>busy := 0\<rparr>)"
  using assms
proof (induction "busy d" arbitrary: d)
  case 0
  then have "d\<lparr>busy := 0\<rparr> = d" by simp
  with 0 show ?case by (subst wait_data_request_ready.simps) (simp add: io_inb_def status_defs)
next
  case (Suc n)
  have n: "n = busy (d\<lparr>busy := n\<rparr>)" by simp
  have "slave_selected (d\<lparr>busy := n\<rparr>)" "mode (d\<lparr>busy := n\<rparr>) \<noteq> Idle" using Suc.prems by simp_all
  from Suc.hyps(1) [OF n this] Suc.prems Suc.hyps(2) [symmetric] show ?case
    by (subst wait_data_request_ready.simps) (simp add: io_inb_def status_defs)
qed

section \<open>Commands\<close>

text \<open>What a finished transfer leaves alone.\<close>

definition same_drive :: "ata_drive \<Rightarrow> ata_drive \<Rightarrow> bool" where
  "same_drive d d' \<longleftrightarrow> attached d' = attached d \<and> packet_device d' = packet_device d \<and>
     identity d' = identity d \<and> latency d' = latency d"

lemma same_drive_refl [simp]: "same_drive d d"
  by (simp add: same_drive_def)

lemma same_drive_trans: "same_drive a b \<Longrightarrow> same_drive b c \<Longrightarrow> same_drive a c"
  by (simp add: same_drive_def)

lemma same_drive_update [simp]:
  "same_drive d (d'\<lparr>busy := n\<rparr>) = same_drive d d'" "same_drive d (d'\<lparr>mode := m\<rparr>) = same_drive d d'"
  "same_drive d (d'\<lparr>disk := dk\<rparr>) = same_drive d d'" "same_drive d (start_busy d') = same_drive d d'"
  "same_drive d (next_sector k d') = same_drive d d'"
  by (simp_all add: same_drive_def start_busy_def next_sector_def)

lemma start_busy_sel [simp]:
  "disk (start_busy d) = disk d" "mode (start_busy d) = mode d" "attached (start_busy d) = attached d"
  by (simp_all add: start_busy_def)

lemma next_sector_sel [simp]:
  "disk (next_sector k d) = disk d" "mode (next_sector k d) = mode d"
  "attached (next_sector k d) = attached d" "slave_selected (next_sector k d) = slave_selected d"
  by (simp_all add: next_sector_def)

lemma lba_bytes:
  assumes "unat (lba :: u32) < 2 ^ 28"
  shows "unat (ucast lba :: u8) + 2 ^ 8 * unat (ucast (drop_bit 8 lba) :: u8) +
     2 ^ 16 * unat (ucast (drop_bit 16 lba) :: u8) + 2 ^ 24 * unat (ucast (drop_bit 24 lba AND 0x0F) :: u8) =
    unat lba"
proof -
  define n where "n = unat lba"
  have low: "unat (ucast lba :: u8) = n mod 256"
    by (simp add: n_def unsigned_ucast_eq take_bit_eq_mod)
  have shift: "unat (ucast (drop_bit k lba) :: u8) = n div 2 ^ k mod 256" for k
  proof -
    have "unat (drop_bit k lba) = drop_bit k (unat lba)"
      by (simp only: unsigned_drop_bit_eq take_bit_nat_eq_self unsigned_less)
    then show ?thesis
      by (simp only: unsigned_ucast_eq n_def) (simp add: take_bit_eq_mod drop_bit_eq_div)
  qed
  have "unat (ucast (drop_bit 24 lba AND 0x0F) :: u8) = n div 2 ^ 24 mod 16"
  proof -
    have m: "(0x0F :: u32) = mask 4" by (simp add: mask_eq_exp_minus_1)
    have "unat (drop_bit 24 lba AND 0x0F) = n div 2 ^ 24 mod 16"
      unfolding m take_bit_eq_mask [symmetric]
      by (simp add: n_def unat_mod unat_div take_bit_eq_mod drop_bit_eq_div)
    then show ?thesis by (simp add: unsigned_ucast_eq take_bit_eq_mod)
  qed
  moreover have "n div 2 ^ 24 < 16" using assms by (simp add: n_def less_mult_imp_div_less)
  ultimately have high: "unat (ucast (drop_bit 24 lba AND 0x0F) :: u8) = n div 2 ^ 24" by simp
  define a b c where abc: "a = n div 256" "b = a div 256" "c = b div 256"
  have parts: "n div 2 ^ 8 = a" "n div 2 ^ 16 = b" "n div 2 ^ 24 = c"
    by (simp_all add: abc div_mult2_eq [symmetric])
  have "256 * a + n mod 256 = n" "256 * b + a mod 256 = a" "256 * c + b mod 256 = b"
    by (simp_all add: abc)
  then have "n mod 256 + 2 ^ 8 * (a mod 256) + 2 ^ 16 * (b mod 256) + 2 ^ 24 * c = n" by simp
  then show ?thesis unfolding low shift high parts by (simp add: n_def)
qed

lemma select_low: "(ATA_DRIVE_SELECT_SLAVE_LBA OR ucast (x AND 0x0F :: u32)) AND 0x0F = ucast (x AND 0x0F)"
proof -
  have m: "(0x0F :: u32) = mask 4" "(0x0F :: u8) = mask 4" "ATA_DRIVE_SELECT_SLAVE_LBA = NOT (mask 4)"
    by (simp_all add: mask_eq_exp_minus_1 ATA_DRIVE_SELECT_SLAVE_LBA_def)
  show ?thesis unfolding m by (rule bit_word_eqI) (auto simp: bit_simps)
qed

lemma select_slave: "bit (ATA_DRIVE_SELECT_SLAVE_LBA OR x) 4"
  by (simp add: ATA_DRIVE_SELECT_SLAVE_LBA_def bit_simps)

lemma send_command_effect:
  assumes "attached d" "unat lba < 2 ^ 28" "count \<noteq> 0"
  shows "slave_selected (send_command lba count cmd d)" "same_drive d (send_command lba count cmd d)"
    "disk (send_command lba count cmd d) = disk d"
    "mode (send_command lba count 0x20 d) = Reading (256 * unat lba) (256 * unat count)"
    "mode (send_command lba count 0x30 d) = Writing (256 * unat lba) (256 * unat count)"
proof -
  define d1 where "d1 = d\<lparr>reg_select := ATA_DRIVE_SELECT_SLAVE_LBA OR ucast (drop_bit 24 lba AND 0x0F),
    reg_sectors := count, reg_low := ucast lba, reg_mid := ucast (drop_bit 8 lba),
    reg_high := ucast (drop_bit 16 lba)\<rparr>"
  have s: "send_command lba count c d = io_outb ATA_COMMAND_STATUS c d1" for c
    by (simp add: send_command_def io_outb_def port_defs d1_def)
  have sel: "slave_selected d1" using assms(1) select_slave by (simp add: d1_def slave_selected_def)
  have "drive_lba d1 = unat lba"
    using lba_bytes [OF assms(2)] by (simp add: drive_lba_def d1_def select_low)
  moreover have "drive_count d1 = unat count" using assms(3) by (simp add: drive_count_def d1_def)
  moreover have "same_drive d d1" "disk d1 = disk d" by (simp_all add: d1_def same_drive_def)
  ultimately show "slave_selected (send_command lba count cmd d)" "same_drive d (send_command lba count cmd d)"
    "disk (send_command lba count cmd d) = disk d"
    "mode (send_command lba count 0x20 d) = Reading (256 * unat lba) (256 * unat count)"
    "mode (send_command lba count 0x30 d) = Writing (256 * unat lba) (256 * unat count)"
    unfolding s using sel by (simp_all add: io_outb_def port_defs)
qed

section \<open>Reading\<close>

definition disk_byte :: "(nat \<Rightarrow> u16) \<Rightarrow> nat \<Rightarrow> u8" where
  "disk_byte dk b = (if even b then ucast (dk (b div 2)) else ucast (drop_bit 8 (dk (b div 2))))"

definition disk_bytes :: "(nat \<Rightarrow> u16) \<Rightarrow> nat \<Rightarrow> nat \<Rightarrow> u8 list" where
  "disk_bytes dk off n = map (\<lambda>b. disk_byte dk (off + b)) [0..<n]"

text \<open>The target after \<open>k\<close> words of a transfer that started at word \<open>p\<close> of the disk.\<close>

definition filled :: "(nat \<Rightarrow> u16) \<Rightarrow> nat \<Rightarrow> nat \<Rightarrow> u8 list \<Rightarrow> nat \<Rightarrow> u8 list" where
  "filled dk p sz t k =
     map (\<lambda>b. if b < 2 * k \<and> b < sz then disk_byte dk (2 * p + b)
               else if b < 2 * k \<and> b = sz \<and> odd sz then 0 else t ! b) [0..<length t]"

lemma filled_0 [simp]: "filled dk p sz t 0 = t"
  by (simp add: filled_def map_nth)

lemma length_filled [simp]: "length (filled dk p sz t k) = length t"
  by (simp add: filled_def)

lemma ucast_low_byte: "ucast (v AND 0xFF :: u16) = (ucast v :: u8)" "drop_bit 8 (v AND 0xFF :: u16) = 0"
proof -
  have m: "(0xFF :: u16) = mask 8" by (simp add: mask_eq_exp_minus_1)
  show "ucast (v AND 0xFF :: u16) = (ucast v :: u8)" "drop_bit 8 (v AND 0xFF :: u16) = 0"
    unfolding m by (rule bit_word_eqI, auto simp: bit_simps)+
qed

lemma filled_Suc:
  "filled dk p sz t (Suc k) =
     (if 2 * k < sz
      then put16 (filled dk p sz t k) k (if 2 * k + 1 \<ge> sz then dk (p + k) AND 0xFF else dk (p + k))
      else filled dk p sz t k)"
proof -
  have e: "disk_byte dk (2 * (p + k)) = ucast (dk (p + k))"
    "disk_byte dk (2 * (p + k) + 1) = ucast (drop_bit 8 (dk (p + k)))"
    by (simp_all add: disk_byte_def)
  show ?thesis
  proof (rule nth_equalityI)
    fix b assume b: "b < length (filled dk p sz t (Suc k))"
    then have len: "b < length t" by simp
    consider "b < 2 * k" | "b = 2 * k" | "b = 2 * k + 1" | "2 * k + 1 < b" by linarith
    then show "filled dk p sz t (Suc k) ! b =
       (if 2 * k < sz
        then put16 (filled dk p sz t k) k (if 2 * k + 1 \<ge> sz then dk (p + k) AND 0xFF else dk (p + k))
        else filled dk p sz t k) ! b"
    proof cases
      case 1
      with len show ?thesis by (simp add: filled_def put16_def nth_list_update)
    next
      case 2
      with len e show ?thesis by (auto simp: filled_def put16_def nth_list_update ucast_low_byte algebra_simps)
    next
      case 3
      then have "2 * p + b = 2 * (p + k) + 1" by simp
      with 3 len e show ?thesis
        by (auto simp: filled_def put16_def nth_list_update ucast_low_byte)
    next
      case 4
      with len show ?thesis by (simp add: filled_def put16_def nth_list_update)
    qed
  qed (simp add: put16_def)
qed

lemma read_word_step:
  assumes "mode d = Reading (p + k) (Suc left)" "k = j * 256 + i"
  shows "read_word sz j i (filled (disk d) p sz t k, d) =
    (filled (disk d) p sz t (Suc k),
     next_sector left (d\<lparr>mode := (if left = 0 then Idle else Reading (Suc (p + k)) left)\<rparr>))"
  using assms by (simp add: read_word_def io_inw_def filled_Suc Let_def mult.commute)

text \<open>One sector: 256 words.\<close>

lemma read_sector_loop:
  assumes "mode d = Reading (p + j * 256) (256 * Suc left)" "m \<le> 256"
  shows "\<exists>d'. fold (read_word sz j) [0..<m] (filled (disk d) p sz t (j * 256), d) =
      (filled (disk d) p sz t (j * 256 + m), d') \<and>
    disk d' = disk d \<and> same_drive d d' \<and> slave_selected d' = slave_selected d \<and>
    mode d' = (if m = 256 \<and> left = 0 then Idle else Reading (p + j * 256 + m) (256 * Suc left - m))"
  using assms(2)
proof (induction m)
  case 0
  with assms(1) show ?case by simp
next
  case (Suc m)
  then obtain d' where IH: "fold (read_word sz j) [0..<m] (filled (disk d) p sz t (j * 256), d) =
      (filled (disk d) p sz t (j * 256 + m), d')" "disk d' = disk d" "same_drive d d'"
    "slave_selected d' = slave_selected d" "mode d' = Reading (p + j * 256 + m) (256 * Suc left - m)"
    by auto
  have "256 * Suc left - m = Suc (256 * Suc left - Suc m)" using Suc.prems by simp
  with IH(5) have "mode d' = Reading (p + (j * 256 + m)) (Suc (256 * Suc left - Suc m))" by (simp add: add.assoc)
  from read_word_step [OF this, of j m sz t] IH(1-4) Suc.prems show ?case
    by (auto simp: add.assoc)
qed

lemma read_block_effect:
  assumes "mode d = Reading (p + j * 256) (256 * Suc left)"
  shows "\<exists>d'. read_block sz j (filled (disk d) p sz t (j * 256), d) =
      (filled (disk d) p sz t (Suc j * 256), d') \<and>
    disk d' = disk d \<and> same_drive d d' \<and> slave_selected d' = slave_selected d \<and>
    mode d' = (if left = 0 then Idle else Reading (p + Suc j * 256) (256 * left))"
proof -
  have k: "j * 256 + 256 = Suc j * 256" by simp
  show ?thesis
    using read_sector_loop [OF assms, of 256 sz t] unfolding read_block_def k by (auto simp: add.assoc k)
qed

lemma read_blocks_loop:
  assumes "mode d = (if n = 0 then Idle else Reading (p + j * 256) (256 * n))" "slave_selected d"
  shows "\<exists>d'. read_blocks sz [j..<j + n] (filled (disk d) p sz t (j * 256), d) =
      Some (filled (disk d) p sz t ((j + n) * 256), d') \<and>
    disk d' = disk d \<and> same_drive d d' \<and> mode d' = Idle"
  using assms
proof (induction n arbitrary: j d)
  case 0
  then show ?case by simp
next
  case (Suc n)
  define d1 where "d1 = d\<lparr>busy := 0\<rparr>"
  have waits: "wait_busy d = Some d1" "wait_data_request_ready d1 = Some d1"
    using Suc.prems by (simp_all add: wait_busy_returns wait_data_request_ready_returns d1_def)
  have m1: "mode d1 = Reading (p + j * 256) (256 * Suc n)" "disk d1 = disk d" "slave_selected d1"
    using Suc.prems by (simp_all add: d1_def)
  from read_block_effect [OF m1(1), of sz t] obtain d2 where d2:
    "read_block sz j (filled (disk d) p sz t (j * 256), d1) = (filled (disk d) p sz t (Suc j * 256), d2)"
    "disk d2 = disk d" "same_drive d1 d2" "slave_selected d2"
    "mode d2 = (if n = 0 then Idle else Reading (p + Suc j * 256) (256 * n))"
    using m1(2,3) by auto
  have "same_drive d d2" using d2(3) by (simp add: d1_def same_drive_def)
  with Suc.IH [OF d2(5,4)] d2(1,2) waits show ?case
    by (auto simp: upt_conv_Cons simp del: upt_Suc intro: same_drive_trans)
qed

lemma ceil_512: "\<lceil>real n / 512\<rceil> = int ((n + 511) div 512)"
proof -
  define k where "k = (n + 511) div 512"
  have "512 * k + (n + 511) mod 512 = n + 511" "(n + 511) mod 512 < 512" by (simp_all add: k_def)
  then have "n \<le> 512 * k" "512 * k < n + 512" by linarith+
  then have "real n \<le> real (512 * k)" "real (512 * k) < real (n + 512)"
    by (simp_all only: of_nat_le_iff of_nat_less_iff)
  then have "real n / 512 \<le> real k" "real k - 1 < real n / 512" by simp_all
  then show ?thesis unfolding k_def [symmetric] by (intro ceiling_unique) simp_all
qed

lemma ceil_512_double:
  assumes "n \<le> 130560"
  shows "(word_of_int (int_of_double (ceil_double (real n / 512))) :: u8) = word_of_nat ((n + 511) div 512)"
    and "(n + 511) div 512 \<le> 255"
proof -
  show k: "(n + 511) div 512 \<le> 255" using div_le_mono [of "n + 511" 131071 512] assms by simp
  have "\<bar>real n / 512\<bar> < 2 ^ 31" using assms by simp
  then have "ceil_double (real n / 512) = real ((n + 511) div 512)"
    by (simp add: ceil_double_eq ceil_512)
  moreover have "int_of_double (real ((n + 511) div 512)) = int ((n + 511) div 512)"
    using k by (subst int_of_double_in_range) (simp_all add: trunc_def)
  ultimately show "(word_of_int (int_of_double (ceil_double (real n / 512))) :: u8) = word_of_nat ((n + 511) div 512)"
    by simp
qed

lemma sectors_of_unat:
  assumes "unat sz \<le> 130560"
  shows "unat (sectors_of sz) = (unat sz + 511) div 512"
proof -
  note k = ceil_512_double [OF assms]
  have "unat (word_of_nat ((unat sz + 511) div 512) :: u8) = (unat sz + 511) div 512"
    by (rule unat_word_of_nat_less) (use k(2) in simp)
  then show ?thesis unfolding sectors_of_def k(1) .
qed

lemma length_disk_bytes [simp]: "length (disk_bytes dk off n) = n"
  by (simp add: disk_bytes_def)

lemma filled_all: "length t = sz \<Longrightarrow> sz \<le> 2 * k \<Longrightarrow> filled dk p sz t k = disk_bytes dk (2 * p) sz"
  by (auto simp: filled_def disk_bytes_def)

text \<open>The range check of the driver, for requests that do not wrap.\<close>

definition in_range :: "u16 \<Rightarrow> u32 \<Rightarrow> u64 \<Rightarrow> bool" where
  "in_range sc lba sz \<longleftrightarrow> 0 < unat sz \<and> unat sz \<le> 130560 \<and> unat lba + (unat sz + 511) div 512 < unat sc"

lemma in_range_guard:
  assumes "in_range sc lba sz"
  shows "\<not> sectors_of sz < 1" "\<not> lba + ucast (sectors_of sz) \<ge> ucast sc" "sectors_of sz \<noteq> 0"
    "unat lba < 2 ^ 28"
proof -
  have k: "unat (sectors_of sz) = (unat sz + 511) div 512" "0 < (unat sz + 511) div 512"
    using assms by (simp_all add: in_range_def sectors_of_unat div_greater_zero_iff)
  then show "sectors_of sz \<noteq> 0" by auto
  then show "\<not> sectors_of sz < 1" by (simp add: word_less_1)
  have sum: "unat lba + unat (sectors_of sz) < 65536"
    using assms k(1) unat_less_16 [of sc] unfolding in_range_def by linarith
  have "unat (ucast (sectors_of sz) :: u32) = unat (sectors_of sz)" "unat (ucast sc :: u32) = unat sc"
    by (simp_all add: unsigned_ucast_eq take_bit_nat_eq_self less_trans [OF unsigned_less])
  moreover from this have "unat (lba + ucast (sectors_of sz)) = unat lba + unat (sectors_of sz)"
    using sum by (subst unat_add_lem [THEN iffD1]) simp_all
  ultimately show "\<not> lba + ucast (sectors_of sz) \<ge> ucast sc"
    using assms k by (simp add: in_range_def word_le_nat_alt)
  show "unat lba < 2 ^ 28" using sum by simp
qed

lemma read_sectors_returns:
  assumes "attached d" "in_range sc lba sz"
  shows "\<exists>d'. read_sectors sc lba t sz d =
      Some (filled (disk d) (256 * unat lba) (unat sz) t ((unat sz + 511) div 512 * 256), d') \<and>
    disk d' = disk d \<and> same_drive d d' \<and> mode d' = Idle"
proof -
  note g = in_range_guard [OF assms(2)]
  obtain d1 where d1: "wait_busy d = Some d1" "attached d1" "disk d1 = disk d" "same_drive d d1"
    using assms(1) by (auto simp: wait_busy_returns)
  define d2 where "d2 = send_command lba (sectors_of sz) 0x20 d1"
  have k: "unat (sectors_of sz) = (unat sz + 511) div 512" "unat (sectors_of sz) \<noteq> 0"
    using assms(2) g(3) by (simp add: in_range_def sectors_of_unat, auto simp: unat_eq_zero)
  have "mode d2 = (if unat (sectors_of sz) = 0 then Idle
      else Reading (256 * unat lba + 0 * 256) (256 * unat (sectors_of sz)))" "slave_selected d2"
    using send_command_effect [OF d1(2) g(4,3)] k(2) by (simp_all add: d2_def)
  from read_blocks_loop [OF this, of "unat sz" t] d1 g k send_command_effect(2,3) [OF d1(2) g(4,3), of "0x20"]
  show ?thesis by (auto simp: read_sectors_def Let_def d2_def intro: same_drive_trans)
qed

section \<open>Writing\<close>

definition src_word :: "nat \<Rightarrow> u8 list \<Rightarrow> nat \<Rightarrow> u16" where
  "src_word sz src w =
     (if 2 * w < sz then (if 2 * w + 1 \<ge> sz then ucast (src ! (2 * w)) else get16 src w) else 0)"

text \<open>The disk after \<open>k\<close> words of a transfer that started at word \<open>p\<close>.\<close>

definition written :: "(nat \<Rightarrow> u16) \<Rightarrow> nat \<Rightarrow> nat \<Rightarrow> u8 list \<Rightarrow> nat \<Rightarrow> nat \<Rightarrow> u16" where
  "written dk p sz src k = (\<lambda>q. if p \<le> q \<and> q < p + k then src_word sz src (q - p) else dk q)"

lemma written_0 [simp]: "written dk p sz src 0 = dk"
  unfolding written_def by (rule ext) (auto dest: leD)

lemma written_Suc: "written dk p sz src (Suc k) = (written dk p sz src k)(p + k := src_word sz src k)"
  by (auto simp: written_def fun_eq_iff)

lemma write_word_step:
  assumes "mode d = Writing (p + k) (Suc left)" "k = j * 256 + i"
  shows "write_word sz src j i d =
    next_sector left (d\<lparr>disk := (disk d)(p + k := src_word sz src k),
      mode := (if left = 0 then Idle else Writing (Suc (p + k)) left)\<rparr>)"
  using assms by (simp add: write_word_def io_outw_def src_word_def Let_def mult.commute)

lemma write_sector_loop:
  assumes "mode d = Writing (p + j * 256) (256 * Suc left)" "m \<le> 256"
    and "disk d = written dk p sz src (j * 256)"
  shows "\<exists>d'. fold (write_word sz src j) [0..<m] d = d' \<and>
    disk d' = written dk p sz src (j * 256 + m) \<and> same_drive d d' \<and>
    slave_selected d' = slave_selected d \<and>
    mode d' = (if m = 256 \<and> left = 0 then Idle else Writing (p + j * 256 + m) (256 * Suc left - m))"
  using assms(2)
proof (induction m)
  case 0
  with assms(1,3) show ?case by simp
next
  case (Suc m)
  then obtain d' where IH: "fold (write_word sz src j) [0..<m] d = d'"
    "disk d' = written dk p sz src (j * 256 + m)" "same_drive d d'"
    "slave_selected d' = slave_selected d" "mode d' = Writing (p + j * 256 + m) (256 * Suc left - m)"
    by auto
  have "256 * Suc left - m = Suc (256 * Suc left - Suc m)" using Suc.prems by simp
  with IH(5) have "mode d' = Writing (p + (j * 256 + m)) (Suc (256 * Suc left - Suc m))" by (simp add: add.assoc)
  note step = write_word_step [OF this refl, of sz src]
  show ?case
  proof (cases "m = 255 \<and> left = 0")
    case True
    have "[0..<256] = [0..<255] @ [255]" using upt_Suc_append [of 0 255] by simp
    with True step IH(1-4) show ?thesis
      by (simp add: add.assoc add.commute [of 256] written_Suc [symmetric] del: upt_conv_Cons)
  next
    case False
    with Suc.prems have "256 * Suc left - Suc m \<noteq> 0" "\<not> (Suc m = 256 \<and> left = 0)" by auto
    with step IH(1-4) show ?thesis by (auto simp: add.assoc written_Suc)
  qed
qed

lemma write_block_effect:
  assumes "mode d = Writing (p + j * 256) (256 * Suc left)" "disk d = written dk p sz src (j * 256)"
  shows "disk (write_block sz src j d) = written dk p sz src (Suc j * 256) \<and>
    same_drive d (write_block sz src j d) \<and>
    slave_selected (write_block sz src j d) = slave_selected d \<and>
    mode (write_block sz src j d) = (if left = 0 then Idle else Writing (p + Suc j * 256) (256 * left))"
proof -
  have k: "j * 256 + 256 = Suc j * 256" by simp
  show ?thesis
    using write_sector_loop [OF assms(1) _ assms(2), of 256] unfolding write_block_def k by (auto simp: add.assoc k)
qed

lemma write_blocks_loop:
  assumes "mode d = (if n = 0 then Idle else Writing (p + j * 256) (256 * n))" "slave_selected d"
    and "disk d = written dk p sz src (j * 256)"
  shows "\<exists>d'. write_blocks sz src [j..<j + n] d = Some d' \<and>
    disk d' = written dk p sz src ((j + n) * 256) \<and> same_drive d d' \<and> mode d' = Idle"
  using assms
proof (induction n arbitrary: j d)
  case 0
  then show ?case by simp
next
  case (Suc n)
  define d1 where "d1 = d\<lparr>busy := 0\<rparr>"
  have waits: "wait_busy d = Some d1" "wait_data_request_ready d1 = Some d1"
    using Suc.prems by (simp_all add: wait_busy_returns wait_data_request_ready_returns d1_def)
  have m1: "mode d1 = Writing (p + j * 256) (256 * Suc n)" "disk d1 = written dk p sz src (j * 256)"
    "slave_selected d1"
    using Suc.prems by (simp_all add: d1_def)
  define d2 where "d2 = write_block sz src j d1"
  from write_block_effect [OF m1(1,2)] m1(3) have d2: "disk d2 = written dk p sz src (Suc j * 256)"
    "same_drive d1 d2" "slave_selected d2"
    "mode d2 = (if n = 0 then Idle else Writing (p + Suc j * 256) (256 * n))"
    unfolding d2_def by auto
  have "same_drive d d2" using d2(2) by (simp add: d1_def same_drive_def)
  with Suc.IH [OF d2(4,3,1)] waits show ?case
    by (auto simp: upt_conv_Cons d2_def simp del: upt_Suc intro: same_drive_trans)
qed

lemma write_sectors_returns:
  assumes "attached d" "in_range sc lba sz"
  shows "\<exists>d'. write_sectors True sc lba src sz d = Some d' \<and>
    disk d' = written (disk d) (256 * unat lba) (unat sz) src ((unat sz + 511) div 512 * 256) \<and>
    same_drive d d' \<and> mode d' = Idle"
proof -
  note g = in_range_guard [OF assms(2)]
  obtain d1 where d1: "wait_busy d = Some d1" "attached d1" "disk d1 = disk d" "same_drive d d1"
    using assms(1) by (auto simp: wait_busy_returns)
  define d2 where "d2 = send_command lba (sectors_of sz) 0x30 d1"
  have k: "unat (sectors_of sz) = (unat sz + 511) div 512" "unat (sectors_of sz) \<noteq> 0"
    using assms(2) g(3) by (simp add: in_range_def sectors_of_unat, auto simp: unat_eq_zero)
  have "mode d2 = (if unat (sectors_of sz) = 0 then Idle
      else Writing (256 * unat lba + 0 * 256) (256 * unat (sectors_of sz)))" "slave_selected d2"
    "disk d2 = written (disk d) (256 * unat lba) (unat sz) src (0 * 256)"
    using send_command_effect [OF d1(2) g(4,3)] k(2) d1(3) by (simp_all add: d2_def)
  from write_blocks_loop [OF this] d1 g k send_command_effect(2) [OF d1(2) g(4,3), of "0x30"]
  show ?thesis by (auto simp: write_sectors_def Let_def d2_def intro: same_drive_trans)
qed

section \<open>Round trip\<close>

lemma ucast_ucast_16 [simp]: "(ucast (ucast (x :: u8) :: u16) :: u8) = x"
  by (rule bit_word_eqI) (auto simp: bit_simps)

lemma get16_bytes: "ucast (get16 s w) = s ! (2 * w)" "ucast (drop_bit 8 (get16 s w)) = s ! (2 * w + 1)"
  unfolding get16_def by (rule bit_word_eqI, auto simp: bit_simps dest: bit_imp_le_length)+

lemma disk_byte_written:
  assumes "b < sz" "sz \<le> 2 * k" "length src \<ge> sz"
  shows "disk_byte (written dk p sz src k) (2 * p + b) = src ! b"
proof -
  have q: "(2 * p + b) div 2 = p + b div 2" by simp
  have "b div 2 < k" using assms by linarith
  then have w: "written dk p sz src k (p + b div 2) = src_word sz src (b div 2)" by (simp add: written_def)
  show ?thesis
  proof (cases "even b")
    case True
    then have "2 * (b div 2) = b" by simp
    with True assms w q show ?thesis
      by (auto simp: disk_byte_def src_word_def get16_bytes)
  next
    case False
    then have "2 * (b div 2) + 1 = b" by simp
    with False assms w q show ?thesis
      by (auto simp: disk_byte_def src_word_def get16_bytes)
  qed
qed

lemma disk_bytes_written:
  assumes "sz \<le> 2 * k" "sz \<le> length src"
  shows "disk_bytes (written dk p sz src k) (2 * p) sz = take sz src"
  using assms by (auto intro!: nth_equalityI simp: disk_bytes_def disk_byte_written)

lemma disk_bytes_elsewhere:
  assumes "off + n \<le> 2 * p \<or> 2 * (p + k) \<le> off"
  shows "disk_bytes (written dk p sz src k) off n = disk_bytes dk off n"
proof -
  have "written dk p sz src k ((off + b) div 2) = dk ((off + b) div 2)" if "b < n" for b
    using assms that by (auto simp: written_def)
  then show ?thesis by (auto simp: disk_bytes_def disk_byte_def)
qed

section \<open>The device the file system relies on\<close>

definition sectors_needed_by :: "u64 \<Rightarrow> nat" where
  "sectors_needed_by sz = (unat sz + 511) div 512"

definition sectors_apart :: "u32 \<Rightarrow> u64 \<Rightarrow> u32 \<Rightarrow> u64 \<Rightarrow> bool" where
  "sectors_apart lba sz lba' sz' \<longleftrightarrow>
     unat lba + sectors_needed_by sz \<le> unat lba' \<or> unat lba' + sectors_needed_by sz' \<le> unat lba"

text \<open>
  A device of 512-byte sectors: \<open>content\<close> gives the bytes of a range. Reads inside the device
  return the content, writes replace it, up to the end of the last sector, and keep the rest.
\<close>

locale sector_device =
  fixes rd :: "u16 \<Rightarrow> u32 \<Rightarrow> u8 list \<Rightarrow> u64 \<Rightarrow> 'd \<Rightarrow> (u8 list \<times> 'd) option"
    and wr :: "u16 \<Rightarrow> u32 \<Rightarrow> u8 list \<Rightarrow> u64 \<Rightarrow> 'd \<Rightarrow> 'd option"
    and content :: "'d \<Rightarrow> nat \<Rightarrow> nat \<Rightarrow> u8 list"
    and ready :: "'d \<Rightarrow> bool"
  assumes rd_in_range: "ready d \<Longrightarrow> in_range sc lba sz \<Longrightarrow> length t = unat sz \<Longrightarrow>
      \<exists>d'. rd sc lba t sz d = Some (content d (512 * unat lba) (unat sz), d') \<and> ready d' \<and>
        content d' = content d"
    and wr_in_range: "ready d \<Longrightarrow> in_range sc lba sz \<Longrightarrow> unat sz \<le> length src \<Longrightarrow>
      \<exists>d'. wr sc lba src sz d = Some d' \<and> ready d' \<and>
        content d' (512 * unat lba) (unat sz) = take (unat sz) src \<and>
        (\<forall>off n. off + n \<le> 512 * unat lba \<or> 512 * (unat lba + sectors_needed_by sz) \<le> off \<longrightarrow>
           content d' off n = content d off n)"
begin

lemma sectors_needed_by_bytes: "unat sz \<le> 512 * sectors_needed_by sz"
  unfolding sectors_needed_by_def by (simp add: mult.commute)

lemma write_read:
  assumes "ready d" "in_range sc lba sz" "unat sz \<le> length src" "length t = unat sz"
  shows "\<exists>d'. wr sc lba src sz d = Some d' \<and> ready d' \<and>
    (\<exists>d''. rd sc lba t sz d' = Some (take (unat sz) src, d'')) \<and>
    (\<forall>lba' sz' t'. in_range sc lba' sz' \<and> length t' = unat sz' \<and> sectors_apart lba sz lba' sz' \<longrightarrow>
      map_option fst (rd sc lba' t' sz' d') = map_option fst (rd sc lba' t' sz' d))"
proof -
  from wr_in_range [OF assms(1-3)] obtain d' where d': "wr sc lba src sz d = Some d'" "ready d'"
    "content d' (512 * unat lba) (unat sz) = take (unat sz) src"
    and other: "\<And>off n. off + n \<le> 512 * unat lba \<or> 512 * (unat lba + sectors_needed_by sz) \<le> off \<Longrightarrow>
      content d' off n = content d off n" by blast
  have "\<exists>d''. rd sc lba t sz d' = Some (take (unat sz) src, d'')"
    using rd_in_range [OF d'(2) assms(2,4)] d'(3) by auto
  moreover have "map_option fst (rd sc lba' t' sz' d') = map_option fst (rd sc lba' t' sz' d)"
    if r: "in_range sc lba' sz'" "length t' = unat sz'" and apart: "sectors_apart lba sz lba' sz'" for lba' sz' t'
  proof -
    have "512 * unat lba' + unat sz' \<le> 512 * unat lba \<or> 512 * (unat lba + sectors_needed_by sz) \<le> 512 * unat lba'"
      using apart sectors_needed_by_bytes [of sz'] unfolding sectors_apart_def
      by (elim disjE) (simp_all add: order.trans [OF add_left_mono])
    from other [OF this] rd_in_range [OF d'(2) r] rd_in_range [OF assms(1) r] show ?thesis by auto
  qed
  ultimately show ?thesis using d' by blast
qed

end

interpretation ata: sector_device read_sectors "write_sectors True" "\<lambda>d. disk_bytes (disk d)" attached
proof
  fix d :: ata_drive and sc lba sz and t :: "u8 list"
  assume a: "attached d" "in_range sc lba sz" and t: "length t = unat sz"
  have "2 * (256 * unat lba) = 512 * unat lba" by simp
  moreover have "unat sz \<le> 2 * ((unat sz + 511) div 512 * 256)" by simp
  ultimately show "\<exists>d'. read_sectors sc lba t sz d = Some (disk_bytes (disk d) (512 * unat lba) (unat sz), d') \<and>
      attached d' \<and> disk_bytes (disk d') = disk_bytes (disk d)"
    using read_sectors_returns [OF a, of t] filled_all [OF t] a(1) by (auto simp: same_drive_def)
next
  fix d :: ata_drive and sc lba sz and src :: "u8 list"
  assume a: "attached d" "in_range sc lba sz" and s: "unat sz \<le> length src"
  define k where "k = (unat sz + 511) div 512 * 256"
  have k: "unat sz \<le> 2 * k" "2 * (256 * unat lba) = 512 * unat lba"
    "2 * (256 * unat lba + k) = 512 * (unat lba + sectors_needed_by sz)"
    by (simp_all add: k_def sectors_needed_by_def)
  from write_sectors_returns [OF a, of src] obtain d' where d': "write_sectors True sc lba src sz d = Some d'"
    "disk d' = written (disk d) (256 * unat lba) (unat sz) src k" "same_drive d d'" unfolding k_def by blast
  have "disk_bytes (disk d') (512 * unat lba) (unat sz) = take (unat sz) src"
    using disk_bytes_written [OF k(1) s, of "disk d" "256 * unat lba"] unfolding d'(2) k(2) .
  moreover have "disk_bytes (disk d') off n = disk_bytes (disk d) off n"
    if "off + n \<le> 512 * unat lba \<or> 512 * (unat lba + sectors_needed_by sz) \<le> off" for off n
    unfolding d'(2) by (rule disk_bytes_elsewhere) (use that k in linarith)
  ultimately show "\<exists>d'. write_sectors True sc lba src sz d = Some d' \<and> attached d' \<and>
      disk_bytes (disk d') (512 * unat lba) (unat sz) = take (unat sz) src \<and>
      (\<forall>off n. off + n \<le> 512 * unat lba \<or> 512 * (unat lba + sectors_needed_by sz) \<le> off \<longrightarrow>
         disk_bytes (disk d') off n = disk_bytes (disk d) off n)"
    using d'(1,3) a(1) unfolding same_drive_def by blast
qed

text \<open>
  C13: the disk driver returns for every drive latency; what \<open>write_sectors\<close> wrote is what
  \<open>read_sectors\<close> returns, and reads of other sectors return what they returned before.
\<close>
theorem write_sectors_read_sectors:
  assumes "attached d" "in_range sc lba sz" "unat sz \<le> length src" "length t = unat sz"
  shows "\<exists>d'. write_sectors True sc lba src sz d = Some d' \<and> attached d' \<and>
    (\<exists>d''. read_sectors sc lba t sz d' = Some (take (unat sz) src, d'')) \<and>
    (\<forall>lba' sz' t'. in_range sc lba' sz' \<and> length t' = unat sz' \<and> sectors_apart lba sz lba' sz' \<longrightarrow>
      map_option fst (read_sectors sc lba' t' sz' d') = map_option fst (read_sectors sc lba' t' sz' d))"
  by (rule ata.write_read [OF assms])

definition blank_drive :: ata_drive where
  "blank_drive = \<lparr>disk = (\<lambda>_. 0), identity = (\<lambda>i. if i = 60 then 4096 else 0), attached = True,
     packet_device = False, reg_select = 0, reg_sectors = 0, reg_low = 0, reg_mid = 0, reg_high = 0,
     mode = Idle, busy = 0, latency = (\<lambda>n. n mod 7), commands = 0\<rparr>"

theorem write_sectors_read_sectors_witness:
  "\<exists>d' d''. write_sectors True 4096 700 (str ''Eitan OS'') 8 blank_drive = Some d' \<and>
     read_sectors 4096 700 (replicate 8 0) 8 d' = Some (str ''Eitan OS'', d'')"
proof -
  have "attached blank_drive" "in_range 4096 700 8" by (simp_all add: blank_drive_def in_range_def)
  moreover have "take 8 (str ''Eitan OS'') = str ''Eitan OS''" by (simp add: str_def)
  ultimately show ?thesis
    using write_sectors_read_sectors [of blank_drive 4096 700 8 "str ''Eitan OS''" "replicate 8 0"]
    by (auto simp: str_def)
qed

end
