(* ===== verification/Filesystem.thy ===== *)
theory Filesystem
  imports HeapSafety Ata
begin

unbundle bit_operations_syntax

text \<open>
  The file system of \<open>src/src/filesystem.c\<close>: a superblock in sector 0, a table of 640 file entries
  in sectors 1 to 20, file contents and directory listings in the sectors after it. Every
  operation loads the table, works on the copy in memory, writes it back and frees it.

  The state extends the allocator's: the drive, the static variables, the table. An operation
  returns \<open>None\<close> if a polling loop or a recursion never ends. Buffers on the heap are values:
  \<open>junk s k\<close> is what the \<open>k\<close>-th buffer contains before it is written, and the table beyond its
  640 entries holds whatever memory lies behind the block. \<open>ub\<close> records that an operation wrote
  outside a buffer or asked for more memory than the heap has.
\<close>

section \<open>State\<close>

record file_entry_t =
  magic_number :: u32
  ftype :: u32
  start_sector :: u32
  fsize :: u32

record file_metadata_t =
  msize :: u64
  mtype :: u32
  mname :: "u8 list"

definition FILE :: u32 where "FILE = 0"
definition DIRECTORY :: u32 where "DIRECTORY = 1"
definition ROOT_DIRECTORY :: u32 where "ROOT_DIRECTORY = 2"

definition MAGIC_NUMBER :: u32 where "MAGIC_NUMBER = 0xE17A9055"
definition SECTOR_SIZE :: nat where "SECTOR_SIZE = 512"
definition FILE_TABLE_SECTORS :: nat where "FILE_TABLE_SECTORS = 20"
definition FILE_TABLE_ENTRIES :: nat where "FILE_TABLE_ENTRIES = 640"
definition FILE_TABLE_SIZE :: nat where "FILE_TABLE_SIZE = 10240"
definition FILE_NAME_LENGTH :: nat where "FILE_NAME_LENGTH = 60"

record fs = allocator +
  drive :: ata_drive
  model :: "u8 list"
  sector_count :: u16
  writable_drive :: bool
  file_table :: "(nat \<Rightarrow> file_entry_t) option"
  junk :: "nat \<Rightarrow> nat \<Rightarrow> u8"
  mallocs :: nat
  ub :: bool

definition flag_ub :: "bool \<Rightarrow> 'a fs_scheme \<Rightarrow> 'a fs_scheme" where
  "flag_ub b s = s\<lparr>ub := ub s \<or> b\<rparr>"

definition fs_malloc :: "nat \<Rightarrow> 'a fs_scheme \<Rightarrow> u8 list \<times> 'a fs_scheme" where
  "fs_malloc n s =
     (map (junk s (mallocs s)) [0..<n], flag_ub (n > unat HEAP_SIZE) (s\<lparr>mallocs := Suc (mallocs s)\<rparr>))"

definition fs_print_concats :: "cstr list \<Rightarrow> 'a fs_scheme \<Rightarrow> 'a fs_scheme" where
  "fs_print_concats ss s = con_print (case str_concats ss of None \<Rightarrow> [] | Some m \<Rightarrow> m) s"

definition fs_num :: "real \<Rightarrow> 'a fs_scheme \<Rightarrow> cstr" where
  "fs_num x s = (case num_to_str (junk s (mallocs s)) x of None \<Rightarrow> [] | Some n \<Rightarrow> n)"

section \<open>Identifying the drive\<close>

definition on_drive :: "(ata_drive \<Rightarrow> ata_drive option) \<Rightarrow> 'a fs_scheme \<Rightarrow> 'a fs_scheme option" where
  "on_drive f s = map_option (\<lambda>d. s\<lparr>drive := d\<rparr>) (f (drive s))"

fun read_identity :: "nat \<Rightarrow> ata_drive \<Rightarrow> u16 list \<times> ata_drive" where
  "read_identity 0 d = ([], d)"
| "read_identity (Suc n) d =
     (case io_inw ATA_DATA d of (v, d1) \<Rightarrow>
        case read_identity n d1 of (vs, d2) \<Rightarrow> (v # vs, d2))"

definition send_identify :: "ata_drive \<Rightarrow> ata_drive" where
  "send_identify d =
     io_outb ATA_COMMAND_STATUS 0xEC
       (io_outb ATA_LBA_HIGH 0 (io_outb ATA_LBA_MID 0 (io_outb ATA_LBA_LOW 0
         (io_outb ATA_SECTORS 0 (io_outb ATA_DRIVE_SELECT ATA_DRIVE_SELECT_SLAVE d)))))"

definition model_of :: "u16 list \<Rightarrow> u8 list" where
  "model_of ident =
     concat (map (\<lambda>i. [ucast (drop_bit 8 (ident ! (27 + i))), ucast (ident ! (27 + i) AND 0xFF)]) [0..<20]) @ [0]"

definition print_drive :: "'a fs_scheme \<Rightarrow> 'a fs_scheme" where
  "print_drive s =
     (let n = unat (sector_count s) * SECTOR_SIZE in
      fs_print_concats
        [str ''[filesystem] sector count: '', fs_num (real (unat (sector_count s))) s, str '', disk size: '',
         fs_num (real n) s, str ''B '', fs_num (real (n div 1000)) s, str ''KB '',
         fs_num (real (n div 1000000)) s, str ''MB '', fs_num (real (n div 1000000000)) s, str ''GB'', [10]] s)"

definition identify_drive :: "'a fs_scheme \<Rightarrow> (unit, 'a fs_scheme) outcome option" where
  "identify_drive s =
     (let s1 = con_line ''[filesystem] identifying drive'' s;
          s2 = con_line ''[filesystem] sent identify command to drive'' (s1\<lparr>drive := send_identify (drive s1)\<rparr>)
      in case io_inb ATA_COMMAND_STATUS (drive s2) of (status, d3) \<Rightarrow>
        let s3 = s2\<lparr>drive := d3\<rparr> in
        if status = 0 then Some (panic (str ''drive does not exist'') s3)
        else do {
          s4 \<leftarrow> on_drive wait_busy (con_line ''[filesystem] drive exists'' s3);
          let s5 = s4\<lparr>writable_drive := True\<rparr>;
          if fst (io_inb ATA_LBA_MID (drive s5)) \<noteq> 0 \<or> fst (io_inb ATA_LBA_HIGH (drive s5)) \<noteq> 0
          then Some (panic (str ''not a writeable drive'') (s5\<lparr>writable_drive := False\<rparr>))
          else do {
            s6 \<leftarrow> on_drive wait_data_request_ready (con_line ''[filesystem] drive is writeable'' s5);
            (case read_identity 256 (drive s6) of (ident, d7) \<Rightarrow>
              let s7 = con_line ''[filesystem] read identifying data from drive:'' (s6\<lparr>drive := d7\<rparr>);
                  s8 = s7\<lparr>model := model_of ident\<rparr>;
                  s9 = fs_print_concats [str ''[filesystem] the disk model connected: '',
                         takeWhile ((\<noteq>) 0) (model s8), [10]] s8
              in Some (Ok () (print_drive (s9\<lparr>sector_count := ident ! 60\<rparr>)))) } })"

section \<open>Sectors and the file table\<close>

definition fs_read :: "u32 \<Rightarrow> u8 list \<Rightarrow> u64 \<Rightarrow> 'a fs_scheme \<Rightarrow> (u8 list \<times> 'a fs_scheme) option" where
  "fs_read lba target sz s =
     map_option (\<lambda>(t, d). (t, s\<lparr>drive := d\<rparr>)) (read_sectors (sector_count s) lba target sz (drive s))"

definition fs_write :: "u32 \<Rightarrow> u8 list \<Rightarrow> u64 \<Rightarrow> 'a fs_scheme \<Rightarrow> 'a fs_scheme option" where
  "fs_write lba src sz s =
     map_option (\<lambda>d. s\<lparr>drive := d\<rparr>) (write_sectors (writable_drive s) (sector_count s) lba src sz (drive s))"

definition superblock_bytes :: "u16 \<Rightarrow> u8 list" where
  "superblock_bytes sectors =
     le32_bytes MAGIC_NUMBER @ le16_bytes 1 @ le32_bytes (ucast sectors) @ le32_bytes 1 @
     le32_bytes (word_of_nat FILE_TABLE_SECTORS) @ le16_bytes (word_of_nat SECTOR_SIZE)"

definition init_superblock :: "'a fs_scheme \<Rightarrow> 'a fs_scheme option" where
  "init_superblock s =
     map_option (con_line ''[filesystem] wrote superblock'')
       (fs_write 0 (superblock_bytes (sector_count s)) 20 s)"

definition entry_bytes :: "file_entry_t \<Rightarrow> u8 list" where
  "entry_bytes e = le32_bytes (magic_number e) @ le32_bytes (ftype e) @ le32_bytes (start_sector e) @
     le32_bytes (fsize e)"

definition entry_at :: "u8 list \<Rightarrow> nat \<Rightarrow> file_entry_t" where
  "entry_at bs off = \<lparr>magic_number = le32_at bs off, ftype = le32_at bs (off + 4),
     start_sector = le32_at bs (off + 8), fsize = le32_at bs (off + 12)\<rparr>"

definition table_bytes :: "(nat \<Rightarrow> file_entry_t) \<Rightarrow> u8 list" where
  "table_bytes ft = concat (map (\<lambda>i. entry_bytes (ft i)) [0..<FILE_TABLE_ENTRIES])"

text \<open>The table over a buffer; entries beyond it are read from the memory behind.\<close>

definition table_of :: "u8 list \<Rightarrow> (nat \<Rightarrow> u8) \<Rightarrow> nat \<Rightarrow> file_entry_t" where
  "table_of bs behind i =
     (if i < FILE_TABLE_ENTRIES then entry_at bs (16 * i) else entry_at (map behind [16 * i..<16 * i + 16]) 0)"

definition zero_entry :: file_entry_t where
  "zero_entry = \<lparr>magic_number = 0, ftype = 0, start_sector = 0, fsize = 0\<rparr>"

definition free_file_table :: "'a fs_scheme \<Rightarrow> 'a fs_scheme" where
  "free_file_table s = s\<lparr>file_table := None\<rparr>"

definition load_file_table :: "'a fs_scheme \<Rightarrow> 'a fs_scheme option" where
  "load_file_table s =
     (let s1 = (if file_table s \<noteq> None then free_file_table s else s);
          behind = junk s1 (mallocs s1)
      in case fs_malloc FILE_TABLE_SIZE s1 of (buf, s2) \<Rightarrow>
        do { (bs, s3) \<leftarrow> fs_read 1 buf (word_of_nat FILE_TABLE_SIZE) s2;
             Some (s3\<lparr>file_table := Some (table_of bs behind)\<rparr>) })"

definition table :: "'a fs_scheme \<Rightarrow> nat \<Rightarrow> file_entry_t" where
  "table s = the (file_table s)"

definition set_entry_at :: "nat \<Rightarrow> file_entry_t \<Rightarrow> 'a fs_scheme \<Rightarrow> 'a fs_scheme" where
  "set_entry_at i e s = flag_ub (i \<ge> FILE_TABLE_ENTRIES) (s\<lparr>file_table := Some ((table s)(i := e))\<rparr>)"

definition save_file_table :: "'a fs_scheme \<Rightarrow> 'a fs_scheme option" where
  "save_file_table s = fs_write 1 (table_bytes (table s)) (word_of_nat FILE_TABLE_SIZE) s"

definition find_root :: "(nat \<Rightarrow> file_entry_t) \<Rightarrow> nat option" where
  "find_root ft =
     List.find (\<lambda>i. magic_number (ft i) = MAGIC_NUMBER \<and> ftype (ft i) = ROOT_DIRECTORY) [0..<FILE_TABLE_ENTRIES]"

definition ensure_root :: "'a fs_scheme \<Rightarrow> 'a fs_scheme option" where
  "ensure_root s = do {
     s0 \<leftarrow> load_file_table s;
     let s1 = con_line ''[filesystem] searching for root'' s0;
     if find_root (table s1) \<noteq> None then Some (con_line ''[filesystem] found root'' s1)
     else do {
       let s2 = con_line ''[filesystem] root wasn't found, creating root...'' s1;
       let s3 = s2\<lparr>file_table := Some (\<lambda>i. if i < FILE_TABLE_ENTRIES then zero_entry else table s2 i)\<rparr>;
       let s4 = con_line ''[filesystem] deleted file table'' s3;
       let s5 = set_entry_at 0 \<lparr>magic_number = MAGIC_NUMBER, ftype = ROOT_DIRECTORY,
                  start_sector = word_of_nat (1 + FILE_TABLE_SECTORS), fsize = 0\<rparr> s4;
       s6 \<leftarrow> save_file_table (con_line ''[filesystem] created root entry'' s5);
       Some (free_file_table (con_line ''[filesystem] saved new file table with root'' s6)) } }"

definition filesystem_init :: "'a fs_scheme \<Rightarrow> (unit, 'a fs_scheme) outcome option" where
  "filesystem_init s = do {
     r \<leftarrow> identify_drive s;
     (case r of
        Halted t \<Rightarrow> Some (Halted t)
      | Ok _ s1 \<Rightarrow> do {
          s2 \<leftarrow> init_superblock s1;
          s3 \<leftarrow> ensure_root s2;
          Some (Ok () (con_line ''[filesystem] filesystem init'' s3)) }) }"

section \<open>Paths\<close>

text \<open>The loop of \<open>is_valid_path\<close>; \<open>long\<close> is the case that \<open>strlen\<close> gave up.\<close>

fun path_loop :: "bool \<Rightarrow> bool \<Rightarrow> cstr \<Rightarrow> nat \<Rightarrow> bool" where
  "path_loop long nonroot [] component_len = (\<not> long \<and> \<not> (component_len = 0 \<and> nonroot))"
| "path_loop long nonroot (c # cs) component_len =
     (if c = 47 then (if component_len = 0 then False else path_loop long nonroot cs 0)
      else if Suc component_len > FILE_NAME_LENGTH then False
      else path_loop long nonroot cs (Suc component_len))"

definition is_valid_path :: "cstr option \<Rightarrow> bool" where
  "is_valid_path path =
     (case path of
        None \<Rightarrow> False
      | Some p \<Rightarrow> p \<noteq> [] \<and> hd p = 47 \<and> strlen p \<noteq> 0 \<and> path_loop (strlen p < 0) (length p > 1) (tl p) 0)"

definition dir_name :: "u8 list \<Rightarrow> nat \<Rightarrow> cstr" where
  "dir_name buf j = takeWhile ((\<noteq>) 0) (drop (64 * j) buf)"

definition dir_index :: "u8 list \<Rightarrow> nat \<Rightarrow> u32" where
  "dir_index buf j = le32_at buf (64 * j + 60)"

definition dir_search :: "(nat \<Rightarrow> file_entry_t) \<Rightarrow> u8 list \<Rightarrow> nat \<Rightarrow> cstr \<Rightarrow> bool \<Rightarrow> nat option" where
  "dir_search ft buf count part is_last_part =
     map_option (\<lambda>j. unat (dir_index buf j))
       (List.find (\<lambda>j. strcmp (dir_name buf j) part \<and>
            magic_number (ft (unat (dir_index buf j))) = MAGIC_NUMBER \<and>
            (ftype (ft (unat (dir_index buf j))) = DIRECTORY \<or> is_last_part)) [0..<count])"

text \<open>\<open>malloc(size)\<close> followed by reading the file's sectors into the buffer.\<close>

definition read_entry :: "file_entry_t \<Rightarrow> 'a fs_scheme \<Rightarrow> (u8 list \<times> 'a fs_scheme) option" where
  "read_entry e s =
     (case fs_malloc (unat (fsize e)) s of (buf, s1) \<Rightarrow> fs_read (start_sector e) buf (ucast (fsize e)) s1)"

fun resolve_loop :: "cstr list \<Rightarrow> nat \<Rightarrow> 'a fs_scheme \<Rightarrow> (nat option \<times> 'a fs_scheme) option" where
  "resolve_loop [] current_index s = Some (Some current_index, s)"
| "resolve_loop (part # parts) current_index s =
     (let e = table s current_index in
      if fsize e = 0 then Some (None, s)
      else do {
        (buf, s1) \<leftarrow> read_entry e s;
        (case dir_search (table s1) buf (unat (fsize e) div 64) part (parts = []) of
           None \<Rightarrow> Some (None, s1)
         | Some i \<Rightarrow> resolve_loop parts i s1) })"

definition resolve_path :: "cstr \<Rightarrow> 'a fs_scheme \<Rightarrow> (nat option \<times> 'a fs_scheme) option" where
  "resolve_path path s =
     (if strlen path = 0 then Some (None, s)
      else if hd path \<noteq> 47 then Some (None, s)
      else case find_root (table s) of
             None \<Rightarrow> Some (None, s)
           | Some root_index \<Rightarrow> resolve_loop (str_split 47 path) root_index s)"

text \<open>The callers only split paths that passed \<open>is_valid_path\<close>, which contain a slash.\<close>

definition split_path :: "cstr \<Rightarrow> cstr \<times> cstr" where
  "split_path path =
     (case strrchr path 47 of
        Some last_slash_idx \<Rightarrow> (take (last_slash_idx + 1) path, drop (last_slash_idx + 1) path)
      | None \<Rightarrow> ([], path))"

section \<open>Reading\<close>

text \<open>
  The common opening of the operations on an existing file: a valid path is looked up in a
  freshly loaded table. \<open>None\<close> stands for the early \<open>return false\<close>, after the table is freed.
\<close>

definition lookup_file :: "cstr option \<Rightarrow> 'a fs_scheme \<Rightarrow> (nat option \<times> 'a fs_scheme) option" where
  "lookup_file path s =
     (if \<not> is_valid_path path then Some (None, s)
      else do {
        s1 \<leftarrow> load_file_table s;
        (r, s2) \<leftarrow> resolve_path (the path) s1;
        (case r of
           None \<Rightarrow> Some (None, free_file_table s2)
         | Some file_index \<Rightarrow>
             if magic_number (table s2 file_index) \<noteq> MAGIC_NUMBER then Some (None, free_file_table s2)
             else Some (Some file_index, s2)) })"

definition filesystem_read_file ::
    "cstr option \<Rightarrow> u8 list \<Rightarrow> 'a fs_scheme \<Rightarrow> ((bool \<times> u8 list) \<times> 'a fs_scheme) option" where
  "filesystem_read_file path data_out s = do {
     (r, s1) \<leftarrow> lookup_file path s;
     (case r of
        None \<Rightarrow> Some ((False, data_out), s1)
      | Some file_index \<Rightarrow> do {
          let file_entry = table s1 file_index;
          (out, s2) \<leftarrow> fs_read (start_sector file_entry) data_out (ucast (fsize file_entry)) s1;
          Some ((True, out), free_file_table s2) }) }"

text \<open>\<open>memcpy(name_out, name, min(strlen(name) + 1, 60)); name_out[59] = 0\<close>.\<close>

definition put_name :: "cstr \<Rightarrow> u8 list \<Rightarrow> u8 list" where
  "put_name name old =
     (let n = nat (int_of_double (min_double (real_of_int (strlen name + 1)) (real FILE_NAME_LENGTH)))
      in (take n (name @ [0]) @ drop n old)[FILE_NAME_LENGTH - 1 := 0])"

definition filesystem_read_file_metadata ::
    "cstr option \<Rightarrow> file_metadata_t \<Rightarrow> 'a fs_scheme \<Rightarrow> ((bool \<times> file_metadata_t) \<times> 'a fs_scheme) option" where
  "filesystem_read_file_metadata path metadata_out s = do {
     (r, s1) \<leftarrow> lookup_file path s;
     (case r of
        None \<Rightarrow> Some ((False, metadata_out), s1)
      | Some file_index \<Rightarrow>
          let file_entry = table s1 file_index;
              (dir_path, name) = split_path (the path)
          in Some ((True, \<lparr>msize = ucast (fsize file_entry), mtype = ftype file_entry,
                           mname = put_name name (mname metadata_out)\<rparr>), free_file_table s1)) }"

definition filesystem_file_exists :: "cstr option \<Rightarrow> 'a fs_scheme \<Rightarrow> (bool \<times> 'a fs_scheme) option" where
  "filesystem_file_exists path s = do {
     (r, s1) \<leftarrow> lookup_file path s;
     (case r of
        None \<Rightarrow> Some (False, s1)
      | Some file_index \<Rightarrow> Some (True, free_file_table s1)) }"

section \<open>Finding space\<close>

text \<open>
  The insertion sort of the indices by start sector, in place: \<open>shift_order\<close> is the inner loop,
  with \<open>k = j + 1\<close>.
\<close>

fun shift_order :: "(nat \<Rightarrow> u32) \<Rightarrow> u32 \<Rightarrow> nat \<Rightarrow> nat list \<Rightarrow> nat list \<times> nat" where
  "shift_order sector key_sector 0 order = (order, 0)"
| "shift_order sector key_sector (Suc j) order =
     (if sector (order ! j) > key_sector
      then shift_order sector key_sector j (order[Suc j := order ! j])
      else (order, Suc j))"

definition insert_order :: "(nat \<Rightarrow> u32) \<Rightarrow> nat \<Rightarrow> nat list \<Rightarrow> nat list" where
  "insert_order sector i order =
     (let key = order ! i in
      case shift_order sector (sector key) i order of (order1, k) \<Rightarrow> order1[k := key])"

definition sort_order :: "(nat \<Rightarrow> u32) \<Rightarrow> nat list \<Rightarrow> nat list" where
  "sort_order sector order = fold (insert_order sector) [1..<length order] order"

definition end_sector :: "file_entry_t \<Rightarrow> u32" where
  "end_sector e = start_sector e + (fsize e + 512 - 1) div 512"

fun gap_loop :: "u32 \<Rightarrow> file_entry_t list \<Rightarrow> u32 \<Rightarrow> u32 option \<times> u32" where
  "gap_loop sectors_needed [] prev_end = (None, prev_end)"
| "gap_loop sectors_needed (e # es) prev_end =
     (if fsize e = 0 then gap_loop sectors_needed es prev_end
      else
        (let gap = (if start_sector e > prev_end then start_sector e - prev_end else 0) in
         if gap \<ge> sectors_needed then (Some prev_end, prev_end)
         else gap_loop sectors_needed es (end_sector e)))"

definition find_space_for_file :: "u16 \<Rightarrow> (nat \<Rightarrow> file_entry_t) \<Rightarrow> u64 \<Rightarrow> u32 option" where
  "find_space_for_file sectors ft file_size =
     (let order = sort_order (\<lambda>i. start_sector (ft i))
            (filter (\<lambda>i. magic_number (ft i) = MAGIC_NUMBER) [0..<FILE_TABLE_ENTRIES]);
          sectors_needed = ucast ((file_size + 512 - 1) div 512)
      in case gap_loop sectors_needed (map ft order) (word_of_nat (FILE_TABLE_ENTRIES + 1)) of
           (Some start, _) \<Rightarrow> Some start
         | (None, prev_end) \<Rightarrow>
             let trailing_gap = ucast sectors - 1 - prev_end in
             if trailing_gap \<ge> sectors_needed then Some prev_end else None)"

section \<open>Editing files and directories\<close>

definition shift_file_entries_forward ::
    "(nat \<Rightarrow> file_entry_t) \<Rightarrow> u8 \<Rightarrow> 'a fs_scheme \<Rightarrow> ((nat \<Rightarrow> file_entry_t) \<times> 'a fs_scheme) option" where
  "shift_file_entries_forward ft idx_start s =
     (let ft1 = fold (\<lambda>i t. t(i := t (i - 1))) (rev [unat idx_start + 1..<FILE_TABLE_ENTRIES]) ft;
          ft2 = ft1(unat idx_start := zero_entry)
      in map_option (\<lambda>s1. (ft2, s1)) (fs_write 1 (table_bytes ft2) (word_of_nat FILE_TABLE_SIZE) s))"

definition shift_file_entries_backward ::
    "(nat \<Rightarrow> file_entry_t) \<Rightarrow> u8 \<Rightarrow> 'a fs_scheme \<Rightarrow> ((nat \<Rightarrow> file_entry_t) \<times> 'a fs_scheme) option" where
  "shift_file_entries_backward ft idx_start s =
     (let ft1 = fold (\<lambda>i t. t(i := t (i + 1))) [unat idx_start - 1..<FILE_TABLE_ENTRIES - 1] ft;
          ft2 = ft1(FILE_TABLE_ENTRIES - 1 := zero_entry)
      in map_option (\<lambda>s1. (ft2, s1)) (fs_write 1 (table_bytes ft2) (word_of_nat FILE_TABLE_SIZE) s))"

definition edit_file :: "nat \<Rightarrow> u8 list \<Rightarrow> u64 \<Rightarrow> 'a fs_scheme \<Rightarrow> (bool \<times> 'a fs_scheme) option" where
  "edit_file file_entry_idx data_in sz s =
     (if magic_number (table s file_entry_idx) \<noteq> MAGIC_NUMBER then Some (False, s)
      else
        (let s1 = set_entry_at file_entry_idx ((table s file_entry_idx)\<lparr>magic_number := 0\<rparr>) s in
         case find_space_for_file (sector_count s1) (table s1) sz of
           None \<Rightarrow>
             Some (False, set_entry_at file_entry_idx ((table s1 file_entry_idx)\<lparr>magic_number := MAGIC_NUMBER\<rparr>) s1)
         | Some file_start_sector \<Rightarrow> do {
             let s2 = set_entry_at file_entry_idx ((table s1 file_entry_idx)\<lparr>magic_number := MAGIC_NUMBER,
                        start_sector := file_start_sector, fsize := ucast sz\<rparr>) s1;
             s3 \<leftarrow> fs_write file_start_sector data_in sz s2;
             s4 \<leftarrow> save_file_table s3;
             Some (True, s4) }))"

text \<open>The entry number \<open>j\<close> of a directory listing: 60 bytes of name and the index.\<close>

definition put_dir_entry :: "u8 list \<Rightarrow> nat \<Rightarrow> cstr \<Rightarrow> u32 \<Rightarrow> u8 list" where
  "put_dir_entry buf j name idx =
     take (64 * j) buf @ put_name name (slice (64 * j) 60 buf) @ le32_bytes idx @ drop (64 * j + 64) buf"

definition add_file_to_dir :: "nat \<Rightarrow> nat \<Rightarrow> cstr \<Rightarrow> 'a fs_scheme \<Rightarrow> (bool \<times> 'a fs_scheme) option" where
  "add_file_to_dir dir_file_entry_idx file_entry_idx name s =
     (let e = table s dir_file_entry_idx;
          entries_count = unat (fsize e) div 64 + 1
      in case fs_malloc (entries_count * 64) s of (buf, s1) \<Rightarrow> do {
           (entries, s2) \<leftarrow> (if fsize e > 0 then fs_read (start_sector e) buf (ucast (fsize e)) s1
                              else Some (buf, s1));
           edit_file dir_file_entry_idx
             (put_dir_entry entries (entries_count - 1) name (word_of_nat file_entry_idx))
             (word_of_nat (entries_count * 64)) s2 })"

definition dir_slot :: "u8 list \<Rightarrow> nat \<Rightarrow> u8 list" where
  "dir_slot buf j = slice (64 * j) 64 buf"

definition remove_file_from_dir :: "nat \<Rightarrow> nat \<Rightarrow> 'a fs_scheme \<Rightarrow> (bool \<times> 'a fs_scheme) option" where
  "remove_file_from_dir dir_file_entry_idx file_entry_idx s =
     (let e = table s dir_file_entry_idx;
          old_entries_count = unat (fsize e) div 64
      in case fs_malloc (old_entries_count * 64) s of (buf, s1) \<Rightarrow> do {
           (old_entries, s2) \<leftarrow> (if fsize e > 0 then fs_read (start_sector e) buf (ucast (fsize e)) s1
                                  else Some (buf, s1));
           let new_entries_count = (word_of_nat old_entries_count - 1 :: u64);
           let new_size = new_entries_count * 64;
           let kept = filter (\<lambda>i. dir_index old_entries i \<noteq> word_of_nat file_entry_idx) [0..<old_entries_count];
           (case fs_malloc (unat new_size) s2 of (new_buf, s3) \<Rightarrow>
             let new_entries = concat (map (dir_slot old_entries) kept);
                 s4 = flag_ub (length new_entries > unat new_size \<or> unat (fsize e) > old_entries_count * 64) s3
             in edit_file dir_file_entry_idx
                  (take (unat new_size) (new_entries @ drop (length new_entries) new_buf)) new_size s4) })"

definition find_file_entry_slot :: "(nat \<Rightarrow> file_entry_t) \<Rightarrow> u32" where
  "find_file_entry_slot ft =
     (case List.find (\<lambda>i. magic_number (ft i) \<noteq> MAGIC_NUMBER) [0..<FILE_TABLE_ENTRIES] of
        Some i \<Rightarrow> word_of_nat i
      | None \<Rightarrow> -1)"

definition fail :: "'a fs_scheme \<Rightarrow> (bool \<times> 'a fs_scheme) option" where
  "fail s = Some (False, free_file_table s)"

definition filesystem_write_file ::
    "cstr option \<Rightarrow> u8 list \<Rightarrow> u32 \<Rightarrow> u64 \<Rightarrow> 'a fs_scheme \<Rightarrow> (bool \<times> 'a fs_scheme) option" where
  "filesystem_write_file path data_in type sz s =
     (if \<not> is_valid_path path then Some (False, s)
      else do {
        (file_exists, s0) \<leftarrow> filesystem_file_exists path s;
        s1 \<leftarrow> load_file_table s0;
        if file_exists then do {
          (r, s2) \<leftarrow> resolve_path (the path) s1;
          (case r of
             None \<Rightarrow> fail s2
           | Some current_file_entry_idx \<Rightarrow>
               if ftype (table s2 current_file_entry_idx) \<noteq> FILE then fail s2
               else do {
                 (success, s3) \<leftarrow> edit_file current_file_entry_idx data_in sz s2;
                 Some (success, free_file_table s3) }) }
        else
          (case find_space_for_file (sector_count s1) (table s1) sz of
             None \<Rightarrow> fail s1
           | Some file_start_sector \<Rightarrow>
               let file_entry_idx = find_file_entry_slot (table s1) in
               if file_entry_idx = -1 then fail s1
               else do {
                 let s2 = set_entry_at (unat file_entry_idx) \<lparr>magic_number = MAGIC_NUMBER, ftype = type,
                            start_sector = file_start_sector, fsize = ucast sz\<rparr> s1;
                 let (dir_path, name) = split_path (the path);
                 (r, s3) \<leftarrow> resolve_path dir_path s2;
                 (case r of
                    None \<Rightarrow> fail s3
                  | Some dir_file_entry_idx \<Rightarrow> do {
                      (success, s4) \<leftarrow> add_file_to_dir dir_file_entry_idx (unat file_entry_idx) name s3;
                      if \<not> success then fail s4
                      else do {
                        s5 \<leftarrow> fs_write file_start_sector data_in sz s4;
                        Some (True, free_file_table s5) } }) }) })"

definition filesystem_create_directory :: "cstr option \<Rightarrow> 'a fs_scheme \<Rightarrow> (bool \<times> 'a fs_scheme) option" where
  "filesystem_create_directory path s = filesystem_write_file path [0] DIRECTORY 0 s"

section \<open>Deleting and moving\<close>

definition clear_magic :: "nat \<Rightarrow> 'a fs_scheme \<Rightarrow> 'a fs_scheme" where
  "clear_magic i s = set_entry_at i ((table s i)\<lparr>magic_number := 0\<rparr>) s"

definition filesystem_delete_file :: "cstr option \<Rightarrow> 'a fs_scheme \<Rightarrow> (bool \<times> 'a fs_scheme) option" where
  "filesystem_delete_file path s =
     (if \<not> is_valid_path path then Some (False, s)
      else do {
        s1 \<leftarrow> load_file_table s;
        (r, s2) \<leftarrow> resolve_path (the path) s1;
        (case r of
           None \<Rightarrow> fail s2
         | Some file_entry_idx \<Rightarrow> do {
             let (dir_path, name) = split_path (the path);
             (r', s3) \<leftarrow> resolve_path dir_path s2;
             (case r' of
                None \<Rightarrow> fail s3
              | Some dir_file_entry_idx \<Rightarrow> do {
                  (success, s4) \<leftarrow> remove_file_from_dir dir_file_entry_idx file_entry_idx s3;
                  if \<not> success then fail s4
                  else do {
                    s5 \<leftarrow> save_file_table (clear_magic file_entry_idx s4);
                    Some (True, free_file_table s5) } }) }) })"

text \<open>The indices of the entries of a directory, in the order of the listing.\<close>

definition dir_indices :: "nat \<Rightarrow> 'a fs_scheme \<Rightarrow> (nat list \<times> 'a fs_scheme) option" where
  "dir_indices dir_idx s =
     (let e = table s dir_idx in
      if fsize e = 0 then Some ([], s)
      else do {
        (buf, s1) \<leftarrow> read_entry e s;
        Some (map (\<lambda>i. unat (dir_index buf i)) [0..<unat (fsize e) div 64], s1) })"

text \<open>
  The loop over the entries, with the recursive call for subdirectories; a directory that
  contains itself makes it recurse forever.
\<close>

partial_function (option) delete_entries :: "nat list \<Rightarrow> 'a fs_scheme \<Rightarrow> 'a fs_scheme option" where
  "delete_entries idxs s =
     (case idxs of
        [] \<Rightarrow> Some s
      | idx # rest \<Rightarrow>
          if magic_number (table s idx) \<noteq> MAGIC_NUMBER then delete_entries rest s
          else if ftype (table s idx) = DIRECTORY then
            Option.bind (dir_indices idx s) (\<lambda>(sub, s1).
              Option.bind (delete_entries sub s1) (\<lambda>s2. delete_entries rest (clear_magic idx s2)))
          else delete_entries rest (clear_magic idx s))"

definition delete_directory_entries_recursive :: "nat \<Rightarrow> 'a fs_scheme \<Rightarrow> 'a fs_scheme option" where
  "delete_directory_entries_recursive dir_idx s = do {
     (idxs, s1) \<leftarrow> dir_indices dir_idx s;
     delete_entries idxs s1 }"

definition filesystem_delete_directory :: "cstr option \<Rightarrow> 'a fs_scheme \<Rightarrow> (bool \<times> 'a fs_scheme) option" where
  "filesystem_delete_directory path s =
     (if \<not> is_valid_path path then Some (False, s)
      else do {
        s1 \<leftarrow> load_file_table s;
        (r, s2) \<leftarrow> resolve_path (the path) s1;
        (case r of
           None \<Rightarrow> fail s2
         | Some dir_file_entry_idx \<Rightarrow>
             if ftype (table s2 dir_file_entry_idx) \<noteq> DIRECTORY then fail s2
             else do {
               s3 \<leftarrow> delete_directory_entries_recursive dir_file_entry_idx s2;
               let (dir_path, name) = split_path (the path);
               (r', s4) \<leftarrow> resolve_path dir_path s3;
               (case r' of
                  None \<Rightarrow> fail s4
                | Some parent_dir_idx \<Rightarrow> do {
                    (success, s5) \<leftarrow> remove_file_from_dir parent_dir_idx dir_file_entry_idx s4;
                    if \<not> success then fail s5
                    else do {
                      s6 \<leftarrow> save_file_table (clear_magic dir_file_entry_idx s5);
                      Some (True, free_file_table s6) } }) }) })"

definition filesystem_move_file ::
    "cstr option \<Rightarrow> cstr option \<Rightarrow> 'a fs_scheme \<Rightarrow> (bool \<times> 'a fs_scheme) option" where
  "filesystem_move_file path new_path s =
     (if \<not> is_valid_path path \<or> \<not> is_valid_path new_path then Some (False, s)
      else do {
        let (dir_path, name) = split_path (the path);
        let (new_dir_path, new_name) = split_path (the new_path);
        s1 \<leftarrow> load_file_table s;
        (r, s2) \<leftarrow> resolve_path (the path) s1;
        (case r of
           None \<Rightarrow> fail s2
         | Some file_entry_idx \<Rightarrow> do {
             (r', s3) \<leftarrow> resolve_path dir_path s2;
             (case r' of
                None \<Rightarrow> fail s3
              | Some dir_file_entry_idx \<Rightarrow> do {
                  (r'', s4) \<leftarrow> resolve_path new_dir_path s3;
                  (case r'' of
                     None \<Rightarrow> fail s4
                   | Some new_dir_file_entry_idx \<Rightarrow> do {
                       (_, s5) \<leftarrow> remove_file_from_dir dir_file_entry_idx file_entry_idx s4;
                       (_, s6) \<leftarrow> add_file_to_dir new_dir_file_entry_idx file_entry_idx new_name s5;
                       Some (True, free_file_table s6) }) }) }) })"

section \<open>Listing\<close>

definition zero_metadata :: file_metadata_t where
  "zero_metadata = \<lparr>msize = 0, mtype = 0, mname = replicate 60 0\<rparr>"

definition listing :: "(nat \<Rightarrow> file_entry_t) \<Rightarrow> u8 list \<Rightarrow> nat \<Rightarrow> file_metadata_t" where
  "listing ft buf i =
     (let e = ft (unat (dir_index buf i)) in
      \<lparr>msize = ucast (fsize e), mtype = ftype e, mname = (slice (64 * i) 60 buf)[FILE_NAME_LENGTH - 1 := 0]\<rparr>)"

text \<open>\<open>None\<close> is the null result; otherwise the length of the list is \<open>*file_count\<close>.\<close>

definition filesystem_list_dir ::
    "cstr option \<Rightarrow> 'a fs_scheme \<Rightarrow> (file_metadata_t list option \<times> 'a fs_scheme) option" where
  "filesystem_list_dir path s =
     (if \<not> is_valid_path path then Some (None, s)
      else do {
        (file_exists, s1) \<leftarrow> filesystem_file_exists path s;
        if \<not> file_exists then Some (None, s1)
        else do {
          ((ok, metadata), s2) \<leftarrow> filesystem_read_file_metadata path
             (zero_metadata\<lparr>mname := map (junk s1 (mallocs s1)) [0..<60]\<rparr>) s1;
          if \<not> ok then Some (None, s2)
          else if unat (msize metadata) < 64 then Some (None, s2)
          else
            (case fs_malloc (unat (msize metadata)) s2 of (buf, s3) \<Rightarrow> do {
               ((ok', entries), s4) \<leftarrow> filesystem_read_file path buf s3;
               if \<not> ok' then Some (None, s4)
               else do {
                 let entries_count = unat (msize metadata) div 64;
                 (let (_, s5) = fs_malloc (entries_count * 72) s4 in do {
                    s6 \<leftarrow> load_file_table s5;
                    Some (Some (map (listing (table s6) entries) [0..<entries_count]), free_file_table s6) }) } }) } })"

definition dir_entries :: "nat \<Rightarrow> 'a fs_scheme \<Rightarrow> ((cstr \<times> nat) list \<times> 'a fs_scheme) option" where
  "dir_entries dir_idx s =
     (let e = table s dir_idx in
      if fsize e = 0 then Some ([], s)
      else do {
        (buf, s1) \<leftarrow> read_entry e s;
        Some (map (\<lambda>i. (dir_name buf i, unat (dir_index buf i))) [0..<unat (fsize e) div 64], s1) })"

definition is_dir :: "file_entry_t \<Rightarrow> bool" where
  "is_dir e \<longleftrightarrow> ftype e = DIRECTORY \<or> ftype e = ROOT_DIRECTORY"

definition print_tree_line :: "nat \<Rightarrow> cstr \<Rightarrow> nat \<Rightarrow> 'a fs_scheme \<Rightarrow> 'a fs_scheme" where
  "print_tree_line depth name idx s =
     fs_print_concats [if is_dir (table s idx) then str ''[DIR] '' else str ''[FILE] '', name, str '' (idx '',
       fs_num (real idx) s, str '')'' @ [10]]
       (((\<lambda>s. con_print (str ''  '') s) ^^ depth) s)"

partial_function (option) print_entries :: "nat \<Rightarrow> (cstr \<times> nat) list \<Rightarrow> 'a fs_scheme \<Rightarrow> 'a fs_scheme option" where
  "print_entries depth es s =
     (case es of
        [] \<Rightarrow> Some s
      | (name, idx) # rest \<Rightarrow>
          if magic_number (table s idx) \<noteq> MAGIC_NUMBER then print_entries depth rest s
          else if is_dir (table s idx) then
            Option.bind (dir_entries idx (print_tree_line depth name idx s)) (\<lambda>(sub, s1).
              Option.bind (print_entries (Suc depth) sub s1) (\<lambda>s2. print_entries depth rest s2))
          else print_entries depth rest (print_tree_line depth name idx s))"

definition print_tree_recursive :: "nat \<Rightarrow> nat \<Rightarrow> 'a fs_scheme \<Rightarrow> 'a fs_scheme option" where
  "print_tree_recursive dir_idx depth s = do {
     (es, s1) \<leftarrow> dir_entries dir_idx s;
     print_entries depth es s1 }"

definition print_file_entry :: "nat \<Rightarrow> 'a fs_scheme \<Rightarrow> 'a fs_scheme" where
  "print_file_entry i s =
     fs_print_concats [str ''Id: '', fs_num (real i) s, [10], str ''Sector: '',
       fs_num (real (unat (start_sector (table s i)))) s, [10], str ''Size: '',
       fs_num (real (unat (fsize (table s i)))) s, [10, 10]] s"

definition filesystem_print_state :: "bool \<Rightarrow> 'a fs_scheme \<Rightarrow> 'a fs_scheme option" where
  "filesystem_print_state include_entries s = do {
     s0 \<leftarrow> load_file_table s;
     let s1 = con_line ''------ Filesystem State ------'' s0;
     let s2 = (if include_entries
               then fold print_file_entry
                      (takeWhile (\<lambda>i. magic_number (table s1 i) = MAGIC_NUMBER) [0..<FILE_TABLE_ENTRIES])
                      (con_line ''File Entries:'' s1)
               else s1);
     let s3 = con_line ''Filesystem Tree:'' s2;
     s4 \<leftarrow> (case find_root (table s3) of
              Some root_index \<Rightarrow> print_tree_recursive root_index 0 s3
            | None \<Rightarrow> Some (con_line ''No root directory found'' s3));
     Some (free_file_table (con_line ''------------------------------'' s4)) }"

end
