(* ===== verification/FsSpace.thy ===== *)
theory FsSpace
  imports Filesystem "HOL-Library.Multiset"
begin

unbundle bit_operations_syntax

text \<open>
  Placing files on the disk: the in-place insertion sort of \<open>find_space_for_file\<close> computes the
  stable sort of the table's indices by start sector, and the search over the gaps between files
  is a first-fit search: it returns free sectors, and fails only if no gap is large enough.
\<close>

section \<open>The insertion sort\<close>

lemma shift_order_prefix:
  assumes "sorted (map sector ys)"
  shows "(case shift_order sector ks (length ys) (ys @ z # rest) of (o1, k) \<Rightarrow> o1[k := key]) =
    takeWhile (\<lambda>y. sector y \<le> ks) ys @ key # dropWhile (\<lambda>y. sector y \<le> ks) ys @ rest"
  using assms
proof (induction ys arbitrary: z rest rule: rev_induct)
  case Nil
  then show ?case by simp
next
  case (snoc y ys)
  show ?case
  proof (cases "sector y > ks")
    case True
    then have "takeWhile (\<lambda>y. sector y \<le> ks) (ys @ [y]) = takeWhile (\<lambda>y. sector y \<le> ks) ys"
      "dropWhile (\<lambda>y. sector y \<le> ks) (ys @ [y]) = dropWhile (\<lambda>y. sector y \<le> ks) ys @ [y]"
      by (induction ys) auto
    moreover have "(ys @ y # z # rest)[Suc (length ys) := y] = ys @ y # y # rest"
      by (simp add: list_update_append)
    ultimately show ?thesis
      using True snoc.IH [of y "y # rest"] snoc.prems by (simp add: sorted_append)
  next
    case False
    with snoc.prems have "\<forall>x\<in>set (ys @ [y]). sector x \<le> ks"
      by (auto simp: sorted_append not_less intro: order.trans)
    then have "takeWhile (\<lambda>y. sector y \<le> ks) (ys @ [y]) = ys @ [y]"
      "dropWhile (\<lambda>y. sector y \<le> ks) (ys @ [y]) = []" by (simp_all only: takeWhile_eq_all_conv dropWhile_eq_Nil_conv)
    with False show ?thesis by (simp add: list_update_append)
  qed
qed

lemma insert_order_prefix:
  assumes "sorted (map sector ys)"
  shows "insert_order sector (length ys) (ys @ x # rest) =
    takeWhile (\<lambda>y. sector y \<le> sector x) ys @ x # dropWhile (\<lambda>y. sector y \<le> sector x) ys @ rest"
  using shift_order_prefix [OF assms, where ks = "sector x" and z = x and rest = rest and key = x] by (simp add: insert_order_def)

lemma sorted_insert_right:
  fixes f :: "'a \<Rightarrow> 'b::linorder"
  assumes "sorted (map f ys)"
  shows "sorted (map f (takeWhile (\<lambda>y. f y \<le> f x) ys @ x # dropWhile (\<lambda>y. f y \<le> f x) ys))"
  using assms
proof (induction ys)
  case (Cons y ys)
  show ?case
  proof (cases "f y \<le> f x")
    case True
    have "set (takeWhile (\<lambda>y. f y \<le> f x) ys) \<union> set (dropWhile (\<lambda>y. f y \<le> f x) ys) \<subseteq> set ys"
      by (auto dest: set_takeWhileD set_dropWhileD)
    with True Cons show ?thesis by (auto simp: subset_iff)
  next
    case False
    with Cons.prems show ?thesis by (auto intro: order.trans [of "f x" "f y"])
  qed
qed simp

lemma sort_key_snoc:
  fixes f :: "'a \<Rightarrow> 'b::linorder"
  shows "sort_key f (xs @ [x]) =
    takeWhile (\<lambda>y. f y \<le> f x) (sort_key f xs) @ x # dropWhile (\<lambda>y. f y \<le> f x) (sort_key f xs)"
proof (rule properties_for_sort_key)
  define ys where "ys = sort_key f xs"
  have ys: "sorted (map f ys)" by (simp add: ys_def)
  let ?l = "takeWhile (\<lambda>y. f y \<le> f x) ys" and ?r = "dropWhile (\<lambda>y. f y \<le> f x) ys"
  have lr: "?l @ ?r = ys" by simp
  then have "mset ?l + mset ?r = mset xs" by (metis mset_append mset_sort ys_def)
  then show "mset (?l @ x # ?r) = mset (xs @ [x])" by simp
  show "sorted (map f (?l @ x # ?r))" by (rule sorted_insert_right [OF ys])
  fix k
  have stable: "filter (\<lambda>y. f k = f y) ys = filter (\<lambda>y. f k = f y) xs"
    unfolding ys_def by (metis (mono_tags, lifting) filter_cong sort_key_stable)
  have "f y \<noteq> f x" if "y \<in> set ?r" for y
  proof -
    from that have ne: "?r \<noteq> []" by (rule list.set_cases) simp_all
    then have "\<not> f (hd ?r) \<le> f x" using hd_dropWhile by metis
    moreover have "sorted (map f ?r)" using ys lr by (metis map_append sorted_append)
    with ne that have "f (hd ?r) \<le> f y" by (cases ?r) auto
    ultimately show ?thesis by auto
  qed
  then have "filter (\<lambda>y. f k = f y) ?r = []" if "f k = f x"
    unfolding filter_empty_conv that by (metis (no_types))
  moreover have "filter (\<lambda>y. f k = f y) ?l @ filter (\<lambda>y. f k = f y) ?r = filter (\<lambda>y. f k = f y) xs"
    using stable lr by (metis filter_append)
  ultimately show "filter (\<lambda>y. f k = f y) (?l @ x # ?r) = filter (\<lambda>y. f k = f y) (xs @ [x])" by auto
qed

lemma sort_order_sort_key: "sort_order sector xs = sort_key sector xs"
proof -
  have "fold (insert_order sector) [1..<Suc n] xs = sort_key sector (take (Suc n) xs) @ drop (Suc n) xs"
    if "Suc n \<le> length xs" for n
    using that
  proof (induction n)
    case 0
    then show ?case by (cases xs) auto
  next
    case (Suc n)
    define ys x rest where "ys = sort_key sector (take (Suc n) xs)" "x = xs ! Suc n" "rest = drop (Suc (Suc n)) xs"
    have d: "drop (Suc n) xs = x # rest" using Suc.prems by (simp add: ys_x_rest_def Cons_nth_drop_Suc)
    have t: "take (Suc (Suc n)) xs = take (Suc n) xs @ [x]"
      using Suc.prems by (simp add: take_Suc_conv_app_nth ys_x_rest_def del: take_Suc)
    have l: "length ys = Suc n" using Suc.prems by (simp add: ys_x_rest_def)
    have "fold (insert_order sector) [1..<Suc (Suc n)] xs =
        insert_order sector (Suc n) (fold (insert_order sector) [1..<Suc n] xs)" by simp
    also have "\<dots> = insert_order sector (length ys) (ys @ x # rest)"
      using Suc.IH Suc.prems d l by (simp add: ys_x_rest_def(1))
    also have "\<dots> = sort_key sector (take (Suc (Suc n)) xs) @ rest"
      unfolding t sort_key_snoc ys_x_rest_def(1) [symmetric]
      by (subst insert_order_prefix) (simp_all add: ys_x_rest_def(1))
    finally show ?case by (simp add: ys_x_rest_def)
  qed
  from this [of "length xs - 1"] show ?thesis
    by (cases xs) (simp_all add: sort_order_def)
qed

section \<open>Free sectors\<close>

text \<open>The sectors \<open>[lo, hi)\<close> an entry occupies, over the natural numbers.\<close>

definition entry_lo :: "file_entry_t \<Rightarrow> nat" where
  "entry_lo e = unat (start_sector e)"

definition entry_hi :: "file_entry_t \<Rightarrow> nat" where
  "entry_hi e = unat (start_sector e) + (unat (fsize e) + 511) div 512"

definition holds_data :: "(nat \<Rightarrow> file_entry_t) \<Rightarrow> nat \<Rightarrow> bool" where
  "holds_data ft i \<longleftrightarrow> i < FILE_TABLE_ENTRIES \<and> magic_number (ft i) = MAGIC_NUMBER \<and> fsize (ft i) \<noteq> 0"

definition apart_range :: "nat \<Rightarrow> nat \<Rightarrow> file_entry_t \<Rightarrow> bool" where
  "apart_range lo hi e \<longleftrightarrow> hi \<le> entry_lo e \<or> entry_hi e \<le> lo"

text \<open>
  A well-formed table for a disk of \<open>sc\<close> sectors: the files lie between the first data sector and
  the last sector the driver accesses, are small enough for one transfer and do not overlap.
\<close>

definition entry_ok :: "nat \<Rightarrow> file_entry_t \<Rightarrow> bool" where
  "entry_ok sc e \<longleftrightarrow> 641 \<le> entry_lo e \<and> entry_hi e < sc \<and> unat (fsize e) \<le> 130560"

definition table_ok :: "u16 \<Rightarrow> (nat \<Rightarrow> file_entry_t) \<Rightarrow> bool" where
  "table_ok sc ft \<longleftrightarrow> 641 < unat sc \<and> (\<forall>i. holds_data ft i \<longrightarrow> entry_ok (unat sc) (ft i)) \<and>
     (\<forall>i j. holds_data ft i \<and> holds_data ft j \<and> i \<noteq> j \<longrightarrow> apart_range (entry_lo (ft i)) (entry_hi (ft i)) (ft j))"

lemma entry_hi_gt: "fsize e \<noteq> 0 \<Longrightarrow> entry_lo e < entry_hi e"
  using unat_gt_0 [of "fsize e"] by (simp add: entry_lo_def entry_hi_def div_greater_zero_iff Suc_le_eq)

lemma end_sector_entry_hi:
  assumes "entry_ok sc e" "sc < 65536"
  shows "unat (end_sector e) = entry_hi e"
proof -
  have f: "unat (fsize e) \<le> 130560" and hi: "entry_hi e < 65536" using assms by (auto simp: entry_ok_def)
  have "fsize e + 512 - 1 = fsize e + 511" by simp
  moreover have "unat (fsize e + 511) = unat (fsize e) + 511"
    using f by (subst unat_add_lem [THEN iffD1]) simp_all
  ultimately have d: "unat ((fsize e + 512 - 1) div 512) = (unat (fsize e) + 511) div 512"
    by (simp only: unat_div) simp
  then show ?thesis
    using hi unfolding end_sector_def entry_hi_def by (subst unat_add_lem [THEN iffD1]) simp_all
qed

text \<open>The entries in the order of the disk.\<close>

definition in_order :: "file_entry_t list \<Rightarrow> bool" where
  "in_order es \<longleftrightarrow> sorted_wrt (\<lambda>a b. fsize a \<noteq> 0 \<and> fsize b \<noteq> 0 \<longrightarrow> entry_hi a \<le> entry_lo b) es"

text \<open>
  The result of the search from sector \<open>prev\<close>: a start of \<open>need\<close> free sectors, or the end of the
  last entry, in which case no start before it is free.
\<close>

definition gap_spec :: "nat \<Rightarrow> nat \<Rightarrow> file_entry_t list \<Rightarrow> nat \<Rightarrow> u32 option \<times> u32 \<Rightarrow> bool" where
  "gap_spec sc need es prev r \<longleftrightarrow>
     (case r of
        (Some st, _) \<Rightarrow> prev \<le> unat st \<and> unat st + need < sc \<and>
          (\<forall>e\<in>set es. fsize e \<noteq> 0 \<longrightarrow> apart_range (unat st) (unat st + need) e)
      | (None, fin) \<Rightarrow> prev \<le> unat fin \<and> unat fin < sc \<and>
          (\<forall>e\<in>set es. fsize e \<noteq> 0 \<longrightarrow> entry_hi e \<le> unat fin) \<and>
          (\<forall>lo. prev \<le> lo \<and> lo < unat fin \<longrightarrow>
             (\<exists>e\<in>set es. fsize e \<noteq> 0 \<and> \<not> apart_range lo (lo + need) e)))"

lemma gap_spec_skip: "fsize e = 0 \<Longrightarrow> gap_spec sc need es prev r \<Longrightarrow> gap_spec sc need (e # es) prev r"
  by (cases r; cases "fst r") (auto simp: gap_spec_def)

lemma gap_spec_hit:
  assumes "fsize e \<noteq> 0" "entry_ok sc e" "unat prev + need \<le> entry_lo e"
    and "\<forall>x\<in>set es. fsize x \<noteq> 0 \<longrightarrow> entry_hi e \<le> entry_lo x"
  shows "gap_spec sc need (e # es) (unat prev) (Some prev, fin)"
  using assms entry_hi_gt [OF assms(1)] by (auto simp: gap_spec_def apart_range_def entry_ok_def)

lemma gap_spec_miss:
  assumes "fsize e \<noteq> 0" "prev \<le> entry_lo e" "entry_lo e < prev + need"
    and "gap_spec sc need es (entry_hi e) r"
  shows "gap_spec sc need (e # es) prev r"
proof (cases "fst r")
  case None
  then obtain fin where r: "r = (None, fin)" by (cases r) auto
  have "\<exists>x\<in>set (e # es). fsize x \<noteq> 0 \<and> \<not> apart_range lo (lo + need) x" if "prev \<le> lo" "lo < unat fin" for lo
  proof (cases "lo < entry_hi e")
    case True
    with that assms(1,3) show ?thesis by (auto simp: apart_range_def)
  next
    case False
    with that assms(4) r show ?thesis by (auto simp: gap_spec_def)
  qed
  with assms entry_hi_gt [OF assms(1)] r show ?thesis by (auto simp: gap_spec_def)
next
  case (Some st)
  with assms entry_hi_gt [OF assms(1)] show ?thesis
    by (cases r) (auto simp: gap_spec_def apart_range_def)
qed

lemma gap_loop_first_fit:
  assumes "in_order es" "\<forall>e\<in>set es. fsize e \<noteq> 0 \<longrightarrow> entry_ok sc e \<and> unat prev \<le> entry_lo e"
    and "sc < 65536" "unat prev < sc"
  shows "gap_spec sc (unat need) es (unat prev) (gap_loop need es prev)"
  using assms
proof (induction es arbitrary: prev)
  case Nil
  then show ?case by (simp add: gap_spec_def)
next
  case (Cons e es)
  have ord: "in_order es" using Cons.prems(1) by (simp add: in_order_def)
  show ?case
  proof (cases "fsize e = 0")
    case True
    have "\<forall>e\<in>set es. fsize e \<noteq> 0 \<longrightarrow> entry_ok sc e \<and> unat prev \<le> entry_lo e" using Cons.prems(2) by simp
    from Cons.IH [OF ord this Cons.prems(3,4)] True show ?thesis by (simp add: gap_spec_skip)
  next
    case False
    with Cons.prems have e: "entry_ok sc e" "unat prev \<le> entry_lo e"
      and later: "\<forall>x\<in>set es. fsize x \<noteq> 0 \<longrightarrow> entry_hi e \<le> entry_lo x" by (auto simp: in_order_def)
    define gap where "gap = (if start_sector e > prev then start_sector e - prev else 0)"
    have gap: "unat gap = entry_lo e - unat prev"
      using e(2) by (auto simp: gap_def entry_lo_def word_less_nat_alt unat_sub_if')
    note hi = end_sector_entry_hi [OF e(1) Cons.prems(3)]
    show ?thesis
    proof (cases "gap \<ge> need")
      case True
      then have "unat prev + unat need \<le> entry_lo e" using gap e(2) by (simp add: word_le_nat_alt)
      from gap_spec_hit [OF False e(1) this later] True False show ?thesis
        by (simp add: gap_def [symmetric] Let_def)
    next
      case no: False
      then have small: "entry_lo e < unat prev + unat need" using gap e(2) by (simp add: word_le_nat_alt)
      have "\<forall>x\<in>set es. fsize x \<noteq> 0 \<longrightarrow> entry_ok sc x \<and> unat (end_sector e) \<le> entry_lo x"
        "unat (end_sector e) < sc" using later hi Cons.prems(2) e(1) by (simp_all add: entry_ok_def)
      from Cons.IH [OF ord this(1) Cons.prems(3) this(2)] gap_spec_miss [OF False e(2) small] no False hi
      show ?thesis by (simp add: gap_def [symmetric] Let_def)
    qed
  qed
qed

lemma table_in_order:
  assumes "table_ok sc ft"
  shows "in_order (map ft (sort_order (\<lambda>i. start_sector (ft i))
      (filter (\<lambda>i. magic_number (ft i) = MAGIC_NUMBER) [0..<FILE_TABLE_ENTRIES])))"
proof -
  define xs where "xs = filter (\<lambda>i. magic_number (ft i) = MAGIC_NUMBER) [0..<FILE_TABLE_ENTRIES]"
  define ys where "ys = sort_key (\<lambda>i. start_sector (ft i)) xs"
  have "distinct ys" "set ys = set xs" "sorted (map (\<lambda>i. start_sector (ft i)) ys)"
    by (simp_all add: ys_def xs_def)
  then have "sorted_wrt (\<lambda>i j. i \<noteq> j \<and> start_sector (ft i) \<le> start_sector (ft j)) ys"
    by (auto simp: sorted_wrt_iff_nth_less sorted_iff_nth_mono_less nth_eq_iff_index_eq)
  then have "sorted_wrt (\<lambda>i j. fsize (ft i) \<noteq> 0 \<and> fsize (ft j) \<noteq> 0 \<longrightarrow> entry_hi (ft i) \<le> entry_lo (ft j)) ys"
  proof (rule sorted_wrt_mono_rel [rotated])
    fix i j assume i: "i \<in> set ys" and j: "j \<in> set ys"
      and le: "i \<noteq> j \<and> start_sector (ft i) \<le> start_sector (ft j)"
    show "fsize (ft i) \<noteq> 0 \<and> fsize (ft j) \<noteq> 0 \<longrightarrow> entry_hi (ft i) \<le> entry_lo (ft j)"
    proof
      assume ne: "fsize (ft i) \<noteq> 0 \<and> fsize (ft j) \<noteq> 0"
      then have "holds_data ft i" "holds_data ft j"
        using i j \<open>set ys = set xs\<close> by (auto simp: holds_data_def xs_def)
      with assms le have "apart_range (entry_lo (ft i)) (entry_hi (ft i)) (ft j)" by (simp add: table_ok_def)
      moreover have "entry_lo (ft i) \<le> entry_lo (ft j)" using le by (simp add: entry_lo_def word_le_nat_alt)
      moreover have "entry_lo (ft j) < entry_hi (ft j)" using ne by (simp add: entry_hi_gt)
      ultimately show "entry_hi (ft i) \<le> entry_lo (ft j)" by (auto simp: apart_range_def)
    qed
  qed
  then show ?thesis
    by (simp add: in_order_def sorted_wrt_map sort_order_sort_key ys_def xs_def)
qed

definition need_sectors :: "u64 \<Rightarrow> nat" where
  "need_sectors sz = (unat sz + 511) div 512"

lemma need_sectors_unat:
  assumes "unat sz \<le> 130560"
  shows "unat (ucast ((sz + 512 - 1) div 512 :: u64) :: u32) = need_sectors sz"
proof -
  have "sz + 512 - 1 = sz + 511" by simp
  moreover have "unat (sz + 511) = unat sz + 511"
    using assms by (subst unat_add_lem [THEN iffD1]) simp_all
  ultimately have d: "unat ((sz + 512 - 1) div 512) = need_sectors sz"
    by (simp only: unat_div need_sectors_def) simp
  moreover have "need_sectors sz < 2 ^ 32" using assms by (simp add: need_sectors_def less_mult_imp_div_less)
  ultimately show ?thesis by (simp add: unsigned_ucast_eq take_bit_nat_eq_self)
qed

lemma find_space_sound_complete:
  assumes ok: "table_ok sc ft" and sz: "unat sz \<le> 130560"
  shows "case find_space_for_file sc ft sz of
      Some st \<Rightarrow> 641 \<le> unat st \<and> unat st + need_sectors sz < unat sc \<and>
        (\<forall>i. holds_data ft i \<longrightarrow> apart_range (unat st) (unat st + need_sectors sz) (ft i))
    | None \<Rightarrow> \<forall>lo. 641 \<le> lo \<and> lo + need_sectors sz < unat sc \<longrightarrow>
        (\<exists>i. holds_data ft i \<and> \<not> apart_range lo (lo + need_sectors sz) (ft i))"
proof -
  define es where "es = map ft (sort_order (\<lambda>i. start_sector (ft i))
      (filter (\<lambda>i. magic_number (ft i) = MAGIC_NUMBER) [0..<FILE_TABLE_ENTRIES]))"
  define need where "need = (ucast ((sz + 512 - 1) div 512 :: u64) :: u32)"
  have n: "unat need = need_sectors sz" unfolding need_def by (rule need_sectors_unat [OF sz])
  have es: "(\<forall>e\<in>set es. fsize e \<noteq> 0 \<longrightarrow> P e) \<longleftrightarrow> (\<forall>i. holds_data ft i \<longrightarrow> P (ft i))"
    "(\<exists>e\<in>set es. fsize e \<noteq> 0 \<and> P e) \<longleftrightarrow> (\<exists>i. holds_data ft i \<and> P (ft i))" for P
    by (auto simp: es_def sort_order_sort_key holds_data_def)
  have sc: "unat sc < 65536" "641 < unat sc" using ok by (simp_all add: table_ok_def)
  have p: "unat (641 :: u32) = 641" by simp
  have "\<forall>e\<in>set es. fsize e \<noteq> 0 \<longrightarrow> entry_ok (unat sc) e \<and> unat (641 :: u32) \<le> entry_lo e"
    unfolding es using ok by (auto simp: table_ok_def entry_ok_def)
  from gap_loop_first_fit [OF _ this sc(1), of need] table_in_order [OF ok] sc(2)
  have spec: "gap_spec (unat sc) (need_sectors sz) es 641 (gap_loop need es 641)"
    by (simp add: es_def n)
  have find: "find_space_for_file sc ft sz = (case gap_loop need es 641 of
      (Some start, _) \<Rightarrow> Some start
    | (None, prev_end) \<Rightarrow> if ucast sc - 1 - prev_end \<ge> need then Some prev_end else None)"
    unfolding find_space_for_file_def Let_def es_def [symmetric] need_def [symmetric]
    by (simp add: FILE_TABLE_ENTRIES_def split: prod.splits option.splits)
  show ?thesis
  proof (cases "gap_loop need es 641")
    case (Pair r fin)
    show ?thesis
    proof (cases r)
      case (Some st)
      with Pair spec es(1) show ?thesis by (simp add: find gap_spec_def)
    next
      case None
      with Pair spec have fin: "641 \<le> unat fin" "unat fin < unat sc"
        "\<forall>i. holds_data ft i \<longrightarrow> entry_hi (ft i) \<le> unat fin"
        and full: "\<forall>lo. 641 \<le> lo \<and> lo < unat fin \<longrightarrow> (\<exists>i. holds_data ft i \<and> \<not> apart_range lo (lo + need_sectors sz) (ft i))"
        by (simp_all add: gap_spec_def es)
      have "unat (ucast sc :: u32) = unat sc" by (simp add: unsigned_ucast_eq take_bit_nat_eq_self less_trans [OF unsigned_less])
      then have "unat (ucast sc - 1 - fin :: u32) = unat sc - 1 - unat fin"
        using fin(1,2) by (simp add: unat_sub_if')
      then have gap: "ucast sc - 1 - fin \<ge> need \<longleftrightarrow> unat fin + need_sectors sz < unat sc"
        using fin(2) n by (auto simp: word_le_nat_alt)
      show ?thesis
      proof (cases "unat fin + need_sectors sz < unat sc")
        case True
        with Pair None gap fin show ?thesis by (auto simp: find apart_range_def)
      next
        case False
        then have "lo < unat fin" if "lo + need_sectors sz < unat sc" for lo using that by simp
        with False Pair None gap full show ?thesis by (simp add: find)
      qed
    qed
  qed
qed

section \<open>Properties\<close>

text \<open>
  C14: \<open>find_space_for_file\<close> is a first-fit search. On a well-formed table it returns a run of
  sectors behind the file table, inside the disk and disjoint from every file, long enough for the
  requested size; it fails only if every such run meets a file.
\<close>
theorem find_space_for_file_correct:
  assumes "table_ok sc ft" "unat sz \<le> 130560"
  shows "case find_space_for_file sc ft sz of
      Some st \<Rightarrow> 641 \<le> unat st \<and> unat st + need_sectors sz < unat sc \<and>
        (\<forall>i. holds_data ft i \<longrightarrow> apart_range (unat st) (unat st + need_sectors sz) (ft i))
    | None \<Rightarrow> \<forall>lo. 641 \<le> lo \<and> lo + need_sectors sz < unat sc \<longrightarrow>
        (\<exists>i. holds_data ft i \<and> \<not> apart_range lo (lo + need_sectors sz) (ft i))"
  by (rule find_space_sound_complete [OF assms])

text \<open>A table with two files and a gap of three sectors between them.\<close>

definition two_files :: "nat \<Rightarrow> file_entry_t" where
  "two_files i =
     (if i = 4 then \<lparr>magic_number = MAGIC_NUMBER, ftype = FILE, start_sector = 641, fsize = 600\<rparr>
      else if i = 2 then \<lparr>magic_number = MAGIC_NUMBER, ftype = FILE, start_sector = 646, fsize = 10\<rparr>
      else zero_entry)"

lemma holds_data_two_files: "holds_data two_files i \<longleftrightarrow> i = 4 \<or> i = 2"
  by (simp add: holds_data_def two_files_def zero_entry_def MAGIC_NUMBER_def FILE_TABLE_ENTRIES_def)

lemma two_files_ok: "table_ok 650 two_files"
  unfolding table_ok_def holds_data_two_files
  by (auto simp: two_files_def entry_ok_def apart_range_def entry_lo_def entry_hi_def)

theorem find_space_for_file_correct_witness:
  "case find_space_for_file 650 two_files 1500 of
      Some st \<Rightarrow> 641 \<le> unat st \<and> unat st + 3 < 650 \<and>
        (\<forall>i. i = 4 \<or> i = 2 \<longrightarrow> apart_range (unat st) (unat st + 3) (two_files i))
    | None \<Rightarrow> \<forall>lo. 641 \<le> lo \<and> lo + 3 < 650 \<longrightarrow> (\<exists>i. (i = 4 \<or> i = 2) \<and> \<not> apart_range lo (lo + 3) (two_files i))"
  using find_space_for_file_correct [OF two_files_ok, of 1500]
  by (cases "find_space_for_file 650 two_files 1500") (simp_all add: need_sectors_def holds_data_two_files)

text \<open>
  C37: the in-place insertion sort of the table's indices is the stable sort by start sector.
\<close>
theorem sort_order_correct: "sort_order sector xs = sort_key sector xs"
  by (rule sort_order_sort_key)



end
