(* ===== verification/FsVolume.thy ===== *)
theory FsVolume
  imports FsSpace
begin

unbundle bit_operations_syntax

text \<open>
  What the file system stores, as an abstract volume: the table on the disk, the contents of the
  files, and the function from paths to files they determine. The lemmas say how loading the
  table, resolving a path and editing a file act on it.
\<close>

section \<open>The volume\<close>

definition disk_table :: "'a fs_scheme \<Rightarrow> nat \<Rightarrow> file_entry_t" where
  "disk_table s i = entry_at (disk_bytes (disk (drive s)) 512 FILE_TABLE_SIZE) (16 * i)"

definition file_bytes :: "'a fs_scheme \<Rightarrow> file_entry_t \<Rightarrow> u8 list" where
  "file_bytes s e = disk_bytes (disk (drive s)) (512 * entry_lo e) (unat (fsize e))"

definition in_table :: "(nat \<Rightarrow> file_entry_t) \<Rightarrow> nat \<Rightarrow> bool" where
  "in_table ft i \<longleftrightarrow> i < FILE_TABLE_ENTRIES \<and> magic_number (ft i) = MAGIC_NUMBER"

text \<open>
  A listing is a sequence of entries of 64 bytes, each with a terminated name and the index of a
  file.
\<close>

definition listed_ok :: "(nat \<Rightarrow> file_entry_t) \<Rightarrow> u8 list \<Rightarrow> nat \<Rightarrow> bool" where
  "listed_ok ft buf j \<longleftrightarrow> in_table ft (unat (dir_index buf j)) \<and> 0 \<in> set (slice (64 * j) 60 buf)"

definition dirs_ok :: "(nat \<Rightarrow> file_entry_t) \<Rightarrow> (nat \<Rightarrow> u8 list) \<Rightarrow> bool" where
  "dirs_ok ft c \<longleftrightarrow> (\<forall>i. in_table ft i \<and> is_dir (ft i) \<longrightarrow>
     unat (fsize (ft i)) mod 64 = 0 \<and> (\<forall>j<unat (fsize (ft i)) div 64. listed_ok ft (c i) j))"

fun lookup :: "(nat \<Rightarrow> file_entry_t) \<Rightarrow> (nat \<Rightarrow> u8 list) \<Rightarrow> cstr list \<Rightarrow> nat \<Rightarrow> nat option" where
  "lookup ft c [] i = Some i"
| "lookup ft c (part # parts) i =
     (if fsize (ft i) = 0 then None
      else case dir_search ft (c i) (unat (fsize (ft i)) div 64) part (parts = []) of
             None \<Rightarrow> None
           | Some k \<Rightarrow> lookup ft c parts k)"

definition path_index :: "(nat \<Rightarrow> file_entry_t) \<Rightarrow> (nat \<Rightarrow> u8 list) \<Rightarrow> cstr \<Rightarrow> nat option" where
  "path_index ft c path =
     (if strlen path = 0 \<or> hd path \<noteq> 47 then None
      else case find_root ft of None \<Rightarrow> None | Some r \<Rightarrow> lookup ft c (str_split 47 path) r)"

definition contents :: "'a fs_scheme \<Rightarrow> (nat \<Rightarrow> file_entry_t) \<Rightarrow> nat \<Rightarrow> u8 list" where
  "contents s ft i = file_bytes s (ft i)"

definition path_file :: "'a fs_scheme \<Rightarrow> cstr \<Rightarrow> nat option" where
  "path_file s path = path_index (disk_table s) (contents s (disk_table s)) path"

definition fs_ready :: "'a fs_scheme \<Rightarrow> bool" where
  "fs_ready s \<longleftrightarrow> attached (drive s) \<and> writable_drive s"

text \<open>The invariant of the file system between operations.\<close>

definition fs_ok :: "'a fs_scheme \<Rightarrow> bool" where
  "fs_ok s \<longleftrightarrow> fs_ready s \<and> table_ok (sector_count s) (disk_table s) \<and>
     dirs_ok (disk_table s) (contents s (disk_table s))"

section \<open>Only the table's slots matter\<close>

definition agree :: "(nat \<Rightarrow> file_entry_t) \<Rightarrow> (nat \<Rightarrow> file_entry_t) \<Rightarrow> bool" where
  "agree ft ft' \<longleftrightarrow> (\<forall>i<FILE_TABLE_ENTRIES. ft i = ft' i)"

lemma agree_refl [simp]: "agree ft ft"
  by (simp add: agree_def)

lemma agree_sym: "agree ft ft' \<Longrightarrow> agree ft' ft"
  by (simp add: agree_def)

lemma agree_trans: "agree ft ft' \<Longrightarrow> agree ft' ft'' \<Longrightarrow> agree ft ft''"
  by (simp add: agree_def)

lemma agree_upd: "agree ft ft' \<Longrightarrow> agree (ft(i := e)) (ft'(i := e))"
  by (simp add: agree_def)

lemma holds_data_agree: "agree ft ft' \<Longrightarrow> holds_data ft i = holds_data ft' i"
  by (auto simp: agree_def holds_data_def)

lemma in_table_agree: "agree ft ft' \<Longrightarrow> in_table ft i = in_table ft' i"
  by (auto simp: agree_def in_table_def)

lemma agree_nth: "agree ft ft' \<Longrightarrow> i < FILE_TABLE_ENTRIES \<Longrightarrow> ft i = ft' i"
  by (simp add: agree_def)

lemma agree_in_table: "agree ft ft' \<Longrightarrow> in_table ft i \<Longrightarrow> ft i = ft' i"
  by (simp add: agree_def in_table_def)

lemma table_ok_agree:
  assumes "agree ft ft'" "table_ok sc ft"
  shows "table_ok sc ft'"
proof -
  have "holds_data ft' i \<Longrightarrow> ft' i = ft i \<and> holds_data ft i" for i
    using assms(1) holds_data_agree [OF assms(1)] by (auto simp: agree_def holds_data_def)
  with assms(2) show ?thesis unfolding table_ok_def by metis
qed

lemma find_root_agree: "agree ft ft' \<Longrightarrow> find_root ft = find_root ft'"
  unfolding find_root_def agree_def by (rule find_cong) auto

lemma find_root_in_table:
  assumes "find_root ft = Some r"
  shows "in_table ft r" "is_dir (ft r)"
  using assms unfolding find_root_def find_upt_Some_iff in_table_def is_dir_def by auto

lemma find_space_agree: "agree ft ft' \<Longrightarrow> find_space_for_file sc ft sz = find_space_for_file sc ft' sz"
proof -
  assume a: "agree ft ft'"
  define xs where "xs = filter (\<lambda>i. magic_number (ft i) = MAGIC_NUMBER) [0..<FILE_TABLE_ENTRIES]"
  have xs: "xs = filter (\<lambda>i. magic_number (ft' i) = MAGIC_NUMBER) [0..<FILE_TABLE_ENTRIES]"
    unfolding xs_def by (rule filter_cong) (use a in \<open>auto simp: agree_def\<close>)
  have eq: "ft i = ft' i" if "i \<in> set xs" for i using that a by (auto simp: xs_def agree_def)
  have "sort_key (\<lambda>i. start_sector (ft i)) xs = sort_key (\<lambda>i. start_sector (ft' i)) xs"
  proof (rule properties_for_sort_key)
    define ys where "ys = sort_key (\<lambda>i. start_sector (ft' i)) xs"
    show "mset (sort_key (\<lambda>i. start_sector (ft' i)) xs) = mset xs" by simp
    show "sorted (map (\<lambda>i. start_sector (ft i)) (sort_key (\<lambda>i. start_sector (ft' i)) xs))"
    proof -
      have "map (\<lambda>i. start_sector (ft i)) ys = map (\<lambda>i. start_sector (ft' i)) ys"
        using eq by (auto simp: ys_def)
      moreover have "sorted (map (\<lambda>i. start_sector (ft' i)) ys)" by (simp add: ys_def)
      ultimately show ?thesis by (simp only: ys_def)
    qed
    fix k assume "k \<in> set (sort_key (\<lambda>i. start_sector (ft' i)) xs)"
    then have k: "ft k = ft' k" using eq by simp
    have "filter (\<lambda>x. start_sector (ft k) = start_sector (ft x)) ys =
        filter (\<lambda>x. start_sector (ft' x) = start_sector (ft' k)) ys"
      by (rule filter_cong) (use eq k in \<open>auto simp: ys_def\<close>)
    also have "\<dots> = filter (\<lambda>x. start_sector (ft' x) = start_sector (ft' k)) xs"
      unfolding ys_def by (rule sort_key_stable)
    also have "\<dots> = filter (\<lambda>x. start_sector (ft k) = start_sector (ft x)) xs"
      by (rule filter_cong) (use eq k in auto)
    finally show "filter (\<lambda>x. start_sector (ft k) = start_sector (ft x)) (sort_key (\<lambda>i. start_sector (ft' i)) xs) =
        filter (\<lambda>x. start_sector (ft k) = start_sector (ft x)) xs" by (simp add: ys_def)
  qed
  moreover have "map ft (sort_key f xs) = map ft' (sort_key f xs)" for f :: "nat \<Rightarrow> u32"
    using eq by auto
  ultimately have "map ft (sort_order (\<lambda>i. start_sector (ft i)) xs) = map ft' (sort_order (\<lambda>i. start_sector (ft' i)) xs)"
    by (simp add: sort_order_sort_key)
  then show ?thesis unfolding find_space_for_file_def Let_def xs [symmetric] xs_def [symmetric] by simp
qed

lemma dir_search_Some:
  assumes "dir_search ft buf n part is_last = Some k"
  shows "\<exists>j<n. k = unat (dir_index buf j) \<and> magic_number (ft k) = MAGIC_NUMBER \<and> (ftype (ft k) = DIRECTORY \<or> is_last)"
  using assms unfolding dir_search_def map_option_eq_Some find_upt_Some_iff by auto

lemma dir_search_in_table:
  assumes "dirs_ok ft c" "in_table ft i" "is_dir (ft i)"
    and "dir_search ft (c i) (unat (fsize (ft i)) div 64) part is_last = Some k"
  shows "in_table ft k" "is_last \<or> is_dir (ft k)"
  using assms dir_search_Some [OF assms(4)] by (auto simp: dirs_ok_def listed_ok_def is_dir_def)

lemma lookup_in_table:
  assumes "dirs_ok ft c" "lookup ft c parts i = Some k" "in_table ft i" "parts = [] \<or> is_dir (ft i)"
  shows "in_table ft k"
  using assms(2-4)
proof (induction parts arbitrary: i)
  case (Cons part parts)
  then obtain m where m: "dir_search ft (c i) (unat (fsize (ft i)) div 64) part (parts = []) = Some m"
    "lookup ft c parts m = Some k" by (auto split: if_splits option.splits)
  from Cons.IH [OF m(2)] dir_search_in_table [OF assms(1) Cons.prems(2) _ m(1)] Cons.prems(3) show ?case
    by auto
qed simp

lemma path_index_in_table:
  assumes "dirs_ok ft c" "path_index ft c path = Some k"
  shows "in_table ft k"
proof -
  from assms(2) obtain r where "find_root ft = Some r" "lookup ft c (str_split 47 path) r = Some k"
    by (auto simp: path_index_def split: if_splits option.splits)
  with lookup_in_table [OF assms(1)] find_root_in_table show ?thesis by blast
qed

text \<open>
  Lookups only depend on the kinds of the entries and on the directories.
\<close>

definition same_dirs ::
    "(nat \<Rightarrow> file_entry_t) \<Rightarrow> (nat \<Rightarrow> u8 list) \<Rightarrow> (nat \<Rightarrow> file_entry_t) \<Rightarrow> (nat \<Rightarrow> u8 list) \<Rightarrow> bool" where
  "same_dirs ft c ft' c' \<longleftrightarrow>
     (\<forall>i<FILE_TABLE_ENTRIES. magic_number (ft' i) = magic_number (ft i) \<and> ftype (ft' i) = ftype (ft i)) \<and>
     (\<forall>i. in_table ft i \<and> is_dir (ft i) \<longrightarrow> fsize (ft' i) = fsize (ft i) \<and> (fsize (ft i) \<noteq> 0 \<longrightarrow> c' i = c i))"

text \<open>The part of it that lookups need: files may be added.\<close>

definition keeps_dirs ::
    "(nat \<Rightarrow> file_entry_t) \<Rightarrow> (nat \<Rightarrow> u8 list) \<Rightarrow> (nat \<Rightarrow> file_entry_t) \<Rightarrow> (nat \<Rightarrow> u8 list) \<Rightarrow> bool" where
  "keeps_dirs ft c ft' c' \<longleftrightarrow>
     (\<forall>i. in_table ft i \<longrightarrow> in_table ft' i \<and> ftype (ft' i) = ftype (ft i)) \<and>
     (\<forall>i. in_table ft i \<and> is_dir (ft i) \<longrightarrow> fsize (ft' i) = fsize (ft i) \<and> (fsize (ft i) \<noteq> 0 \<longrightarrow> c' i = c i))"

lemma same_keeps_dirs: "same_dirs ft c ft' c' \<Longrightarrow> keeps_dirs ft c ft' c'"
  by (auto simp: same_dirs_def keeps_dirs_def in_table_def)

lemma dir_search_kinds:
  assumes "\<forall>i. in_table ft i \<longrightarrow> in_table ft' i \<and> ftype (ft' i) = ftype (ft i)"
    and "\<forall>j<n. listed_ok ft buf j"
  shows "dir_search ft' buf n part is_last = dir_search ft buf n part is_last"
proof -
  have "List.find (\<lambda>j. strcmp (dir_name buf j) part \<and> magic_number (ft' (unat (dir_index buf j))) = MAGIC_NUMBER \<and>
        (ftype (ft' (unat (dir_index buf j))) = DIRECTORY \<or> is_last)) [0..<n] =
      List.find (\<lambda>j. strcmp (dir_name buf j) part \<and> magic_number (ft (unat (dir_index buf j))) = MAGIC_NUMBER \<and>
        (ftype (ft (unat (dir_index buf j))) = DIRECTORY \<or> is_last)) [0..<n]"
    by (rule find_cong) (use assms in \<open>auto simp: listed_ok_def in_table_def\<close>)
  then show ?thesis by (simp add: dir_search_def)
qed

lemma lookup_keeps:
  assumes "keeps_dirs ft c ft' c'" "dirs_ok ft c" "in_table ft i" "parts = [] \<or> is_dir (ft i)"
  shows "lookup ft' c' parts i = lookup ft c parts i"
  using assms(3,4)
proof (induction parts arbitrary: i)
  case (Cons part parts)
  then have d: "is_dir (ft i)" by simp
  have ds: "dir_search ft' (c i) (unat (fsize (ft i)) div 64) part (parts = []) =
      dir_search ft (c i) (unat (fsize (ft i)) div 64) part (parts = [])"
    by (rule dir_search_kinds) (use assms(1,2) Cons.prems(1) d in \<open>auto simp: keeps_dirs_def dirs_ok_def\<close>)
  have eq: "fsize (ft' i) = fsize (ft i)" "fsize (ft i) \<noteq> 0 \<Longrightarrow> c' i = c i"
    using assms(1) Cons.prems(1) d by (auto simp: keeps_dirs_def)
  show ?case
  proof (cases "dir_search ft (c i) (unat (fsize (ft i)) div 64) part (parts = [])")
    case None
    with ds eq show ?thesis by simp
  next
    case (Some m)
    from Cons.IH [of m] dir_search_in_table [OF assms(2) Cons.prems(1) d Some]
    have "lookup ft' c' parts m = lookup ft c parts m" by auto
    with Some ds eq show ?thesis by simp
  qed
qed simp

lemma path_index_keeps:
  assumes "keeps_dirs ft c ft' c'" "dirs_ok ft c" "find_root ft' = find_root ft"
  shows "path_index ft' c' path = path_index ft c path"
  using lookup_keeps [OF assms(1,2)] find_root_in_table assms(3)
  by (auto simp: path_index_def split: option.splits)

lemma path_index_same:
  assumes "same_dirs ft c ft' c'" "dirs_ok ft c"
  shows "path_index ft' c' path = path_index ft c path"
proof (rule path_index_keeps [OF same_keeps_dirs [OF assms(1)] assms(2)])
  show "find_root ft' = find_root ft"
    unfolding find_root_def by (rule find_cong) (use assms(1) in \<open>auto simp: same_dirs_def\<close>)
qed

lemma dirs_ok_same:
  assumes "same_dirs ft c ft' c'" "dirs_ok ft c"
  shows "dirs_ok ft' c'"
proof -
  have it: "in_table ft' i = in_table ft i" "in_table ft i \<Longrightarrow> is_dir (ft' i) = is_dir (ft i)" for i
    using assms(1) by (auto simp: same_dirs_def in_table_def is_dir_def)
  show ?thesis unfolding dirs_ok_def
  proof (intro allI impI)
    fix i assume "in_table ft' i \<and> is_dir (ft' i)"
    then have i: "in_table ft i" "is_dir (ft i)" using it by auto
    then have eq: "fsize (ft' i) = fsize (ft i)" "fsize (ft i) \<noteq> 0 \<Longrightarrow> c' i = c i"
      using assms(1) by (auto simp: same_dirs_def)
    have ok: "unat (fsize (ft i)) mod 64 = 0" "\<And>j. j < unat (fsize (ft i)) div 64 \<Longrightarrow> listed_ok ft (c i) j"
      using assms(2) i by (auto simp: dirs_ok_def)
    show "unat (fsize (ft' i)) mod 64 = 0 \<and> (\<forall>j<unat (fsize (ft' i)) div 64. listed_ok ft' (c' i) j)"
      using eq ok it(1) by (cases "fsize (ft i) = 0") (auto simp: listed_ok_def)
  qed
qed

lemma same_dirs_agree: "agree ft ft' \<Longrightarrow> same_dirs ft (contents s ft) ft' (contents s ft')"
  by (auto simp: agree_def same_dirs_def contents_def in_table_def)

section \<open>The table on the disk\<close>

lemma length_entry_bytes [simp]: "length (entry_bytes e) = 16"
  by (simp add: entry_bytes_def)

lemma entry_at_append: "length xs = off \<Longrightarrow> entry_at (xs @ entry_bytes e @ ys) off = e"
  by (simp add: entry_at_def entry_bytes_def codec_simps)

lemma table_bytes_upto: "length (concat (map (\<lambda>i. entry_bytes (ft i)) [0..<n])) = 16 * n"
  by (induction n) simp_all

lemma length_table_bytes [simp]: "length (table_bytes ft) = FILE_TABLE_SIZE"
  by (simp add: table_bytes_def table_bytes_upto FILE_TABLE_ENTRIES_def FILE_TABLE_SIZE_def)

lemma entry_at_table_bytes:
  assumes "i < FILE_TABLE_ENTRIES"
  shows "entry_at (table_bytes ft) (16 * i) = ft i"
proof -
  have "[0..<FILE_TABLE_ENTRIES] = [0..<i] @ i # [Suc i..<FILE_TABLE_ENTRIES]"
    using assms upt_add_eq_append [of 0 i "FILE_TABLE_ENTRIES - i"] by (simp add: upt_conv_Cons)
  then have "table_bytes ft = concat (map (\<lambda>i. entry_bytes (ft i)) [0..<i]) @ entry_bytes (ft i) @
      concat (map (\<lambda>i. entry_bytes (ft i)) [Suc i..<FILE_TABLE_ENTRIES])"
    by (simp add: table_bytes_def)
  then show ?thesis by (simp only: entry_at_append table_bytes_upto)
qed

text \<open>What reading leaves alone.\<close>

definition calm :: "'a fs_scheme \<Rightarrow> 'a fs_scheme \<Rightarrow> bool" where
  "calm s s' \<longleftrightarrow> disk (drive s') = disk (drive s) \<and> attached (drive s') = attached (drive s) \<and>
     sector_count s' = sector_count s \<and> writable_drive s' = writable_drive s \<and> ub s' = ub s"

lemma calm_refl [simp]: "calm s s"
  by (simp add: calm_def)

lemma calm_trans: "calm s t \<Longrightarrow> calm t u \<Longrightarrow> calm s u"
  by (simp add: calm_def)

lemma calm_free [simp]: "calm s (free_file_table t) = calm s t"
  by (simp add: calm_def free_file_table_def)

lemma calm_disk_table: "calm s s' \<Longrightarrow> disk_table s' = disk_table s"
  by (auto simp: calm_def disk_table_def)

lemma calm_file_bytes: "calm s s' \<Longrightarrow> file_bytes s' e = file_bytes s e"
  by (simp add: calm_def file_bytes_def)

lemma calm_contents: "calm s s' \<Longrightarrow> contents s' ft = contents s ft"
  by (simp add: contents_def calm_file_bytes fun_eq_iff)

lemma calm_path_file: "calm s s' \<Longrightarrow> path_file s' p = path_file s p"
  by (simp add: path_file_def calm_disk_table calm_contents)

lemma calm_fs_ready: "calm s s' \<Longrightarrow> fs_ready s' = fs_ready s"
  by (simp add: calm_def fs_ready_def)

lemma calm_fs_ok: "calm s s' \<Longrightarrow> fs_ok s' = fs_ok s"
  by (simp add: fs_ok_def calm_fs_ready calm_disk_table calm_contents) (simp add: calm_def)

lemma fs_malloc_calm:
  assumes "n \<le> 0x100000"
  shows "\<exists>buf s'. fs_malloc n s = (buf, s') \<and> length buf = n \<and> calm s s' \<and> file_table s' = file_table s"
  using assms by (simp add: fs_malloc_def flag_ub_def calm_def HEAP_SIZE_def)

lemma fs_read_calm:
  assumes "attached (drive s)" "in_range (sector_count s) lba sz" "length t = unat sz"
  shows "\<exists>s'. fs_read lba t sz s = Some (disk_bytes (disk (drive s)) (512 * unat lba) (unat sz), s') \<and>
    calm s s' \<and> file_table s' = file_table s"
proof -
  from read_sectors_returns [OF assms(1,2), of t] obtain d' where
    "read_sectors (sector_count s) lba t sz (drive s) =
       Some (filled (disk (drive s)) (256 * unat lba) (unat sz) t ((unat sz + 511) div 512 * 256), d')"
    "disk d' = disk (drive s)" "attached d' = attached (drive s)" by (auto simp: same_drive_def)
  moreover have "unat sz \<le> 2 * ((unat sz + 511) div 512 * 256)" by simp
  ultimately show ?thesis
    using filled_all [OF assms(3)] by (auto simp: fs_read_def calm_def)
qed

text \<open>Transfers of size 0 do nothing.\<close>

lemma sectors_of_0 [simp]: "sectors_of 0 = 0"
  using sectors_of_unat [of 0] by (simp add: unat_eq_zero)

lemma fs_read_0 [simp]: "fs_read lba t 0 s = Some (t, s)"
  by (simp add: fs_read_def read_sectors_def)

lemma fs_write_0 [simp]: "fs_write lba t 0 s = Some s"
  by (simp add: fs_write_def write_sectors_def)

text \<open>Reading into a longer buffer.\<close>

lemma fs_read_prefix:
  assumes "attached (drive s)" "in_range (sector_count s) lba sz" "unat sz \<le> length t" "even (unat sz)"
  shows "\<exists>s'. fs_read lba t sz s = Some (disk_bytes (disk (drive s)) (512 * unat lba) (unat sz) @ drop (unat sz) t, s') \<and>
    calm s s' \<and> file_table s' = file_table s"
proof -
  define k where "k = (unat sz + 511) div 512 * 256"
  from read_sectors_returns [OF assms(1,2), of t] obtain d' where
    "read_sectors (sector_count s) lba t sz (drive s) = Some (filled (disk (drive s)) (256 * unat lba) (unat sz) t k, d')"
    "disk d' = disk (drive s)" "attached d' = attached (drive s)" by (auto simp: same_drive_def k_def)
  moreover have "unat sz \<le> 2 * k" by (simp add: k_def)
  then have "filled (disk (drive s)) (256 * unat lba) (unat sz) t k =
      disk_bytes (disk (drive s)) (512 * unat lba) (unat sz) @ drop (unat sz) t"
    using assms(3,4) by (intro nth_equalityI) (auto simp: filled_def disk_bytes_def nth_append)
  ultimately show ?thesis by (auto simp: fs_read_def calm_def)
qed

lemma in_range_entry:
  assumes "entry_ok (unat sc) e" "fsize e \<noteq> 0"
  shows "in_range sc (start_sector e) (ucast (fsize e))" "unat (ucast (fsize e) :: u64) = unat (fsize e)"
proof -
  show u: "unat (ucast (fsize e) :: u64) = unat (fsize e)"
    by (simp add: unsigned_ucast_eq take_bit_nat_eq_self less_trans [OF unsigned_less])
  have "0 < unat (fsize e)" using assms(2) by (simp add: unat_gt_0)
  then show "in_range sc (start_sector e) (ucast (fsize e))"
    using assms(1) u by (simp add: in_range_def entry_ok_def entry_hi_def)
qed

lemma read_entry_calm:
  assumes "attached (drive s)" "entry_ok (unat (sector_count s)) e" "fsize e \<noteq> 0"
  shows "\<exists>s'. read_entry e s = Some (file_bytes s e, s') \<and> calm s s' \<and> file_table s' = file_table s"
proof -
  from assms(2) have "unat (fsize e) \<le> 0x100000" by (simp add: entry_ok_def)
  from fs_malloc_calm [OF this, of s] obtain buf s1 where m: "fs_malloc (unat (fsize e)) s = (buf, s1)"
    "length buf = unat (fsize e)" "calm s s1" "file_table s1 = file_table s" by blast
  note r = in_range_entry [OF assms(2,3)]
  have "attached (drive s1)" "in_range (sector_count s1) (start_sector e) (ucast (fsize e))"
    "length buf = unat (ucast (fsize e) :: u64)" using m assms(1) r by (auto simp: calm_def)
  from fs_read_calm [OF this] obtain s2 where "fs_read (start_sector e) buf (ucast (fsize e)) s1 =
      Some (file_bytes s e, s2)" "calm s1 s2" "file_table s2 = file_table s1"
    using m(3) by (auto simp: r(2) file_bytes_def entry_lo_def calm_def)
  with m show ?thesis by (auto simp: read_entry_def intro: calm_trans)
qed

lemma in_range_table: "641 < unat sc \<Longrightarrow> in_range sc 1 (word_of_nat FILE_TABLE_SIZE)"
  by (simp add: in_range_def FILE_TABLE_SIZE_def)

lemma load_file_table_calm:
  assumes "attached (drive s)" "641 < unat (sector_count s)"
  shows "\<exists>s'. load_file_table s = Some s' \<and> calm s s' \<and> file_table s' \<noteq> None \<and> agree (table s') (disk_table s)"
proof -
  define s1 where "s1 = (if file_table s \<noteq> None then free_file_table s else s)"
  have c1: "calm s s1" by (simp add: s1_def)
  obtain buf s2 where m: "fs_malloc FILE_TABLE_SIZE s1 = (buf, s2)" "length buf = FILE_TABLE_SIZE" "calm s1 s2"
    using fs_malloc_calm [of FILE_TABLE_SIZE s1] by (auto simp: FILE_TABLE_SIZE_def)
  have c2: "calm s s2" using c1 m(3) by (rule calm_trans)
  have sz: "unat (word_of_nat FILE_TABLE_SIZE :: u64) = FILE_TABLE_SIZE" by (simp add: FILE_TABLE_SIZE_def)
  have "attached (drive s2)" "in_range (sector_count s2) 1 (word_of_nat FILE_TABLE_SIZE)"
    "length buf = unat (word_of_nat FILE_TABLE_SIZE :: u64)"
    using c2 assms in_range_table m(2) sz by (auto simp: calm_def)
  from fs_read_calm [OF this] obtain s3 where r: "fs_read 1 buf (word_of_nat FILE_TABLE_SIZE) s2 =
      Some (disk_bytes (disk (drive s)) 512 FILE_TABLE_SIZE, s3)" "calm s2 s3"
    using c2 by (auto simp: sz calm_def)
  define ft where "ft = table_of (disk_bytes (disk (drive s)) 512 FILE_TABLE_SIZE) (junk s1 (mallocs s1))"
  have "load_file_table s = Some (s3\<lparr>file_table := Some ft\<rparr>)"
    unfolding load_file_table_def Let_def s1_def [symmetric] m(1) ft_def by (simp add: r(1))
  moreover have "calm s (s3\<lparr>file_table := Some ft\<rparr>)" using calm_trans [OF c2 r(2)] by (simp add: calm_def)
  moreover have "agree ft (disk_table s)" by (simp add: agree_def ft_def table_of_def disk_table_def)
  ultimately show ?thesis by (auto simp: table_def)
qed

section \<open>Resolving paths\<close>

lemma resolve_loop_lookup:
  assumes "attached (drive s)" "table_ok (sector_count s) (table s)" "dirs_ok (table s) (contents s (table s))"
    and "in_table (table s) i" "parts = [] \<or> is_dir (table s i)"
  shows "\<exists>s'. resolve_loop parts i s = Some (lookup (table s) (contents s (table s)) parts i, s') \<and>
    calm s s' \<and> file_table s' = file_table s"
  using assms
proof (induction parts arbitrary: i s)
  case Nil
  then show ?case by simp
next
  case (Cons part parts)
  define ft where "ft = table s"
  show ?case
  proof (cases "fsize (ft i) = 0")
    case True
    then show ?thesis by (simp add: ft_def Let_def)
  next
    case False
    then have "holds_data ft i" using Cons.prems(4) by (simp add: ft_def holds_data_def in_table_def)
    then have "entry_ok (unat (sector_count s)) (ft i)" using Cons.prems(2) by (simp add: table_ok_def ft_def)
    from read_entry_calm [OF Cons.prems(1) this False] obtain s1 where
      s1: "read_entry (ft i) s = Some (contents s ft i, s1)" "calm s s1" "file_table s1 = file_table s"
      by (auto simp: contents_def)
    have t1: "table s1 = ft" using s1(3) by (simp add: table_def ft_def)
    have d: "is_dir (ft i)" using Cons.prems(5) by (simp add: ft_def)
    show ?thesis
    proof (cases "dir_search ft (contents s ft i) (unat (fsize (ft i)) div 64) part (parts = [])")
      case None
      with False s1 t1 show ?thesis by (simp add: ft_def [symmetric] Let_def)
    next
      case (Some k)
      have "attached (drive s1)" "table_ok (sector_count s1) (table s1)" "dirs_ok (table s1) (contents s1 (table s1))"
        using Cons.prems(1-3) s1(2) t1 calm_contents [OF s1(2)] by (auto simp: calm_def ft_def)
      moreover have "in_table (table s1) k" "parts = [] \<or> is_dir (table s1 k)"
        using dir_search_in_table [OF Cons.prems(3,4) _ Some [unfolded ft_def]] d t1 by (auto simp: ft_def)
      ultimately obtain s2 where "resolve_loop parts k s1 = Some (lookup ft (contents s ft) parts k, s2)"
        "calm s1 s2" "file_table s2 = file_table s1"
        using Cons.IH [of s1 k] t1 calm_contents [OF s1(2)] by auto
      with False s1 t1 Some show ?thesis by (auto simp: ft_def [symmetric] Let_def intro: calm_trans)
    qed
  qed
qed

lemma resolve_path_index:
  assumes "attached (drive s)" "table_ok (sector_count s) (table s)" "dirs_ok (table s) (contents s (table s))"
  shows "\<exists>s'. resolve_path path s = Some (path_index (table s) (contents s (table s)) path, s') \<and>
    calm s s' \<and> file_table s' = file_table s"
proof (cases "find_root (table s)")
  case None
  then show ?thesis by (simp add: resolve_path_def path_index_def)
next
  case (Some r)
  with resolve_loop_lookup [OF assms find_root_in_table(1)] find_root_in_table(2) show ?thesis
    by (auto simp: resolve_path_def path_index_def)
qed

text \<open>Loading the table and resolving a path in a well-formed file system.\<close>

lemma agree_volume:
  assumes "fs_ok s" "calm s s'" "agree (table s') (disk_table s)"
  shows "attached (drive s')" "table_ok (sector_count s') (table s')" "dirs_ok (table s') (contents s' (table s'))"
    "path_index (table s') (contents s' (table s')) p = path_file s p"
proof -
  note sd = same_dirs_agree [OF agree_sym [OF assms(3)], of s]
  show "attached (drive s')" using assms(1,2) by (simp add: fs_ok_def fs_ready_def calm_def)
  show "table_ok (sector_count s') (table s')"
    using assms(1,2) table_ok_agree [OF agree_sym [OF assms(3)]] by (simp add: fs_ok_def calm_def)
  show "dirs_ok (table s') (contents s' (table s'))"
    unfolding calm_contents [OF assms(2)] by (rule dirs_ok_same [OF sd]) (use assms(1) in \<open>simp add: fs_ok_def\<close>)
  show "path_index (table s') (contents s' (table s')) p = path_file s p"
    unfolding calm_contents [OF assms(2)] path_file_def
    by (rule path_index_same [OF sd]) (use assms(1) in \<open>simp add: fs_ok_def\<close>)
qed

lemma load_ok:
  assumes "fs_ok s"
  shows "\<exists>s'. load_file_table s = Some s' \<and> calm s s' \<and> file_table s' \<noteq> None \<and> agree (table s') (disk_table s)"
  by (rule load_file_table_calm) (use assms in \<open>simp_all add: fs_ok_def fs_ready_def table_ok_def\<close>)

lemma resolve_ok:
  assumes "fs_ok s" "calm s s1" "agree (table s1) (disk_table s)"
  shows "\<exists>s2. resolve_path p s1 = Some (path_file s p, s2) \<and> calm s s2 \<and> file_table s2 = file_table s1"
  using resolve_path_index [OF agree_volume(1-3) [OF assms], of p] agree_volume(4) [OF assms, of p] assms(2)
  by (auto intro: calm_trans)

lemma path_file_in_table: "fs_ok s \<Longrightarrow> path_file s p = Some i \<Longrightarrow> in_table (disk_table s) i"
  by (auto simp: fs_ok_def path_file_def intro: path_index_in_table)

lemma lookup_file_ok:
  assumes "fs_ok s" "is_valid_path (Some p)"
  shows "\<exists>s'. lookup_file (Some p) s = Some (path_file s p, s') \<and> calm s s' \<and>
    (case path_file s p of None \<Rightarrow> file_table s' = None
     | Some i \<Rightarrow> file_table s' \<noteq> None \<and> agree (table s') (disk_table s))"
proof -
  obtain s1 where s1: "load_file_table s = Some s1" "calm s s1" "file_table s1 \<noteq> None" "agree (table s1) (disk_table s)"
    using load_ok [OF assms(1)] by blast
  obtain s2 where s2: "resolve_path p s1 = Some (path_file s p, s2)" "calm s s2" "file_table s2 = file_table s1"
    using resolve_ok [OF assms(1) s1(2,4)] by blast
  have t: "table s2 = table s1" using s2(3) by (simp add: table_def)
  show ?thesis
  proof (cases "path_file s p")
    case None
    with s1 s2 assms(2) show ?thesis by (simp add: lookup_file_def free_file_table_def calm_def)
  next
    case (Some i)
    from path_file_in_table [OF assms(1) Some] agree_nth [OF s1(4)] have "magic_number (table s2 i) = MAGIC_NUMBER"
      by (simp add: in_table_def t)
    with Some s1 s2 t assms(2) show ?thesis by (simp add: lookup_file_def)
  qed
qed

lemma file_exists_ok:
  assumes "fs_ok s" "is_valid_path (Some p)"
  shows "\<exists>s'. filesystem_file_exists (Some p) s = Some (path_file s p \<noteq> None, s') \<and> calm s s'"
  using lookup_file_ok [OF assms] by (cases "path_file s p") (auto simp: filesystem_file_exists_def)

lemma read_file_ok:
  assumes "fs_ok s" "is_valid_path (Some p)" "path_file s p = Some i"
    and "length out = unat (fsize (disk_table s i))"
  shows "\<exists>s'. filesystem_read_file (Some p) out s = Some ((True, file_bytes s (disk_table s i)), s') \<and>
    calm s s' \<and> file_table s' = None"
proof -
  obtain s1 where s1: "lookup_file (Some p) s = Some (Some i, s1)" "calm s s1" "agree (table s1) (disk_table s)"
    using lookup_file_ok [OF assms(1,2)] assms(3) by auto
  have it: "in_table (disk_table s) i" by (rule path_file_in_table [OF assms(1,3)])
  then have e: "table s1 i = disk_table s i" using agree_nth [OF s1(3)] by (simp add: in_table_def)
  define en where "en = disk_table s i"
  show ?thesis
  proof (cases "fsize en = 0")
    case True
    with s1(1) e have "filesystem_read_file (Some p) out s = Some ((True, out), free_file_table s1)"
      by (simp add: filesystem_read_file_def en_def)
    moreover have "out = file_bytes s en" using True assms(4) by (simp add: en_def file_bytes_def disk_bytes_def)
    ultimately show ?thesis using s1(2) by (simp add: en_def) (simp add: free_file_table_def)
  next
    case False
    then have "entry_ok (unat (sector_count s)) en"
      using assms(1) it by (simp add: fs_ok_def table_ok_def holds_data_def in_table_def en_def)
    note r = in_range_entry [OF this False]
    have "attached (drive s1)" "in_range (sector_count s1) (start_sector en) (ucast (fsize en))"
      "length out = unat (ucast (fsize en) :: u64)"
      using s1(2) assms(1,4) r by (auto simp: calm_def fs_ok_def fs_ready_def en_def)
    from fs_read_calm [OF this] obtain s2 where
      "fs_read (start_sector en) out (ucast (fsize en)) s1 = Some (file_bytes s en, s2)" "calm s1 s2"
      using s1(2) by (auto simp: r(2) file_bytes_def entry_lo_def calm_def)
    with s1(1) e have "filesystem_read_file (Some p) out s = Some ((True, file_bytes s en), free_file_table s2)"
      by (simp add: filesystem_read_file_def en_def)
    with \<open>calm s1 s2\<close> s1(2) show ?thesis by (simp add: en_def) (auto simp: calm_def free_file_table_def)
  qed
qed

end
