(* ===== verification/FsCorrect.thy ===== *)
theory FsCorrect
  imports FsVolume
begin

unbundle bit_operations_syntax

text \<open>
  Correctness of reading and writing files: on a well-formed volume \<open>filesystem_read_file\<close> returns
  the content of the file a path names, and \<open>filesystem_write_file\<close> changes that content, or adds
  the file, and leaves every other file alone.
\<close>

section \<open>Writing sectors\<close>

text \<open>What writing leaves alone.\<close>

definition same_static :: "'a fs_scheme \<Rightarrow> 'a fs_scheme \<Rightarrow> bool" where
  "same_static s s' \<longleftrightarrow> fs_ready s' = fs_ready s \<and> sector_count s' = sector_count s \<and> ub s' = ub s"

lemma same_static_refl [simp]: "same_static s s"
  by (simp add: same_static_def)

lemma same_static_trans: "same_static s t \<Longrightarrow> same_static t u \<Longrightarrow> same_static s u"
  by (simp add: same_static_def)

lemma calm_same_static: "calm s s' \<Longrightarrow> same_static s s'"
  by (simp add: same_static_def calm_fs_ready) (simp add: calm_def)

lemma fs_write_effect:
  assumes "fs_ready s" "in_range (sector_count s) lba sz" "unat sz \<le> length src"
  shows "\<exists>s'. fs_write lba src sz s = Some s' \<and> file_table s' = file_table s \<and> same_static s s' \<and>
    disk_bytes (disk (drive s')) (512 * unat lba) (unat sz) = take (unat sz) src \<and>
    (\<forall>off n. off + n \<le> 512 * unat lba \<or> 512 * (unat lba + need_sectors sz) \<le> off \<longrightarrow>
       disk_bytes (disk (drive s')) off n = disk_bytes (disk (drive s)) off n)"
proof -
  from assms(1) have "attached (drive s)" "writable_drive s = True" by (simp_all add: fs_ready_def)
  from ata.wr_in_range [OF this(1) assms(2,3)] obtain d' where
    "write_sectors True (sector_count s) lba src sz (drive s) = Some d'" "attached d'"
    "disk_bytes (disk d') (512 * unat lba) (unat sz) = take (unat sz) src"
    "\<forall>off n. off + n \<le> 512 * unat lba \<or> 512 * (unat lba + need_sectors sz) \<le> off \<longrightarrow>
       disk_bytes (disk d') off n = disk_bytes (disk (drive s)) off n"
    unfolding sectors_needed_by_def need_sectors_def by blast
  with \<open>writable_drive s = True\<close> \<open>attached (drive s)\<close> show ?thesis
    by (simp add: fs_write_def same_static_def fs_ready_def)
qed

lemma file_bytes_within: "512 * entry_lo e + unat (fsize e) \<le> 512 * entry_hi e"
proof -
  have "unat (fsize e) \<le> 512 * ((unat (fsize e) + 511) div 512)" by (simp add: mult.commute)
  then show ?thesis by (simp add: entry_lo_def entry_hi_def)
qed

text \<open>Writing a file's sectors: the other files keep their content.\<close>

lemma fs_write_file_bytes:
  assumes "fs_ready s" "unat sz \<le> 130560" "unat st + need_sectors sz < unat (sector_count s)"
    and "unat sz \<le> length src" "641 \<le> unat st"
  shows "\<exists>s'. fs_write st src sz s = Some s' \<and> file_table s' = file_table s \<and> same_static s s' \<and>
    (\<forall>e. start_sector e = st \<and> unat (fsize e) = unat sz \<longrightarrow> file_bytes s' e = take (unat sz) src) \<and>
    (\<forall>e. apart_range (unat st) (unat st + need_sectors sz) e \<longrightarrow> file_bytes s' e = file_bytes s e) \<and>
    disk_table s' = disk_table s"
proof (cases "sz = 0")
  case True
  then show ?thesis by (simp add: file_bytes_def disk_bytes_def)
next
  case False
  then have "in_range (sector_count s) st sz"
    using assms(2,3) by (simp add: in_range_def need_sectors_def unat_gt_0)
  from fs_write_effect [OF assms(1) this assms(4)] obtain s' where s': "fs_write st src sz s = Some s'"
    "file_table s' = file_table s" "same_static s s'"
    "disk_bytes (disk (drive s')) (512 * unat st) (unat sz) = take (unat sz) src"
    and other: "\<And>off n. off + n \<le> 512 * unat st \<or> 512 * (unat st + need_sectors sz) \<le> off \<Longrightarrow>
       disk_bytes (disk (drive s')) off n = disk_bytes (disk (drive s)) off n" by blast
  have "file_bytes s' e = take (unat sz) src" if "start_sector e = st" "unat (fsize e) = unat sz" for e
    using s'(4) that by (simp add: file_bytes_def entry_lo_def)
  moreover have "file_bytes s' e = file_bytes s e" if "apart_range (unat st) (unat st + need_sectors sz) e" for e
    unfolding file_bytes_def
  proof (rule other)
    show "512 * entry_lo e + unat (fsize e) \<le> 512 * unat st \<or> 512 * (unat st + need_sectors sz) \<le> 512 * entry_lo e"
      using that file_bytes_within [of e] unfolding apart_range_def by (elim disjE) simp_all
  qed
  moreover have "disk_bytes (disk (drive s')) 512 FILE_TABLE_SIZE = disk_bytes (disk (drive s)) 512 FILE_TABLE_SIZE"
    by (rule other) (use assms(5) in \<open>simp add: FILE_TABLE_SIZE_def\<close>)
  then have "disk_table s' = disk_table s" by (simp add: disk_table_def fun_eq_iff)
  ultimately show ?thesis using s' by blast
qed

text \<open>Saving the table: what is loaded afterwards is what was in memory.\<close>

lemma save_file_table_effect:
  assumes "fs_ready s" "641 < unat (sector_count s)"
  shows "\<exists>s'. save_file_table s = Some s' \<and> file_table s' = file_table s \<and> same_static s s' \<and>
    agree (disk_table s') (table s) \<and> (\<forall>e. 641 \<le> entry_lo e \<longrightarrow> file_bytes s' e = file_bytes s e)"
proof -
  have sz: "unat (word_of_nat FILE_TABLE_SIZE :: u64) = FILE_TABLE_SIZE" by (simp add: FILE_TABLE_SIZE_def)
  have "unat (word_of_nat FILE_TABLE_SIZE :: u64) \<le> length (table_bytes (table s))" by (simp add: sz)
  from fs_write_effect [OF assms(1) in_range_table [OF assms(2)] this] obtain s' where s':
    "save_file_table s = Some s'" "file_table s' = file_table s" "same_static s s'"
    "disk_bytes (disk (drive s')) 512 FILE_TABLE_SIZE = table_bytes (table s)"
    and other: "\<And>off n. off + n \<le> 512 \<or> 512 * (1 + need_sectors (word_of_nat FILE_TABLE_SIZE)) \<le> off \<Longrightarrow>
       disk_bytes (disk (drive s')) off n = disk_bytes (disk (drive s)) off n"
    unfolding save_file_table_def sz by auto
  have "agree (disk_table s') (table s)"
    using s'(4) by (simp add: agree_def disk_table_def entry_at_table_bytes)
  moreover have "file_bytes s' e = file_bytes s e" if "641 \<le> entry_lo e" for e
    unfolding file_bytes_def by (rule other) (use that in \<open>simp add: need_sectors_def FILE_TABLE_SIZE_def\<close>)
  ultimately show ?thesis using s' by blast
qed

section \<open>Editing a file\<close>

lemma table_ok_clear:
  assumes "table_ok sc ft"
  shows "table_ok sc (ft(i := (ft i)\<lparr>magic_number := 0\<rparr>))"
    and "holds_data (ft(i := (ft i)\<lparr>magic_number := 0\<rparr>)) j \<longleftrightarrow> holds_data ft j \<and> j \<noteq> i"
proof -
  show h: "holds_data (ft(i := (ft i)\<lparr>magic_number := 0\<rparr>)) j \<longleftrightarrow> holds_data ft j \<and> j \<noteq> i" for j
    by (auto simp: holds_data_def MAGIC_NUMBER_def)
  then show "table_ok sc (ft(i := (ft i)\<lparr>magic_number := 0\<rparr>))"
    using assms by (auto simp: table_ok_def)
qed

text \<open>Placing an entry on free sectors keeps the table well formed.\<close>

lemma table_ok_place:
  assumes "table_ok sc ft" "unat (fsize e) \<le> 130560" "641 \<le> unat (start_sector e)" "entry_hi e < unat sc"
    and "\<And>j. holds_data ft j \<Longrightarrow> j \<noteq> i \<Longrightarrow> apart_range (entry_lo e) (entry_hi e) (ft j)"
  shows "table_ok sc (ft(i := e))"
proof -
  have h: "holds_data (ft(i := e)) j \<Longrightarrow> j \<noteq> i \<Longrightarrow> holds_data ft j" for j by (simp add: holds_data_def)
  have sym: "apart_range (entry_lo (ft j)) (entry_hi (ft j)) e" if "holds_data ft j" "j \<noteq> i" for j
    using assms(5) [OF that] by (auto simp: apart_range_def)
  have "entry_ok (unat sc) e" using assms(2-4) by (simp add: entry_ok_def entry_lo_def)
  with assms(1,5) h sym show ?thesis by (auto simp: table_ok_def)
qed

lemma need_sectors_entry_hi:
  "unat (fsize e) = unat sz \<Longrightarrow> entry_hi e = unat (start_sector e) + need_sectors sz"
  by (simp add: entry_hi_def need_sectors_def)

lemma unat_ucast_small: "unat (sz :: u64) \<le> 130560 \<Longrightarrow> unat (ucast sz :: u32) = unat sz"
  by (simp add: unsigned_ucast_eq take_bit_nat_eq_self)

definition edited :: "file_entry_t \<Rightarrow> u32 \<Rightarrow> u64 \<Rightarrow> file_entry_t" where
  "edited e st sz = e\<lparr>magic_number := MAGIC_NUMBER, start_sector := st, fsize := ucast sz\<rparr>"

lemma set_entry_at_sel:
  assumes "i < FILE_TABLE_ENTRIES"
  shows "table (set_entry_at i e s) = (table s)(i := e)" "same_static s (set_entry_at i e s)"
    "file_table (set_entry_at i e s) = Some ((table s)(i := e))" "drive (set_entry_at i e s) = drive s"
  using assms by (simp_all add: set_entry_at_def table_def flag_ub_def same_static_def fs_ready_def)

lemma drive_volume:
  "drive s' = drive s \<Longrightarrow> disk_table s' = disk_table s" "drive s' = drive s \<Longrightarrow> file_bytes s' e = file_bytes s e"
  by (simp_all add: disk_table_def file_bytes_def fun_eq_iff)

lemma edit_file_effect:
  assumes ready: "fs_ready s" and ok: "table_ok (sector_count s) (table s)" and i: "in_table (table s) i"
    and sz: "unat sz \<le> 130560" "unat sz \<le> length src"
    and find: "find_space_for_file (sector_count s) ((table s)(i := (table s i)\<lparr>magic_number := 0\<rparr>)) sz = Some st"
  shows "\<exists>s'. edit_file i src sz s = Some (True, s') \<and> file_table s' = Some ((table s)(i := edited (table s i) st sz)) \<and>
    table_ok (sector_count s) (table s') \<and> agree (disk_table s') (table s') \<and> same_static s s' \<and>
    file_bytes s' (edited (table s i) st sz) = take (unat sz) src \<and>
    (\<forall>j. holds_data (table s) j \<and> j \<noteq> i \<longrightarrow> file_bytes s' (table s j) = file_bytes s (table s j))"
proof -
  define ft e where "ft = table s" and "e = edited (ft i) st sz"
  have i': "i < FILE_TABLE_ENTRIES" "magic_number (ft i) = MAGIC_NUMBER" using i by (simp_all add: in_table_def ft_def)
  have es: "start_sector e = st" "unat (fsize e) = unat sz" by (simp_all add: e_def edited_def unat_ucast_small [OF sz(1)])
  note clear = table_ok_clear [OF ok, of i]
  from find_space_sound_complete [OF clear(1) sz(1)] find have st: "641 \<le> unat st"
    "unat st + need_sectors sz < unat (sector_count s)"
    and free: "\<And>j. holds_data ft j \<Longrightarrow> j \<noteq> i \<Longrightarrow> apart_range (unat st) (unat st + need_sectors sz) (ft j)"
    using clear(2) by (auto simp: ft_def split: if_splits)
  have hi: "entry_hi e = unat st + need_sectors sz" "entry_lo e = unat st"
    using need_sectors_entry_hi [OF es(2)] es(1) by (simp_all add: entry_lo_def)
  have ok': "table_ok (sector_count s) (ft(i := e))"
    by (rule table_ok_place) (use ok sz(1) es st hi free in \<open>simp_all add: ft_def\<close>)
  define s1 where "s1 = set_entry_at i ((ft i)\<lparr>magic_number := 0\<rparr>) s"
  define s2 where "s2 = set_entry_at i e s1"
  note sel = set_entry_at_sel [OF i'(1)]
  have t1: "table s1 = ft(i := (ft i)\<lparr>magic_number := 0\<rparr>)" "same_static s s1" "drive s1 = drive s"
    by (simp_all add: s1_def sel ft_def)
  have t2: "table s2 = ft(i := e)" "same_static s s2" "file_table s2 = Some (ft(i := e))" "drive s2 = drive s"
    using same_static_trans [OF t1(2) sel(2)] by (simp_all add: s2_def sel t1)
  have r2: "fs_ready s2" "sector_count s2 = sector_count s" using t2(2) ready by (simp_all add: same_static_def)
  from fs_write_file_bytes [OF r2(1) sz(1) st(2) [folded r2(2)] sz(2) st(1)] obtain s3 where
    s3: "fs_write st src sz s2 = Some s3" "file_table s3 = file_table s2" "same_static s2 s3"
    "file_bytes s3 e = take (unat sz) src"
    "\<And>x. apart_range (unat st) (unat st + need_sectors sz) x \<Longrightarrow> file_bytes s3 x = file_bytes s2 x"
    using es by blast
  have r3: "fs_ready s3" "641 < unat (sector_count s3)" using s3(3) r2 ok by (simp_all add: same_static_def table_ok_def)
  from save_file_table_effect [OF this] obtain s4 where
    s4: "save_file_table s3 = Some s4" "file_table s4 = file_table s3" "same_static s3 s4"
    "agree (disk_table s4) (table s3)" "\<And>x. 641 \<le> entry_lo x \<Longrightarrow> file_bytes s4 x = file_bytes s3 x" by blast
  have t4: "file_table s4 = Some (ft(i := e))" "table s4 = ft(i := e)" "table s3 = ft(i := e)"
    using s3(2) s4(2) t2(3) by (simp_all add: table_def)
  have "set_entry_at i ((ft i)\<lparr>magic_number := MAGIC_NUMBER, start_sector := st, fsize := ucast sz\<rparr>) s1 = s2"
    by (simp add: s2_def e_def edited_def)
  then have "edit_file i src sz s = Some (True, s4)"
    using i'(2) find s3(1) s4(1)
    by (simp add: edit_file_def Let_def ft_def [symmetric] s1_def [symmetric] t1
        t1(2) [unfolded same_static_def])
  moreover have "file_bytes s4 (ft j) = file_bytes s (ft j)" if "holds_data ft j" "j \<noteq> i" for j
  proof -
    have "641 \<le> entry_lo (ft j)" using ok that(1) by (simp add: table_ok_def entry_ok_def ft_def)
    then show ?thesis using s4(5) s3(5) [OF free [OF that]] t2(4) by (simp add: drive_volume(2) [of s2 s])
  qed
  ultimately show ?thesis
    using t4 ok' s4(4) s3(4) s4(5) [of e] hi(2) st(1) same_static_trans [OF same_static_trans [OF t2(2) s3(3)] s4(3)]
    unfolding ft_def [symmetric] e_def [symmetric] by (auto simp: table_def)
qed

section \<open>Overwriting a file\<close>

text \<open>The content of the file a path names.\<close>

definition file_content :: "'a fs_scheme \<Rightarrow> cstr \<Rightarrow> u8 list option" where
  "file_content s p = map_option (\<lambda>i. file_bytes s (disk_table s i)) (path_file s p)"

lemma file_bytes_empty: "fsize e = 0 \<Longrightarrow> file_bytes s e = []"
  by (simp add: file_bytes_def disk_bytes_def)

text \<open>A step that only changes the content of the file \<open>i\<close>, which is not a directory.\<close>

lemma fs_ok_edited:
  assumes ok: "fs_ok s" and st: "same_static s s'" and i: "in_table (disk_table s) i" "\<not> is_dir (disk_table s i)"
    and t: "agree (disk_table s') ((disk_table s)(i := e))" "magic_number e = MAGIC_NUMBER" "ftype e = ftype (disk_table s i)"
    and tok: "table_ok (sector_count s) ((disk_table s)(i := e))"
    and c: "\<And>j. holds_data (disk_table s) j \<Longrightarrow> j \<noteq> i \<Longrightarrow> file_bytes s' (disk_table s j) = file_bytes s (disk_table s j)"
  shows "fs_ok s'" "path_file s' p = path_file s p"
    "file_content s' p = (if path_file s p = Some i then Some (file_bytes s' e) else file_content s p)"
proof -
  define ft ft' where "ft = disk_table s" and "ft' = disk_table s'"
  have eq: "ft' j = (ft(i := e)) j" if "j < FILE_TABLE_ENTRIES" for j
    using t(1) that by (simp add: agree_def ft_def ft'_def)
  have bytes: "file_bytes s' (ft' j) = file_bytes s (ft j)" if "in_table ft j" "j \<noteq> i" for j
    using eq [of j] that c [of j] by (cases "fsize (ft j) = 0") (auto simp: ft_def in_table_def holds_data_def file_bytes_empty)
  have sd: "same_dirs ft (contents s ft) ft' (contents s' ft')"
    unfolding same_dirs_def contents_def using eq bytes t(2,3) i
    by (auto simp: ft_def in_table_def)
  have d: "dirs_ok ft (contents s ft)" using ok by (simp add: fs_ok_def ft_def)
  show pf: "path_file s' p = path_file s p"
    using path_index_same [OF sd d] by (simp add: path_file_def ft_def ft'_def)
  have "table_ok (sector_count s) ft'" using table_ok_agree [OF agree_sym [OF t(1)] tok] by (simp add: ft'_def)
  with dirs_ok_same [OF sd d] ok st show "fs_ok s'"
    by (simp add: fs_ok_def same_static_def ft_def ft'_def)
  show "file_content s' p = (if path_file s p = Some i then Some (file_bytes s' e) else file_content s p)"
  proof (cases "path_file s p")
    case None
    with pf show ?thesis by (simp add: file_content_def)
  next
    case (Some k)
    from path_file_in_table [OF ok Some] have k: "in_table ft k" by (simp add: ft_def)
    with eq [of k] bytes [OF k] Some pf show ?thesis
      by (auto simp: file_content_def ft_def ft'_def in_table_def)
  qed
qed

lemma edit_volume:
  assumes ok: "fs_ok s" and c: "calm s s2" and a: "agree (table s2) (disk_table s)" and i: "in_table (disk_table s) i"
    and sz: "unat sz \<le> 130560" "unat sz \<le> length src"
    and find: "find_space_for_file (sector_count s) ((disk_table s)(i := (disk_table s i)\<lparr>magic_number := 0\<rparr>)) sz = Some st"
  shows "\<exists>s'. edit_file i src sz s2 = Some (True, s') \<and> same_static s s' \<and>
    agree (disk_table s') ((disk_table s)(i := edited (disk_table s i) st sz)) \<and>
    table_ok (sector_count s) ((disk_table s)(i := edited (disk_table s i) st sz)) \<and>
    file_bytes s' (edited (disk_table s i) st sz) = take (unat sz) src \<and>
    (\<forall>j. holds_data (disk_table s) j \<and> j \<noteq> i \<longrightarrow> file_bytes s' (disk_table s j) = file_bytes s (disk_table s j))"
proof -
  have ti: "table s2 i = disk_table s i" using a i by (simp add: agree_def in_table_def)
  have r: "fs_ready s2" "table_ok (sector_count s2) (table s2)" "in_table (table s2) i"
    using ok c calm_fs_ready [OF c] agree_volume(2) [OF ok c a] i in_table_agree [OF a] by (simp_all add: fs_ok_def)
  have "find_space_for_file (sector_count s2) ((table s2)(i := (table s2 i)\<lparr>magic_number := 0\<rparr>)) sz = Some st"
    using find c ti find_space_agree [OF agree_upd [OF a, of i]] by (simp add: calm_def)
  from edit_file_effect [OF r sz this] obtain s' where s': "edit_file i src sz s2 = Some (True, s')"
    "file_table s' = Some ((table s2)(i := edited (disk_table s i) st sz))" "table_ok (sector_count s2) (table s')"
    "agree (disk_table s') (table s')" "same_static s2 s'" "file_bytes s' (edited (disk_table s i) st sz) = take (unat sz) src"
    "\<forall>j. holds_data (table s2) j \<and> j \<noteq> i \<longrightarrow> file_bytes s' (table s2 j) = file_bytes s2 (table s2 j)"
    unfolding ti by blast
  have a': "agree (table s') ((disk_table s)(i := edited (disk_table s i) st sz))"
    using agree_upd [OF a] s'(2) by (simp add: table_def)
  have "file_bytes s' (disk_table s j) = file_bytes s (disk_table s j)" if "holds_data (disk_table s) j" "j \<noteq> i" for j
    using s'(7) that holds_data_agree [OF a] agree_nth [OF a, of j] calm_file_bytes [OF c]
    by (auto simp: holds_data_def)
  moreover have "table_ok (sector_count s) ((disk_table s)(i := edited (disk_table s i) st sz))"
    using table_ok_agree [OF a' s'(3)] c by (simp add: calm_def)
  ultimately show ?thesis
    using s' agree_trans [OF s'(4) a'] same_static_trans [OF calm_same_static [OF c] s'(5)] by blast
qed

lemma overwrite_volume:
  assumes ok: "fs_ok s" and p: "is_valid_path (Some p)" "path_file s p = Some i" and f: "ftype (disk_table s i) = FILE"
    and sz: "unat sz \<le> 130560" "unat sz \<le> length src"
    and find: "find_space_for_file (sector_count s) ((disk_table s)(i := (disk_table s i)\<lparr>magic_number := 0\<rparr>)) sz = Some st"
  shows "\<exists>s'. filesystem_write_file (Some p) src type sz s = Some (True, s') \<and> fs_ok s' \<and> same_static s s' \<and>
    (\<forall>q. path_file s' q = path_file s q) \<and>
    (\<forall>q. file_content s' q = (if path_file s q = Some i then Some (take (unat sz) src) else file_content s q))"
proof -
  have it: "in_table (disk_table s) i" by (rule path_file_in_table [OF ok p(2)])
  obtain s0 where s0: "filesystem_file_exists (Some p) s = Some (True, s0)" "calm s s0"
    using file_exists_ok [OF ok p(1)] p(2) by auto
  have ok0: "fs_ok s0" using ok calm_fs_ok [OF s0(2)] by simp
  obtain s1 where s1: "load_file_table s0 = Some s1" "calm s0 s1" "agree (table s1) (disk_table s)"
    using load_ok [OF ok0] calm_disk_table [OF s0(2)] by auto
  note c1 = calm_trans [OF s0(2) s1(2)]
  obtain s2 where s2: "resolve_path p s1 = Some (Some i, s2)" "calm s s2" "file_table s2 = file_table s1"
    using resolve_ok [OF ok c1 s1(3), of p] p(2) by auto
  have a2: "agree (table s2) (disk_table s)" using s1(3) s2(3) by (simp add: table_def)
  have ti: "ftype (table s2 i) = FILE" using f a2 it by (simp add: agree_def in_table_def)
  from edit_volume [OF ok s2(2) a2 it sz find] obtain s3 where
    s3: "edit_file i src sz s2 = Some (True, s3)" "same_static s s3"
    "agree (disk_table s3) ((disk_table s)(i := edited (disk_table s i) st sz))"
    "table_ok (sector_count s) ((disk_table s)(i := edited (disk_table s i) st sz))"
    "file_bytes s3 (edited (disk_table s i) st sz) = take (unat sz) src"
    "\<And>j. holds_data (disk_table s) j \<Longrightarrow> j \<noteq> i \<Longrightarrow> file_bytes s3 (disk_table s j) = file_bytes s (disk_table s j)"
    by blast
  define s' where "s' = free_file_table s3"
  have run: "filesystem_write_file (Some p) src type sz s = Some (True, s')"
    using p(1) s0(1) s1(1) s2(1) s3(1) ti by (simp add: filesystem_write_file_def s'_def)
  have dv: "drive s' = drive s3" "same_static s s'"
    using s3(2) by (simp_all add: s'_def free_file_table_def same_static_def fs_ready_def)
  have nd: "\<not> is_dir (disk_table s i)" using f by (simp add: is_dir_def FILE_def DIRECTORY_def ROOT_DIRECTORY_def)
  have "agree (disk_table s') ((disk_table s)(i := edited (disk_table s i) st sz))"
    "file_bytes s' (edited (disk_table s i) st sz) = take (unat sz) src"
    "\<And>j. holds_data (disk_table s) j \<Longrightarrow> j \<noteq> i \<Longrightarrow> file_bytes s' (disk_table s j) = file_bytes s (disk_table s j)"
    using s3(3,5,6) drive_volume [OF dv(1)] by simp_all
  from fs_ok_edited [OF ok dv(2) it nd this(1) _ _ s3(4) this(3)] this(2) run dv(2) show ?thesis
    by (simp add: edited_def)
qed

section \<open>Directory listings\<close>

lemma put_name_short:
  assumes "length name \<le> 59" "length old = 60"
  shows "\<exists>r. put_name name old = name @ 0 # r"
    and "length (put_name name old) = 60" "put_name name old ! 59 = 0"
proof -
  have "strlen name = int (length name)" using assms(1) by (simp add: strlen_eq)
  then have "int_of_double (min_double (real_of_int (strlen name + 1)) (real FILE_NAME_LENGTH)) = int (length name) + 1"
    using assms(1) by (simp add: min_double_def FILE_NAME_LENGTH_def int_of_double_in_range trunc_def)
  then have n: "nat (int_of_double (min_double (real_of_int (strlen name + 1)) (real FILE_NAME_LENGTH))) = Suc (length name)"
    by simp
  have eq: "put_name name old = (name @ 0 # drop (Suc (length name)) old)[59 := 0]"
    unfolding put_name_def Let_def n by (simp add: FILE_NAME_LENGTH_def)
  show "length (put_name name old) = 60" "put_name name old ! 59 = 0" using assms by (simp_all add: eq)
  show "\<exists>r. put_name name old = name @ 0 # r"
    using assms(1) by (cases "59 - length name") (simp_all add: eq list_update_append)
qed

text \<open>The listing with one more entry.\<close>

definition new_entry :: "cstr \<Rightarrow> u8 list \<Rightarrow> nat \<Rightarrow> u8 list" where
  "new_entry name old k = put_name name old @ le32_bytes (word_of_nat k)"

lemma put_dir_entry_append:
  assumes "length bs = 64 * n" "length fresh = 64"
  shows "put_dir_entry (bs @ fresh) n name (word_of_nat k) = bs @ new_entry name (take 60 fresh) k"
  using assms by (simp add: put_dir_entry_def new_entry_def slice_def)

lemma dir_index_append_left: "64 * j + 64 \<le> length bs \<Longrightarrow> dir_index (bs @ x) j = dir_index bs j"
  by (simp add: dir_index_def codec_simps)

lemma dir_index_new:
  assumes "length bs = 64 * n" "length name \<le> 59" "length old = 60" "k < 2 ^ 32"
  shows "unat (dir_index (bs @ new_entry name old k) n) = k"
proof -
  have "dir_index (bs @ new_entry name old k) n = word_of_nat k"
    using put_name_short(2) [OF assms(2,3)] assms(1)
    by (simp add: dir_index_def new_entry_def codec_simps)
  then show ?thesis using assms(4) by (simp add: unat_word_of_nat_less)
qed

lemma takeWhile_stop: "0 \<in> set (take n xs) \<Longrightarrow> takeWhile ((\<noteq>) (0 :: u8)) (xs @ ys) = takeWhile ((\<noteq>) 0) xs"
  by (rule takeWhile_append1 [of 0]) (auto dest: in_set_takeD)

lemma dir_name_append_left:
  assumes "64 * j + 64 \<le> length bs" "0 \<in> set (slice (64 * j) 60 bs)"
  shows "dir_name (bs @ x) j = dir_name bs j"
  using assms takeWhile_stop [of 60 "drop (64 * j) bs" x] by (simp add: dir_name_def slice_def)

lemma dir_name_new:
  assumes "length bs = 64 * n" "length name \<le> 59" "length old = 60" "0 \<notin> set name"
  shows "dir_name (bs @ new_entry name old k) n = name"
proof -
  have "takeWhile ((\<noteq>) 0) (name @ 0 # r) = name" for r :: "u8 list" using assms(4) by (induction name) auto
  then show ?thesis
    using assms put_name_short(1) [OF assms(2,3)] by (auto simp: dir_name_def new_entry_def)
qed

lemma listed_ok_append_left:
  assumes "64 * j + 64 \<le> length bs" "listed_ok ft bs j"
  shows "listed_ok ft (bs @ x) j"
  using assms by (simp add: listed_ok_def dir_index_append_left slice_append_left)

lemma listed_ok_new:
  assumes "length bs = 64 * n" "length name \<le> 59" "length old = 60" "in_table ft k"
  shows "listed_ok ft (bs @ new_entry name old k) n"
proof -
  have k: "k < 2 ^ 32" using assms(4) by (simp add: in_table_def FILE_TABLE_ENTRIES_def)
  have "slice (64 * n) 60 (bs @ new_entry name old k) = put_name name old"
    using assms(1) put_name_short(2) [OF assms(2,3)] by (simp add: slice_append_right new_entry_def) (simp add: slice_def)
  moreover have "0 \<in> set (put_name name old)"
    using put_name_short(2,3) [OF assms(2,3)] nth_mem [of 59 "put_name name old"] by simp
  ultimately show ?thesis using dir_index_new [OF assms(1-3) k] assms(4) by (simp add: listed_ok_def)
qed

lemma find_snoc: "List.find P (xs @ [x]) = (case List.find P xs of None \<Rightarrow> if P x then Some x else None | Some y \<Rightarrow> Some y)"
  by (induction xs) auto

lemma find_kept_Some: "List.find P xs = Some x \<Longrightarrow> List.find P (xs @ ys) = Some x"
  by (induction xs) auto

text \<open>Searching the longer listing.\<close>

lemma dir_search_append:
  assumes "length bs = 64 * n" "length name \<le> 59" "length old = 60" "0 \<notin> set name" "in_table ft k"
    and "\<forall>j<n. listed_ok ft bs j"
  shows "dir_search ft (bs @ new_entry name old k) (Suc n) part is_last =
    (case dir_search ft bs n part is_last of
       Some m \<Rightarrow> Some m
     | None \<Rightarrow> if part = name \<and> (ftype (ft k) = DIRECTORY \<or> is_last) then Some k else None)"
proof -
  define bs' where "bs' = bs @ new_entry name old k"
  define P where "P = (\<lambda>b j. strcmp (dir_name b j) part \<and> magic_number (ft (unat (dir_index b j))) = MAGIC_NUMBER \<and>
      (ftype (ft (unat (dir_index b j))) = DIRECTORY \<or> is_last))"
  have k: "k < 2 ^ 32" "magic_number (ft k) = MAGIC_NUMBER"
    using assms(5) by (simp_all add: in_table_def FILE_TABLE_ENTRIES_def)
  have old: "dir_name bs' j = dir_name bs j \<and> dir_index bs' j = dir_index bs j" if "j < n" for j
    using that assms(1,6) dir_name_append_left [of j bs] dir_index_append_left [of j bs]
    by (auto simp: bs'_def listed_ok_def)
  have f: "List.find (P bs') [0..<n] = List.find (P bs) [0..<n]"
    by (rule find_cong) (use old in \<open>auto simp: P_def\<close>)
  have m: "unat (dir_index bs' j) = unat (dir_index bs j)" if "List.find (P bs) [0..<n] = Some j" for j
    using that old [of j] unfolding find_upt_Some_iff by simp
  have new: "unat (dir_index bs' n) = k" "dir_name bs' n = name"
    using dir_index_new [OF assms(1-3) k(1)] dir_name_new [OF assms(1-4)] by (simp_all add: bs'_def)
  have last: "P bs' n \<longleftrightarrow> part = name \<and> (ftype (ft k) = DIRECTORY \<or> is_last)"
    using new k(2) strcmp_iff [of name part] assms(2) by (auto simp: P_def)
  have s: "dir_search ft b c part is_last = map_option (\<lambda>j. unat (dir_index b j)) (List.find (P b) [0..<c])" for b c
    unfolding dir_search_def P_def ..
  show ?thesis
    unfolding bs'_def [symmetric] s upt_Suc_append [OF le0] find_snoc f
    using m new(1) last by (auto split: option.splits)
qed

end
