(* ===== verification/FsCreate.thy ===== *)
theory FsCreate
  imports FsCorrect
begin

unbundle bit_operations_syntax

text \<open>
  Creating a file: \<open>filesystem_write_file\<close> on a path that does not exist takes a free slot of the
  table, lists the file in its directory and writes its data; every path that named a file before
  still names it.
\<close>

section \<open>Splitting paths\<close>

lemma strrchr_loop_append:
  "strrchr_loop c (xs @ ys) i f = strrchr_loop c ys (i + length xs) (strrchr_loop c xs i f)"
  by (induction xs arbitrary: i f) auto

lemma strrchr_loop_absent: "c \<notin> set xs \<Longrightarrow> strrchr_loop c xs i f = f"
  by (induction xs arbitrary: i) auto

lemma strrchr_last: "c \<notin> set ys \<Longrightarrow> strrchr (xs @ c # ys) c = Some (length xs)"
  by (simp add: strrchr_def strrchr_loop_append strrchr_loop_absent)

lemma split_path_eq:
  assumes "47 \<in> set p"
  obtains xs ys where "p = xs @ 47 # ys" "47 \<notin> set ys" "split_path p = (xs @ [47], ys)"
proof -
  obtain xs ys where "p = xs @ 47 # ys" "47 \<notin> set ys" using split_list_last [OF assms] by blast
  moreover from this have "split_path p = (xs @ [47], ys)" by (simp add: split_path_def strrchr_last)
  ultimately show ?thesis using that by blast
qed

lemma str_split_append: "str_split d (xs @ d # ys) = str_split d xs @ str_split d ys"
proof (induction d xs rule: str_split.induct)
  case (1 d xs)
  define p1 where "p1 = dropWhile ((=) d) xs"
  define n where "n = length (takeWhile ((=) d) xs)"
  have "takeWhile ((=) d) xs = replicate n d"
    unfolding n_def by (rule replicate_eqI) (auto dest: set_takeWhileD)
  then have xs: "replicate n d @ p1 = xs" unfolding p1_def using takeWhile_dropWhile_id [of "(=) d" xs] by simp
  have "replicate n d @ p1 @ d # ys = xs @ d # ys" by (simp add: xs [symmetric])
  with str_split_delims [of d n p1] str_split_delims [of d n "p1 @ d # ys"] xs
  have e: "str_split d xs = str_split d p1" "str_split d (xs @ d # ys) = str_split d (p1 @ d # ys)" by simp_all
  show ?case
  proof (cases "p1 = []")
    case True
    then show ?thesis unfolding e by (simp add: str_split_Cons_delim)
  next
    case False
    define t rest where "t = takeWhile ((\<noteq>) d) p1" and "rest = dropWhile ((\<noteq>) d) p1"
    have p1: "p1 = t @ rest" by (simp add: t_def rest_def)
    have hd: "hd p1 \<noteq> d" using False hd_dropWhile [of "(=) d" xs] by (auto simp: p1_def)
    have t: "t \<noteq> []" "d \<notin> set t" using False hd by (cases p1; auto simp: t_def dest: set_takeWhileD)+
    have r: "rest = [] \<or> hd rest = d" using hd_dropWhile [of "(\<noteq>) d" p1] by (auto simp: rest_def)
    have "str_split d p1 = t # str_split d rest" unfolding p1 by (rule str_split_token [OF t r])
    moreover have "hd (rest @ d # ys) = d" using r by (cases rest) auto
    then have "str_split d (p1 @ d # ys) = t # str_split d (rest @ d # ys)"
      unfolding p1 using str_split_token [OF t, of "rest @ d # ys"] by simp
    ultimately show ?thesis unfolding e using 1 [OF p1_def False] by (simp add: rest_def)
  qed
qed

lemma str_split_name: "ys \<noteq> [] \<Longrightarrow> d \<notin> set ys \<Longrightarrow> str_split d ys = [ys]"
  using str_split_token [of ys d "[]"] by simp

lemma str_split_path:
  assumes "ys \<noteq> []" "47 \<notin> set ys"
  shows "str_split 47 (xs @ 47 # ys) = str_split 47 (xs @ [47]) @ [ys]"
  using assms by (simp add: str_split_append str_split_name)

section \<open>Adding to a volume\<close>

text \<open>A new entry that no listing mentions.\<close>

lemma add_entry_keeps:
  assumes "dirs_ok ft c" "\<not> in_table ft k" "k < FILE_TABLE_ENTRIES" "magic_number e = MAGIC_NUMBER"
    and "ftype e = FILE \<or> ftype e = DIRECTORY \<and> fsize e = 0"
    and "\<And>j. in_table ft j \<Longrightarrow> c' j = c j"
  shows "keeps_dirs ft c (ft(k := e)) c'" "dirs_ok (ft(k := e)) c'" "find_root (ft(k := e)) = find_root ft"
    "in_table (ft(k := e)) j \<longleftrightarrow> in_table ft j \<or> j = k"
proof -
  show it: "in_table (ft(k := e)) j \<longleftrightarrow> in_table ft j \<or> j = k" for j
    using assms(3,4) by (auto simp: in_table_def)
  show "keeps_dirs ft c (ft(k := e)) c'"
    using assms(2,3,4,6) by (auto simp: keeps_dirs_def in_table_def)
  have "listed_ok (ft(k := e)) (c' i) j" if "in_table ft i" "listed_ok ft (c i) j" for i j
    using that assms(6) [OF that(1)] it by (simp add: listed_ok_def)
  with assms(1,2,5) it show "dirs_ok (ft(k := e)) c'"
    by (auto simp: dirs_ok_def is_dir_def FILE_def DIRECTORY_def ROOT_DIRECTORY_def)
  have "magic_number ((ft(k := e)) i) = MAGIC_NUMBER \<and> ftype ((ft(k := e)) i) = ROOT_DIRECTORY \<longleftrightarrow>
      magic_number (ft i) = MAGIC_NUMBER \<and> ftype (ft i) = ROOT_DIRECTORY" if "i < FILE_TABLE_ENTRIES" for i
    using that assms(2,5) by (auto simp: in_table_def FILE_def DIRECTORY_def ROOT_DIRECTORY_def)
  then show "find_root (ft(k := e)) = find_root ft" unfolding find_root_def by (intro find_cong) auto
qed

text \<open>One more entry in the listing of the directory \<open>d\<close>.\<close>

definition longer_listing ::
    "(nat \<Rightarrow> file_entry_t) \<Rightarrow> (nat \<Rightarrow> u8 list) \<Rightarrow> (nat \<Rightarrow> file_entry_t) \<Rightarrow> (nat \<Rightarrow> u8 list) \<Rightarrow>
     nat \<Rightarrow> nat \<Rightarrow> cstr \<Rightarrow> u8 list \<Rightarrow> bool" where
  "longer_listing ft c ft' c' d k name old \<longleftrightarrow>
     dirs_ok ft c \<and> in_table ft d \<and> is_dir (ft d) \<and> in_table ft k \<and>
     length name \<le> 59 \<and> 0 \<notin> set name \<and> length old = 60 \<and> length (c d) = unat (fsize (ft d)) \<and>
     (\<forall>i. in_table ft' i = in_table ft i) \<and> (\<forall>i. ftype (ft' i) = ftype (ft i)) \<and>
     unat (fsize (ft' d)) = unat (fsize (ft d)) + 64 \<and> c' d = c d @ new_entry name old k \<and>
     (\<forall>i. i \<noteq> d \<longrightarrow> fsize (ft' i) = fsize (ft i)) \<and>
     (\<forall>i. i \<noteq> d \<and> in_table ft i \<and> is_dir (ft i) \<and> fsize (ft i) \<noteq> 0 \<longrightarrow> c' i = c i)"

lemma longer_listingD:
  assumes "longer_listing ft c ft' c' d k name old"
  shows dirs: "dirs_ok ft c" and d: "in_table ft d" "is_dir (ft d)" and k: "in_table ft k"
    and name: "length name \<le> 59" "0 \<notin> set name" and old: "length old = 60"
    and len: "length (c d) = unat (fsize (ft d))"
    and kinds: "\<And>i. in_table ft' i = in_table ft i" "\<And>i. ftype (ft' i) = ftype (ft i)"
    and size_d: "unat (fsize (ft' d)) = unat (fsize (ft d)) + 64" "c' d = c d @ new_entry name old k"
    and others: "\<And>i. i \<noteq> d \<Longrightarrow> fsize (ft' i) = fsize (ft i)"
      "\<And>i. i \<noteq> d \<Longrightarrow> in_table ft i \<Longrightarrow> is_dir (ft i) \<Longrightarrow> fsize (ft i) \<noteq> 0 \<Longrightarrow> c' i = c i"
  using assms by (auto simp: longer_listing_def)

lemma longer_listing_facts:
  assumes L: "longer_listing ft c ft' c' d k name old"
  shows listing_length: "length (c d) = 64 * (unat (fsize (ft d)) div 64)"
    and new_count: "unat (fsize (ft' d)) div 64 = Suc (unat (fsize (ft d)) div 64)"
    and listed: "\<forall>j<unat (fsize (ft d)) div 64. listed_ok ft (c d) j"
    and listed': "\<forall>j<Suc (unat (fsize (ft d)) div 64). listed_ok ft (c' d) j"
    and fsize_d: "fsize (ft' d) \<noteq> 0"
proof -
  define n where "n = unat (fsize (ft d)) div 64"
  have "unat (fsize (ft d)) mod 64 = 0" using dirs [OF L] d [OF L] by (simp add: dirs_ok_def)
  then have n: "unat (fsize (ft d)) = 64 * n" unfolding n_def by presburger
  then show ll: "length (c d) = 64 * (unat (fsize (ft d)) div 64)" using len [OF L] by simp
  show "unat (fsize (ft' d)) div 64 = Suc (unat (fsize (ft d)) div 64)" by (simp add: size_d(1) [OF L])
  show "fsize (ft' d) \<noteq> 0" using size_d(1) [OF L] by auto
  show l: "\<forall>j<unat (fsize (ft d)) div 64. listed_ok ft (c d) j" using dirs [OF L] d [OF L] by (simp add: dirs_ok_def)
  show "\<forall>j<Suc (unat (fsize (ft d)) div 64). listed_ok ft (c' d) j"
  proof (intro allI impI)
    fix j assume "j < Suc (unat (fsize (ft d)) div 64)"
    then consider "j < unat (fsize (ft d)) div 64" | "j = unat (fsize (ft d)) div 64" by linarith
    then show "listed_ok ft (c' d) j"
    proof cases
      case 1
      then show ?thesis using l ll unfolding size_d(2) [OF L] by (intro listed_ok_append_left) auto
    next
      case 2
      then show ?thesis unfolding size_d(2) [OF L]
        by (simp only: listed_ok_new [OF ll name(1) [OF L] old [OF L] k [OF L]])
    qed
  qed
qed

lemma search_d:
  assumes L: "longer_listing ft c ft' c' d k name old"
  shows "dir_search ft' (c' d) (unat (fsize (ft' d)) div 64) part is_last =
    (case dir_search ft (c d) (unat (fsize (ft d)) div 64) part is_last of
       Some m \<Rightarrow> Some m
     | None \<Rightarrow> if part = name \<and> (ftype (ft k) = DIRECTORY \<or> is_last) then Some k else None)"
proof -
  have "dir_search ft' (c' d) (unat (fsize (ft' d)) div 64) part is_last =
      dir_search ft (c' d) (Suc (unat (fsize (ft d)) div 64)) part is_last"
    unfolding new_count [OF L] by (rule dir_search_kinds) (use kinds [OF L] listed' [OF L] in auto)
  then show ?thesis
    unfolding size_d(2) [OF L]
    by (simp only: dir_search_append [OF listing_length [OF L] name(1) [OF L] old [OF L] name(2) [OF L] k [OF L] listed [OF L]])
qed

lemma search_other:
  assumes L: "longer_listing ft c ft' c' d k name old"
    and i: "i \<noteq> d" "in_table ft i" "is_dir (ft i)" "fsize (ft i) \<noteq> 0"
  shows "dir_search ft' (c' i) (unat (fsize (ft' i)) div 64) part is_last =
    dir_search ft (c i) (unat (fsize (ft i)) div 64) part is_last"
  unfolding others(1) [OF L i(1)] others(2) [OF L i]
  by (rule dir_search_kinds) (use kinds [OF L] dirs [OF L] i(2,3) in \<open>auto simp: dirs_ok_def\<close>)

lemma lookup_mono:
  assumes L: "longer_listing ft c ft' c' d k name old"
    and "lookup ft c parts i = Some m" "in_table ft i" "parts = [] \<or> is_dir (ft i)"
  shows "lookup ft' c' parts i = Some m"
  using assms(2-4)
proof (induction parts arbitrary: i)
  case (Cons part parts)
  then obtain x where x: "dir_search ft (c i) (unat (fsize (ft i)) div 64) part (parts = []) = Some x"
    "lookup ft c parts x = Some m" "fsize (ft i) \<noteq> 0" by (auto split: if_splits option.splits)
  have i: "is_dir (ft i)" using Cons.prems(3) by simp
  have x': "lookup ft' c' parts x = Some m"
    using Cons.IH [OF x(2)] dir_search_in_table [OF dirs [OF L] Cons.prems(2) i x(1)] by auto
  show ?case
  proof (cases "i = d")
    case True
    with x search_d [OF L, of part "parts = []"] fsize_d [OF L] x' show ?thesis by simp
  next
    case False
    with x search_other [OF L False Cons.prems(2) i x(3)] others(1) [OF L False] x' show ?thesis by simp
  qed
qed simp

lemma longer_dirs_ok:
  assumes L: "longer_listing ft c ft' c' d k name old"
  shows "dirs_ok ft' c'"
proof -
  have l: "listed_ok ft' b j = listed_ok ft b j" for b j by (simp add: listed_ok_def kinds [OF L])
  have dir: "is_dir (ft' i) = is_dir (ft i)" for i by (simp add: is_dir_def kinds [OF L])
  show ?thesis unfolding dirs_ok_def
  proof (intro allI impI)
    fix i assume "in_table ft' i \<and> is_dir (ft' i)"
    then have i: "in_table ft i" "is_dir (ft i)" by (simp_all add: kinds [OF L] dir)
    then have ok: "unat (fsize (ft i)) mod 64 = 0" "\<forall>j<unat (fsize (ft i)) div 64. listed_ok ft (c i) j"
      using dirs [OF L] by (simp_all add: dirs_ok_def)
    show "unat (fsize (ft' i)) mod 64 = 0 \<and> (\<forall>j<unat (fsize (ft' i)) div 64. listed_ok ft' (c' i) j)"
    proof (cases "i = d")
      case True
      then have "unat (fsize (ft' d)) mod 64 = 0" using ok(1) by (simp add: size_d(1) [OF L])
      with True listed' [OF L] new_count [OF L] show ?thesis by (simp add: l)
    next
      case False
      with ok others(1) [OF L False] others(2) [OF L False i] show ?thesis
        by (cases "fsize (ft i) = 0") (auto simp: l)
    qed
  qed
qed

lemma longer_find_root:
  assumes L: "longer_listing ft c ft' c' d k name old"
  shows "find_root ft' = find_root ft"
proof -
  have "magic_number (ft' i) = MAGIC_NUMBER \<longleftrightarrow> magic_number (ft i) = MAGIC_NUMBER" if "i < FILE_TABLE_ENTRIES" for i
    using kinds(1) [OF L, of i] that by (simp add: in_table_def)
  then show ?thesis unfolding find_root_def by (intro find_cong) (auto simp: kinds [OF L])
qed

lemma path_index_mono:
  assumes L: "longer_listing ft c ft' c' d k name old" and q: "path_index ft c q = Some m"
  shows "path_index ft' c' q = Some m"
proof -
  from q obtain r where r: "find_root ft = Some r" "lookup ft c (str_split 47 q) r = Some m"
    "strlen q \<noteq> 0" "hd q = 47" by (auto simp: path_index_def split: if_splits option.splits)
  with lookup_mono [OF L r(2)] find_root_in_table [OF r(1)] longer_find_root [OF L] show ?thesis
    by (simp add: path_index_def)
qed

text \<open>The name at the end of a path is looked up in the directory before it.\<close>

lemma dir_search_directory:
  assumes "dir_search ft buf n part True = Some m" "ftype (ft m) = DIRECTORY"
  shows "dir_search ft buf n part b = Some m"
  using assms unfolding dir_search_def map_option_eq_Some find_upt_Some_iff by fastforce

lemma lookup_last:
  assumes "lookup ft c parts i = Some d" "parts = [] \<or> ftype (ft d) = DIRECTORY"
  shows "lookup ft c (parts @ [name]) i = lookup ft c [name] d"
  using assms
proof (induction parts arbitrary: i)
  case Nil
  then show ?case by simp
next
  case (Cons part parts)
  then obtain x where x: "dir_search ft (c i) (unat (fsize (ft i)) div 64) part (parts = []) = Some x"
    "lookup ft c parts x = Some d" "fsize (ft i) \<noteq> 0" by (auto split: if_splits option.splits)
  have "dir_search ft (c i) (unat (fsize (ft i)) div 64) part False = Some x"
    using x Cons.prems(2) dir_search_directory [of ft "c i" _ part x] by (cases "parts = []") auto
  with x Cons.IH [OF x(2)] Cons.prems(2) show ?case by simp
qed

lemma path_index_last:
  assumes "path_index ft c (xs @ [47]) = Some d" "str_split 47 (xs @ [47]) = [] \<or> ftype (ft d) = DIRECTORY"
    and "ys \<noteq> []" "47 \<notin> set ys" "strlen (xs @ 47 # ys) \<noteq> 0"
  shows "path_index ft c (xs @ 47 # ys) = lookup ft c [ys] d"
proof -
  have "hd (xs @ 47 # ys) = hd (xs @ [47])" by (cases xs) auto
  with assms(1,5) lookup_last [of ft c "str_split 47 (xs @ [47])" _ d ys] assms(2) show ?thesis
    by (auto simp: path_index_def str_split_path [OF assms(3,4)] split: if_splits option.splits)
qed

section \<open>The run\<close>

lemma add_file_to_dir_effect:
  assumes ready: "fs_ready s" and ok: "table_ok (sector_count s) (table s)" and d: "in_table (table s) d"
    and dsz: "unat (fsize (table s d)) mod 64 = 0" "unat (fsize (table s d)) + 64 \<le> 130560"
    and nm: "length name \<le> 59"
    and find: "find_space_for_file (sector_count s) ((table s)(d := (table s d)\<lparr>magic_number := 0\<rparr>))
        (word_of_nat (unat (fsize (table s d)) + 64)) = Some st"
  shows "\<exists>s' old. length old = 60 \<and> add_file_to_dir d k name s = Some (True, s') \<and>
    file_table s' = Some ((table s)(d := edited (table s d) st (word_of_nat (unat (fsize (table s d)) + 64)))) \<and>
    table_ok (sector_count s) (table s') \<and> agree (disk_table s') (table s') \<and> same_static s s' \<and>
    file_bytes s' (edited (table s d) st (word_of_nat (unat (fsize (table s d)) + 64))) =
      take (unat (fsize (table s d)) + 64) (file_bytes s (table s d) @ new_entry name old k) \<and>
    (\<forall>j. holds_data (table s) j \<and> j \<noteq> d \<longrightarrow> file_bytes s' (table s j) = file_bytes s (table s j))"
proof -
  define e n where "e = table s d" and "n = unat (fsize e) div 64"
  have n: "unat (fsize e) = 64 * n" using dsz(1) unfolding n_def e_def by presburger
  define sz :: u64 where "sz = word_of_nat (unat (fsize e) + 64)"
  have "unat sz = unat (fsize e) + 64"
    unfolding sz_def by (rule unat_word_of_nat_less) (use dsz(2) in \<open>simp add: e_def\<close>)
  then have sz: "unat sz = 64 * n + 64" "unat sz \<le> 130560" using dsz(2) n by (simp_all add: e_def)
  have "(n + 1) * 64 \<le> 0x100000" using dsz(2) n by (simp add: e_def)
  from fs_malloc_calm [OF this, of s] obtain buf s1 where m: "fs_malloc ((n + 1) * 64) s = (buf, s1)"
    "length buf = (n + 1) * 64" "calm s s1" "file_table s1 = file_table s" by blast
  have r: "\<exists>s2. (if fsize e > 0 then fs_read (start_sector e) buf (ucast (fsize e)) s1 else Some (buf, s1)) =
      Some (file_bytes s e @ drop (64 * n) buf, s2) \<and> calm s s2 \<and> file_table s2 = file_table s"
  proof (cases "fsize e = 0")
    case True
    with n m show ?thesis by (simp add: file_bytes_empty)
  next
    case False
    then have "holds_data (table s) d" using d by (simp add: holds_data_def in_table_def e_def)
    then have "entry_ok (unat (sector_count s)) e" using ok by (simp add: table_ok_def e_def)
    note r = in_range_entry [OF this False]
    have "attached (drive s1)" "in_range (sector_count s1) (start_sector e) (ucast (fsize e))"
      "unat (ucast (fsize e) :: u64) \<le> length buf" "even (unat (ucast (fsize e) :: u64))"
      using m ready r n by (auto simp: calm_def fs_ready_def)
    from fs_read_prefix [OF this] obtain s2 where "fs_read (start_sector e) buf (ucast (fsize e)) s1 =
        Some (file_bytes s e @ drop (64 * n) buf, s2)" "calm s1 s2" "file_table s2 = file_table s1"
      using m(3) n by (auto simp: r(2) file_bytes_def entry_lo_def calm_def)
    with False m calm_trans show ?thesis by (auto simp: word_gt_0)
  qed
  then obtain s2 where s2: "(if fsize e > 0 then fs_read (start_sector e) buf (ucast (fsize e)) s1 else Some (buf, s1)) =
      Some (file_bytes s e @ drop (64 * n) buf, s2)" "calm s s2" "file_table s2 = file_table s" by blast
  define old where "old = take 60 (drop (64 * n) buf)"
  have fresh: "length (file_bytes s e) = 64 * n" "length (drop (64 * n) buf) = 64" "length old = 60"
    using m(2) n by (simp_all add: file_bytes_def old_def)
  define src where "src = file_bytes s e @ new_entry name old k"
  have put: "put_dir_entry (file_bytes s e @ drop (64 * n) buf) n name (word_of_nat k) = src"
    using put_dir_entry_append [OF fresh(1,2)] by (simp add: src_def old_def)
  have t2: "table s2 = table s" using s2(3) by (simp add: table_def)
  have run: "add_file_to_dir d k name s = edit_file d src sz s2"
    using m(1) s2(1) put n by (simp add: add_file_to_dir_def Let_def e_def [symmetric] n_def [symmetric] sz_def algebra_simps)
  have len: "unat sz \<le> length src"
    using fresh sz(1) put_name_short(2) [OF nm fresh(3)] by (simp add: src_def new_entry_def)
  have pre: "fs_ready s2" "table_ok (sector_count s2) (table s2)" "in_table (table s2) d"
    "find_space_for_file (sector_count s2) ((table s2)(d := (table s2 d)\<lparr>magic_number := 0\<rparr>)) sz = Some st"
    using ready ok d find s2(2) t2 calm_fs_ready [OF s2(2)] by (auto simp: calm_def sz_def e_def)
  from edit_file_effect [OF pre(1-3) sz(2) len pre(4)] obtain s' where
    "edit_file d src sz s2 = Some (True, s')" "file_table s' = Some ((table s)(d := edited e st sz))"
    "table_ok (sector_count s) (table s')" "agree (disk_table s') (table s')" "same_static s2 s'"
    "file_bytes s' (edited e st sz) = take (unat sz) src"
    "\<forall>j. holds_data (table s) j \<and> j \<noteq> d \<longrightarrow> file_bytes s' (table s j) = file_bytes s (table s j)"
    using s2(2) calm_file_bytes [OF s2(2)] unfolding t2 e_def [symmetric] by (auto simp: calm_def)
  with run fresh(3) same_static_trans [OF calm_same_static [OF s2(2)]] sz(1) n show ?thesis
    unfolding e_def [symmetric] sz_def [symmetric] src_def by auto
qed

text \<open>The entry of a new file and the free slot it goes to.\<close>

definition new_file :: "u32 \<Rightarrow> u32 \<Rightarrow> u64 \<Rightarrow> file_entry_t" where
  "new_file type st sz = \<lparr>magic_number = MAGIC_NUMBER, ftype = type, start_sector = st, fsize = ucast sz\<rparr>"

lemma find_slot_agree:
  assumes "agree ft ft'"
  shows "find_file_entry_slot ft = find_file_entry_slot ft'"
proof -
  have "List.find (\<lambda>i. magic_number (ft i) \<noteq> MAGIC_NUMBER) [0..<FILE_TABLE_ENTRIES] =
      List.find (\<lambda>i. magic_number (ft' i) \<noteq> MAGIC_NUMBER) [0..<FILE_TABLE_ENTRIES]"
    by (rule find_cong) (use assms in \<open>auto simp: agree_def\<close>)
  then show ?thesis by (simp add: find_file_entry_slot_def)
qed

lemma find_slot_free:
  assumes "find_file_entry_slot ft = word_of_nat k" "k < FILE_TABLE_ENTRIES"
  shows "\<not> in_table ft k" "find_file_entry_slot ft \<noteq> -1" "unat (find_file_entry_slot ft) = k"
proof -
  have small: "n < FILE_TABLE_ENTRIES \<Longrightarrow> unat (word_of_nat n :: u32) = n" for n
    by (simp add: FILE_TABLE_ENTRIES_def unat_word_of_nat_less)
  have "unat (-1 :: u32) = 2 ^ 32 - 1" by (simp add: unsigned_minus_1_eq_mask mask_eq_exp_minus_1)
  then show ne: "find_file_entry_slot ft \<noteq> -1" "unat (find_file_entry_slot ft) = k"
    using small [OF assms(2)] assms by (auto simp: FILE_TABLE_ENTRIES_def)
  then obtain i where i: "List.find (\<lambda>i. magic_number (ft i) \<noteq> MAGIC_NUMBER) [0..<FILE_TABLE_ENTRIES] = Some i"
    by (auto simp: find_file_entry_slot_def split: option.splits)
  then have "i = k" "magic_number (ft i) \<noteq> MAGIC_NUMBER"
    using ne(2) small [of i] i [unfolded find_upt_Some_iff] i by (simp_all add: find_file_entry_slot_def)
  then show "\<not> in_table ft k" by (simp add: in_table_def)
qed

text \<open>The hypotheses under which a file can be created in the directory \<open>d\<close>.\<close>

definition can_create :: "'a fs_scheme \<Rightarrow> nat \<Rightarrow> u32 \<Rightarrow> u64 \<Rightarrow> nat \<Rightarrow> u32 \<Rightarrow> u32 \<Rightarrow> bool" where
  "can_create s d type sz k st st' \<longleftrightarrow>
     (type = FILE \<or> type = DIRECTORY \<and> sz = 0) \<and> unat sz \<le> 130560 \<and>
     unat (fsize (disk_table s d)) + 64 \<le> 130560 \<and>
     find_file_entry_slot (disk_table s) = word_of_nat k \<and> k < FILE_TABLE_ENTRIES \<and>
     find_space_for_file (sector_count s) (disk_table s) sz = Some st \<and>
     find_space_for_file (sector_count s)
       ((disk_table s)(k := new_file type st sz, d := (disk_table s d)\<lparr>magic_number := 0\<rparr>))
       (word_of_nat (unat (fsize (disk_table s d)) + 64)) = Some st'"

text \<open>The table with the new entry, before it is listed.\<close>

lemma create_entry:
  assumes ok: "fs_ok s" and c: "calm s s1" and a: "agree (table s1) (disk_table s)" and cc: "can_create s d type sz k st st'"
  defines "e \<equiv> new_file type st sz"
  defines "s2 \<equiv> set_entry_at k e s1"
  shows "\<not> in_table (table s1) k" "k < FILE_TABLE_ENTRIES" "table s2 = (table s1)(k := e)" "same_static s s2"
    "table_ok (sector_count s) (table s2)" "dirs_ok (table s2) (contents s2 (table s2))"
    "path_index (table s2) (contents s2 (table s2)) q = path_file s q"
    "in_table (table s2) j \<longleftrightarrow> in_table (disk_table s) j \<or> j = k" "file_bytes s2 x = file_bytes s x"
    "641 \<le> unat st" "unat st + need_sectors sz < unat (sector_count s)" "drive s2 = drive s1"
proof -
  define ft where "ft = table s1"
  note vol = agree_volume [OF ok c a, folded ft_def]
  have k: "k < FILE_TABLE_ENTRIES" "\<not> in_table ft k"
    using cc find_slot_free(1) [of ft k] find_slot_agree [OF a] by (simp_all add: can_create_def ft_def)
  show "\<not> in_table (table s1) k" "k < FILE_TABLE_ENTRIES" using k by (simp_all add: ft_def)
  note sel = set_entry_at_sel [OF k(1)]
  show t2: "table s2 = (table s1)(k := e)" and dr: "drive s2 = drive s1" by (simp_all add: s2_def sel)
  show ss: "same_static s s2"
    unfolding s2_def by (rule same_static_trans [OF calm_same_static [OF c] sel(2)])
  show fb: "file_bytes s2 x = file_bytes s x" for x
    using drive_volume(2) [OF dr] calm_file_bytes [OF c] by simp
  have sc: "sector_count s1 = sector_count s" using c by (simp add: calm_def)
  have sz: "unat sz \<le> 130560" using cc by (simp add: can_create_def)
  have es: "start_sector e = st" "unat (fsize e) = unat sz" by (simp_all add: e_def new_file_def unat_ucast_small [OF sz])
  have "find_space_for_file (sector_count s) ft sz = Some st"
    using cc find_space_agree [OF a] by (simp add: can_create_def ft_def)
  with find_space_sound_complete [OF vol(2) sz] sc show st: "641 \<le> unat st" "unat st + need_sectors sz < unat (sector_count s)"
    by auto
  have free: "\<And>j. holds_data ft j \<Longrightarrow> apart_range (unat st) (unat st + need_sectors sz) (ft j)"
    using find_space_sound_complete [OF vol(2) sz] sc \<open>find_space_for_file (sector_count s) ft sz = Some st\<close> by auto
  show "table_ok (sector_count s) (table s2)"
    unfolding t2 ft_def [symmetric]
    by (rule table_ok_place) (use vol(2) sc es sz st free need_sectors_entry_hi [OF es(2)] in \<open>simp_all add: entry_lo_def\<close>)
  have ce: "contents s2 (ft(k := e)) j = contents s1 ft j" if "in_table ft j" for j
    using that k(2) fb calm_file_bytes [OF c] by (auto simp: contents_def)
  have ty: "magic_number e = MAGIC_NUMBER" "ftype e = FILE \<or> ftype e = DIRECTORY \<and> fsize e = 0"
    using cc by (auto simp: e_def new_file_def can_create_def)
  note keep = add_entry_keeps [OF vol(3) k(2,1) ty ce]
  show "dirs_ok (table s2) (contents s2 (table s2))" using keep(2) by (simp add: t2 ft_def)
  show "path_index (table s2) (contents s2 (table s2)) q = path_file s q"
    using path_index_keeps [OF keep(1) vol(3) keep(3), of q] vol(4) [of q] by (simp add: t2 ft_def)
  show "in_table (table s2) j \<longleftrightarrow> in_table (disk_table s) j \<or> j = k"
    using keep(4) in_table_agree [OF a] by (simp add: t2 ft_def)
qed

text \<open>Listing the new file and writing its data.\<close>

lemma create_list:
  assumes ok: "fs_ok s" and c: "calm s s1" and a: "agree (table s1) (disk_table s)" and cc: "can_create s d type sz k st st'"
    and d: "in_table (disk_table s) d" "is_dir (disk_table s d)" and nm: "length name \<le> 59" "0 \<notin> set name"
    and src: "unat sz \<le> length src"
  defines "e \<equiv> new_file type st sz"
  defines "s2 \<equiv> set_entry_at k e s1"
  assumes s3: "calm s2 s3" "file_table s3 = file_table s2"
  shows "\<exists>s4 s5 old ft3. add_file_to_dir d k name s3 = Some (True, s4) \<and> fs_write st src sz s4 = Some s5 \<and>
    same_static s s5 \<and> agree (disk_table s5) ft3 \<and> table_ok (sector_count s) ft3 \<and>
    longer_listing (table s2) (contents s2 (table s2)) ft3 (contents s5 ft3) d k name old \<and>
    ft3 k = e \<and> file_bytes s5 e = take (unat sz) src \<and>
    (\<forall>j. in_table (disk_table s) j \<and> j \<noteq> d \<longrightarrow>
       ft3 j = disk_table s j \<and> file_bytes s5 (disk_table s j) = file_bytes s (disk_table s j))"
proof -
  note ce = create_entry [OF ok c a cc, folded e_def, folded s2_def]
  define ft2 where "ft2 = table s2"
  have t3: "table s3 = ft2" using s3(2) by (simp add: table_def ft2_def)
  have dk: "d \<noteq> k" using d(1) in_table_agree [OF a] ce(1) by auto
  have td: "ft2 d = disk_table s d" using dk ce(3) agree_nth [OF a] d(1) by (simp add: ft2_def in_table_def)
  have dsz: "unat (fsize (ft2 d)) mod 64 = 0" using ok d by (simp add: td fs_ok_def dirs_ok_def)
  have ready: "fs_ready s3" "sector_count s3 = sector_count s"
    using ok same_static_trans [OF ce(4) calm_same_static [OF s3(1)]] by (simp_all add: same_static_def fs_ok_def)
  define sz' :: u64 where "sz' = word_of_nat (unat (fsize (ft2 d)) + 64)"
  have "agree (ft2(d := (ft2 d)\<lparr>magic_number := 0\<rparr>)) ((disk_table s)(k := e, d := (disk_table s d)\<lparr>magic_number := 0\<rparr>))"
    unfolding td using agree_upd [OF agree_upd [OF a]] ce(3) by (simp add: ft2_def)
  from find_space_agree [OF this] cc ready(2) td
  have find: "find_space_for_file (sector_count s3) (ft2(d := (ft2 d)\<lparr>magic_number := 0\<rparr>)) sz' = Some st'"
    by (simp add: can_create_def e_def sz'_def)
  have "table_ok (sector_count s3) (table s3)" "in_table (table s3) d" "unat (fsize (table s3 d)) + 64 \<le> 130560"
    using ce(5) ready(2) t3 ce(8) d(1) cc td by (simp_all add: ft2_def can_create_def)
  from add_file_to_dir_effect [OF ready(1) this(1,2) _ this(3) nm(1), unfolded t3, OF dsz find [unfolded sz'_def], of k]
  obtain s4 old where s4: "length old = 60" "add_file_to_dir d k name s3 = Some (True, s4)"
    "file_table s4 = Some (ft2(d := edited (ft2 d) st' sz'))" "table_ok (sector_count s) (table s4)"
    "agree (disk_table s4) (table s4)" "same_static s3 s4"
    "file_bytes s4 (edited (ft2 d) st' sz') = take (unat (fsize (ft2 d)) + 64) (file_bytes s3 (ft2 d) @ new_entry name old k)"
    and keep4: "\<And>j. holds_data ft2 j \<Longrightarrow> j \<noteq> d \<Longrightarrow> file_bytes s4 (ft2 j) = file_bytes s3 (ft2 j)"
    unfolding sz'_def [symmetric] using ready(2) by auto
  define ft3 where "ft3 = ft2(d := edited (ft2 d) st' sz')"
  have t4: "table s4 = ft3" using s4(3) by (simp add: table_def ft3_def)
  have ok3: "table_ok (sector_count s) ft3" using s4(4) t4 by simp
  have sz: "unat sz \<le> 130560" using cc by (simp add: can_create_def)
  have es: "start_sector e = st" "unat (fsize e) = unat sz" "magic_number e = MAGIC_NUMBER"
    by (simp_all add: e_def new_file_def unat_ucast_small [OF sz])
  have k3: "ft3 k = e" using dk ce(3) by (simp add: ft3_def ft2_def)
  have ss4: "same_static s s4"
    by (rule same_static_trans [OF ce(4) same_static_trans [OF calm_same_static [OF s3(1)] s4(6)]])
  then have r4: "fs_ready s4" "sector_count s4 = sector_count s" using ok by (simp_all add: same_static_def fs_ok_def)
  from fs_write_file_bytes [OF r4(1) sz ce(11) [folded r4(2)] src ce(10)] es obtain s5 where
    s5: "fs_write st src sz s4 = Some s5" "same_static s4 s5" "file_bytes s5 e = take (unat sz) src" "disk_table s5 = disk_table s4"
    and far: "\<And>x. apart_range (unat st) (unat st + need_sectors sz) x \<Longrightarrow> file_bytes s5 x = file_bytes s4 x" by blast
  have keep5: "file_bytes s5 (ft3 j) = file_bytes s4 (ft3 j)" if "holds_data ft3 j" "j \<noteq> k" for j
  proof (cases "sz = 0")
    case True
    with s5(1) show ?thesis by simp
  next
    case False
    then have "holds_data ft3 k" using k3 es ce(2) unat_eq_zero [of sz] by (auto simp: holds_data_def)
    with ok3 that have "apart_range (entry_lo e) (entry_hi e) (ft3 j)" by (auto simp: table_ok_def k3 [symmetric])
    then show ?thesis using far need_sectors_entry_hi [OF es(2)] es(1) by (simp add: entry_lo_def)
  qed
  have ag: "agree (disk_table s5) ft3" using s5(4) s4(5) t4 by simp
  have bytes: "file_bytes s5 (ft2 j) = file_bytes s (ft2 j)" if "in_table ft2 j" "j \<noteq> d" "j \<noteq> k" for j
  proof (cases "fsize (ft2 j) = 0")
    case True
    then show ?thesis by (simp add: file_bytes_empty)
  next
    case False
    with that have h: "holds_data ft2 j" "holds_data ft3 j" by (auto simp: holds_data_def in_table_def ft3_def)
    have "file_bytes s5 (ft2 j) = file_bytes s4 (ft2 j)" using keep5 [OF h(2) that(3)] that(2) by (simp add: ft3_def)
    then show ?thesis using keep4 [OF h(1) that(2)] calm_file_bytes [OF s3(1)] ce(9) by simp
  qed
  have len: "length (file_bytes s (ft2 d)) = unat (fsize (ft2 d))" by (simp add: file_bytes_def)
  have size': "unat (fsize (ft3 d)) = unat (fsize (ft2 d)) + 64"
  proof -
    have u: "unat sz' = unat (fsize (ft2 d)) + 64" unfolding sz'_def
      by (rule unat_word_of_nat_less) (use cc td in \<open>simp add: can_create_def\<close>)
    with cc td have "unat sz' \<le> 130560" by (simp add: can_create_def)
    from unat_ucast_small [OF this] u show ?thesis by (simp add: ft3_def edited_def)
  qed
  have list: "file_bytes s5 (ft3 d) = file_bytes s (ft2 d) @ new_entry name old k"
  proof -
    have "holds_data ft3 d" using size' d(1) by (auto simp: holds_data_def ft3_def edited_def in_table_def)
    from keep5 [OF this dk] s4(7) calm_file_bytes [OF s3(1)] ce(9) len put_name_short(2) [OF nm(1) s4(1)] show ?thesis
      by (simp add: ft3_def new_entry_def)
  qed
  have it3: "in_table ft3 j = in_table ft2 j" "ftype (ft3 j) = ftype (ft2 j)" for j
    using d(1) ce(8) [of d] by (auto simp: ft3_def edited_def in_table_def ft2_def)
  have "longer_listing ft2 (contents s2 ft2) ft3 (contents s5 ft3) d k name old"
    unfolding longer_listing_def
  proof (intro conjI allI impI)
    show "dirs_ok ft2 (contents s2 ft2)" using ce(6) by (simp add: ft2_def)
    show "in_table ft2 d" "in_table ft2 k" using ce(8) d(1) by (simp_all add: ft2_def)
    show "is_dir (ft2 d)" using td d(2) by simp
    show "length name \<le> 59" "0 \<notin> set name" "length old = 60" using nm s4(1) by simp_all
    show "length (contents s2 ft2 d) = unat (fsize (ft2 d))" by (simp add: contents_def file_bytes_def)
    show "in_table ft3 i = in_table ft2 i" "ftype (ft3 i) = ftype (ft2 i)" for i by (rule it3)+
    show "unat (fsize (ft3 d)) = unat (fsize (ft2 d)) + 64" by (rule size')
    show "contents s5 ft3 d = contents s2 ft2 d @ new_entry name old k" using list ce(9) by (simp add: contents_def)
    fix i assume i: "i \<noteq> d"
    then show "fsize (ft3 i) = fsize (ft2 i)" by (simp add: ft3_def)
  next
    fix i assume i: "i \<noteq> d \<and> in_table ft2 i \<and> is_dir (ft2 i) \<and> fsize (ft2 i) \<noteq> 0"
    have "\<not> (is_dir e \<and> fsize e \<noteq> 0)"
      using cc by (auto simp: e_def new_file_def can_create_def is_dir_def FILE_def DIRECTORY_def ROOT_DIRECTORY_def)
    with i have "i \<noteq> k" using ce(3) by (auto simp: ft2_def)
    with bytes i ce(9) show "contents s5 ft3 i = contents s2 ft2 i" by (simp add: contents_def ft3_def)
  qed
  moreover have "ft3 j = disk_table s j \<and> file_bytes s5 (disk_table s j) = file_bytes s (disk_table s j)"
    if "in_table (disk_table s) j" "j \<noteq> d" for j
  proof -
    have jk: "j \<noteq> k" using that(1) in_table_agree [OF a] ce(1) by auto
    then have "ft2 j = disk_table s j" using ce(3) agree_nth [OF a] that(1) by (simp add: ft2_def in_table_def)
    with bytes [of j] ce(8) [of j] that jk show ?thesis by (simp add: ft3_def ft2_def)
  qed
  ultimately show ?thesis
    using s4(2) s5(1,3) ag ok3 k3 same_static_trans [OF ss4 s5(2)] unfolding ft2_def by blast
qed

text \<open>The whole operation.\<close>

lemma create_volume:
  assumes ok: "fs_ok s" and p: "is_valid_path (Some p)" "0 \<notin> set p" "path_file s p = None" "split_path p = (dp, name)"
    and d: "path_file s dp = Some d" "dp = [47] \<or> ftype (disk_table s d) = DIRECTORY" and nm: "length name \<le> 59"
    and cc: "can_create s d type sz k st st'" and src: "unat sz \<le> length src"
  shows "\<exists>s'. filesystem_write_file (Some p) src type sz s = Some (True, s') \<and> fs_ok s' \<and> same_static s s' \<and>
    file_content s' p = Some (take (unat sz) src) \<and>
    (\<forall>q j. path_file s q = Some j \<longrightarrow> path_file s' q = Some j \<and> (j \<noteq> d \<longrightarrow> file_content s' q = file_content s q))"
proof -
  have len: "p \<noteq> []" "hd p = 47" "strlen p \<noteq> 0" using p(1) by (simp_all add: is_valid_path_def)
  then have "47 \<in> set p" by (cases p) auto
  then obtain xs where xs: "p = xs @ 47 # name" "47 \<notin> set name" "dp = xs @ [47]"
    using split_path_eq [of p] p(4) by (metis Pair_inject)
  have name: "name \<noteq> []" "0 \<notin> set name" using xs p(2,3) d(1) by auto
  have itd: "in_table (disk_table s) d" by (rule path_file_in_table [OF ok d(1)])
  have root: "str_split 47 dp = [] \<or> ftype (disk_table s d) = DIRECTORY" using d(2) by (auto simp: str_split_Cons_delim)
  have dird: "is_dir (disk_table s d)"
  proof (cases "dp = [47]")
    case True
    with d(1) have "find_root (disk_table s) = Some d"
      by (auto simp: path_file_def path_index_def str_split_Cons_delim split: if_splits option.splits)
    then show ?thesis by (rule find_root_in_table)
  next
    case False
    with d(2) show ?thesis by (simp add: is_dir_def)
  qed
  obtain s0 where s0: "filesystem_file_exists (Some p) s = Some (False, s0)" "calm s s0"
    using file_exists_ok [OF ok p(1)] p(3) by auto
  have ok0: "fs_ok s0" using ok calm_fs_ok [OF s0(2)] by simp
  obtain s1 where s1: "load_file_table s0 = Some s1" "calm s0 s1" "agree (table s1) (disk_table s)"
    using load_ok [OF ok0] calm_disk_table [OF s0(2)] by auto
  note c1 = calm_trans [OF s0(2) s1(2)]
  define e where "e = new_file type st sz"
  define s2 where "s2 = set_entry_at k e s1"
  note ce = create_entry [OF ok c1 s1(3) cc, folded e_def, folded s2_def]
  have att: "attached (drive s2)" "sector_count s2 = sector_count s"
    using ok ce(4) ce(12) c1 by (simp_all add: fs_ok_def same_static_def fs_ready_def calm_def)
  obtain s3 where s3: "resolve_path dp s2 = Some (Some d, s3)" "calm s2 s3" "file_table s3 = file_table s2"
    using resolve_path_index [OF att(1) _ ce(6), of dp] ce(5) ce(7) [of dp] d(1) att(2) by auto
  obtain s4 s5 old ft3 where
    run: "add_file_to_dir d k name s3 = Some (True, s4)" "fs_write st src sz s4 = Some s5" and
    fin: "same_static s s5" "agree (disk_table s5) ft3" "table_ok (sector_count s) ft3" and
    L: "longer_listing (table s2) (contents s2 (table s2)) ft3 (contents s5 ft3) d k name old" and
    new: "ft3 k = e" "file_bytes s5 e = take (unat sz) src" and
    old: "\<And>j. in_table (disk_table s) j \<Longrightarrow> j \<noteq> d \<Longrightarrow>
       ft3 j = disk_table s j \<and> file_bytes s5 (disk_table s j) = file_bytes s (disk_table s j)"
    using create_list [OF ok c1 s1(3) cc itd dird nm name(2) src, folded e_def, folded s2_def, OF s3(2,3)] by metis
  define s' where "s' = free_file_table s5"
  have slot: "find_file_entry_slot (table s1) \<noteq> -1" "unat (find_file_entry_slot (table s1)) = k"
    using find_slot_free [of "table s1" k] find_slot_agree [OF s1(3)] cc by (simp_all add: can_create_def)
  have space: "find_space_for_file (sector_count s1) (table s1) sz = Some st"
    using cc find_space_agree [OF s1(3)] c1 by (simp add: can_create_def calm_def)
  have w: "filesystem_write_file (Some p) src type sz s = Some (True, s')"
    using p(1,4) s0(1) s1(1) space slot s3(1) run
    by (simp add: filesystem_write_file_def s'_def s2_def e_def new_file_def Let_def)
  have vol: "drive s' = drive s5" "same_static s s'"
    using fin(1) by (simp_all add: s'_def free_file_table_def same_static_def fs_ready_def)
  note dv = drive_volume [OF vol(1)]
  have ag: "agree (disk_table s') ft3" using fin(2) dv(1) by simp
  have cts: "contents s' ft3 = contents s5 ft3" using dv(2) by (simp add: contents_def fun_eq_iff)
  note sd = same_dirs_agree [OF agree_sym [OF ag], of s']
  have dirs: "dirs_ok ft3 (contents s' ft3)" unfolding cts by (rule longer_dirs_ok [OF L])
  have pf: "path_file s' q = path_index ft3 (contents s5 ft3) q" for q
    unfolding path_file_def using path_index_same [OF sd dirs] by (simp add: cts)
  have "fs_ok s'"
    using dirs_ok_same [OF sd dirs] table_ok_agree [OF agree_sym [OF ag] fin(3)] ok vol(2)
    by (simp add: fs_ok_def same_static_def)
  moreover have mono: "path_file s' q = Some j" if "path_file s q = Some j" for q j
    unfolding pf by (rule path_index_mono [OF L]) (use that ce(7) in simp)
  moreover have "file_content s' q = file_content s q" if "path_file s q = Some j" "j \<noteq> d" for q j
  proof -
    have j: "in_table (disk_table s) j" by (rule path_file_in_table [OF ok that(1)])
    with agree_nth [OF ag, of j] have "disk_table s' j = ft3 j" by (simp add: in_table_def)
    with mono [OF that(1)] that(1) old [OF j that(2)] dv(2) show ?thesis by (simp add: file_content_def)
  qed
  moreover have "path_file s' p = Some k"
  proof -
    have dk: "d \<noteq> k" using itd in_table_agree [OF s1(3), of d] ce(1) by blast
    have td: "table s2 d = disk_table s d"
      unfolding ce(3) using dk agree_nth [OF s1(3), of d] itd by (simp add: in_table_def)
    have "path_index (table s2) (contents s2 (table s2)) (xs @ [47]) = Some d"
      "str_split 47 (xs @ [47]) = [] \<or> ftype (table s2 d) = DIRECTORY" "strlen (xs @ 47 # name) \<noteq> 0"
      "path_index (table s2) (contents s2 (table s2)) (xs @ 47 # name) = None"
      using ce(7) [of dp] ce(7) [of p] d(1) p(3) root len(3) td unfolding xs(1,3) by simp_all
    with path_index_last [OF this(1,2) name(1) xs(2) this(3)]
    have "lookup (table s2) (contents s2 (table s2)) [name] d = None" by simp
    then have none: "dir_search (table s2) (contents s2 (table s2) d) (unat (fsize (table s2 d)) div 64) name True = None"
      by (auto simp: dir_search_def split: if_splits option.splits)
    have "path_index ft3 (contents s5 ft3) dp = Some d" using mono [OF d(1)] pf by simp
    moreover have "ftype (ft3 d) = ftype (disk_table s d)" using kinds(2) [OF L, of d] td by simp
    ultimately have "path_index ft3 (contents s5 ft3) p = lookup ft3 (contents s5 ft3) [name] d"
      using path_index_last [of ft3 "contents s5 ft3" xs d name] root name(1) len(3) xs(2) unfolding xs(1,3) by simp
    also have "\<dots> = Some k" using search_d [OF L, of name True] none fsize_d [OF L] by simp
    finally show ?thesis by (simp add: pf)
  qed
  then have "file_content s' p = Some (take (unat sz) src)"
    using agree_nth [OF ag ce(2)] new dv(2) by (simp add: file_content_def)
  ultimately show ?thesis using w vol(2) by blast
qed

end
