(* ===== verification/FsProps.thy ===== *)
theory FsProps
  imports FsCreate
begin

unbundle bit_operations_syntax

text \<open>
  The properties of the file system's operations, over the volume on the disk: formatting,
  reading, overwriting and creating files. \<open>formatted_fs\<close> is a disk of 4096 sectors after
  \<open>ensure_root\<close>.
\<close>

section \<open>Formatting\<close>

lemma con_line_fs [simp]:
  "drive (con_line m s) = drive s" "file_table (con_line m s) = file_table s" "sector_count (con_line m s) = sector_count s"
  "writable_drive (con_line m s) = writable_drive s" "ub (con_line m s) = ub s" "table (con_line m s) = table s"
  by (simp_all add: con_line_def con_print_def table_def)

lemma calm_con_line [simp]: "calm s (con_line m t) = calm s t" "calm (con_line m s) t = calm s t"
  by (simp_all add: calm_def)

lemma same_static_con_line [simp]: "same_static s (con_line m t) = same_static s t"
  "same_static (con_line m s) t = same_static s t"
  by (simp_all add: same_static_def fs_ready_def)

text \<open>The table of an empty volume.\<close>

definition root_entry :: file_entry_t where
  "root_entry = \<lparr>magic_number = MAGIC_NUMBER, ftype = ROOT_DIRECTORY, start_sector = 21, fsize = 0\<rparr>"

definition root_table :: "nat \<Rightarrow> file_entry_t" where
  "root_table i = (if i = 0 then root_entry else zero_entry)"

lemma in_root_table: "in_table root_table i \<longleftrightarrow> i = 0"
  by (simp add: in_table_def root_table_def root_entry_def zero_entry_def MAGIC_NUMBER_def FILE_TABLE_ENTRIES_def)

lemma root_table_ok: "641 < unat sc \<Longrightarrow> table_ok sc root_table"
proof -
  have "\<not> holds_data root_table i" for i
    by (simp add: holds_data_def root_table_def root_entry_def zero_entry_def)
  then show "641 < unat sc \<Longrightarrow> table_ok sc root_table" by (simp add: table_ok_def)
qed

lemma root_dirs_ok: "dirs_ok root_table c"
  by (simp add: dirs_ok_def in_root_table root_table_def root_entry_def)

lemma find_root_table: "find_root root_table = Some 0"
  unfolding find_root_def find_upt_Some_iff
  by (simp add: root_table_def root_entry_def FILE_TABLE_ENTRIES_def)

lemma path_index_slash: "path_index ft c [47] = find_root ft"
  by (simp add: path_index_def strlen_eq str_split_Cons_delim split: option.split)

lemma agree_fs_ok:
  assumes "agree (disk_table s) ft" "fs_ready s" "table_ok (sector_count s) ft" "\<And>c. dirs_ok ft c"
  shows "fs_ok s" "path_file s p = path_index ft (contents s ft) p"
proof -
  note sd = same_dirs_agree [OF agree_sym [OF assms(1)], of s]
  show "fs_ok s"
    using assms(2) table_ok_agree [OF agree_sym [OF assms(1)] assms(3)] dirs_ok_same [OF sd assms(4)]
    by (simp add: fs_ok_def)
  show "path_file s p = path_index ft (contents s ft) p"
    using path_index_same [OF sd assms(4)] by (simp add: path_file_def)
qed

lemma ensure_root_format:
  assumes "fs_ready s" "641 < unat (sector_count s)" "find_root (disk_table s) = None"
  shows "\<exists>s'. ensure_root s = Some s' \<and> same_static s s' \<and> agree (disk_table s') root_table"
proof -
  obtain s0 where s0: "load_file_table s = Some s0" "calm s s0" "agree (table s0) (disk_table s)"
    using load_file_table_calm [of s] assms(1,2) by (auto simp: fs_ready_def)
  have nr: "find_root (table s0) = None" using find_root_agree [OF s0(3)] assms(3) by simp
  define s2 where "s2 = con_line ''[filesystem] root wasn't found, creating root...''
    (con_line ''[filesystem] searching for root'' s0)"
  define s3 where "s3 = s2\<lparr>file_table := Some (\<lambda>i. if i < FILE_TABLE_ENTRIES then zero_entry else table s2 i)\<rparr>"
  define s5 where "s5 = set_entry_at 0 \<lparr>magic_number = MAGIC_NUMBER, ftype = ROOT_DIRECTORY,
      start_sector = word_of_nat (1 + FILE_TABLE_SECTORS), fsize = 0\<rparr> (con_line ''[filesystem] deleted file table'' s3)"
  define s5' where "s5' = con_line ''[filesystem] created root entry'' s5"
  have z: "0 < FILE_TABLE_ENTRIES" by (simp add: FILE_TABLE_ENTRIES_def)
  note sel = set_entry_at_sel [OF z]
  have t5: "agree (table s5') root_table"
    by (simp add: s5'_def s5_def sel s3_def agree_def root_table_def root_entry_def FILE_TABLE_SECTORS_def table_def)
  have "same_static s s2" using calm_same_static [OF s0(2)] by (simp add: s2_def)
  then have "same_static s s3" by (simp add: s3_def same_static_def fs_ready_def)
  then have ss5: "same_static s s5'"
    unfolding s5'_def s5_def same_static_con_line
    by (rule same_static_trans [OF _ sel(2) [of "con_line ''[filesystem] deleted file table'' s3", unfolded same_static_con_line]])
  then have "fs_ready s5'" "641 < unat (sector_count s5')" using assms(1,2) by (simp_all add: same_static_def)
  from save_file_table_effect [OF this] obtain s6 where s6: "save_file_table s5' = Some s6" "same_static s5' s6"
    "agree (disk_table s6) (table s5')" by blast
  define s' where "s' = free_file_table (con_line ''[filesystem] saved new file table with root'' s6)"
  have "ensure_root s = Some s'"
    using s0(1) nr s6(1) by (simp add: ensure_root_def Let_def s2_def [symmetric] s3_def [symmetric] s5_def s5'_def s'_def)
  moreover have "same_static s s'"
    using same_static_trans [OF ss5 s6(2)] by (simp add: s'_def free_file_table_def same_static_def fs_ready_def)
  moreover have "drive s' = drive s6" by (simp add: s'_def free_file_table_def)
  then have "agree (disk_table s') root_table"
    using agree_trans [OF s6(3) t5] drive_volume(1) by metis
  ultimately show ?thesis by blast
qed

text \<open>
  C23: at boot \<open>ensure_root\<close> returns; a volume with a root directory is left alone, any other is
  formatted: the result is well formed, the path \<open>/\<close> names the root directory and it is empty.
\<close>
theorem ensure_root_correct:
  assumes "fs_ready s" "641 < unat (sector_count s)"
  shows "\<exists>s'. ensure_root s = Some s' \<and>
    (if find_root (disk_table s) \<noteq> None then calm s s'
     else fs_ok s' \<and> path_file s' [47] = Some 0 \<and> file_content s' [47] = Some [])"
proof (cases "find_root (disk_table s)")
  case None
  from ensure_root_format [OF assms None] obtain s' where s': "ensure_root s = Some s'" "same_static s s'"
    "agree (disk_table s') root_table" by blast
  have r: "fs_ready s'" "641 < unat (sector_count s')" using assms s'(2) by (simp_all add: same_static_def)
  note v = agree_fs_ok [OF s'(3) r(1) root_table_ok [OF r(2)] root_dirs_ok]
  have pf: "path_file s' [47] = Some 0" by (simp add: v(2) path_index_slash find_root_table)
  have "disk_table s' 0 = root_entry" using agree_nth [OF s'(3), of 0] by (simp add: root_table_def FILE_TABLE_ENTRIES_def)
  then have "file_content s' [47] = Some []" using pf by (simp add: file_content_def file_bytes_empty root_entry_def)
  with s'(1) v(1) pf None show ?thesis by simp
next
  case (Some r)
  obtain s0 where s0: "load_file_table s = Some s0" "calm s s0" "agree (table s0) (disk_table s)"
    using load_file_table_calm [of s] assms by (auto simp: fs_ready_def)
  with Some find_root_agree [OF s0(3)] show ?thesis by (simp add: ensure_root_def Let_def)
qed

definition blank_fs :: fs where
  "blank_fs = allocator.extend boot_allocator
     \<lparr>drive = blank_drive, model = replicate 41 0, sector_count = 4096, writable_drive = True,
      file_table = None, junk = (\<lambda>_ _. 0xCC), mallocs = 0, ub = False\<rparr>"

lemma blank_fs_sel [simp]: "drive blank_fs = blank_drive" "sector_count blank_fs = 4096" "writable_drive blank_fs"
  "ub blank_fs = False"
  by (simp_all add: blank_fs_def allocator.extend_def)

lemma blank_ready: "fs_ready blank_fs"
  by (simp add: fs_ready_def blank_drive_def)

lemma disk_bytes_blank: "disk_bytes (disk blank_drive) off n = replicate n 0"
  by (auto intro!: nth_equalityI simp: disk_bytes_def disk_byte_def blank_drive_def)

lemma blank_no_root: "find_root (disk_table blank_fs) = None"
proof -
  have "magic_number (disk_table blank_fs i) = 0" if "i < FILE_TABLE_ENTRIES" for i
    using that by (simp add: disk_table_def disk_bytes_blank entry_at_def le32_at_def FILE_TABLE_ENTRIES_def FILE_TABLE_SIZE_def)
  then show ?thesis unfolding find_root_def find_upt_None_iff by (simp add: MAGIC_NUMBER_def)
qed

theorem ensure_root_correct_witness:
  "\<exists>s'. ensure_root blank_fs = Some s' \<and> fs_ok s' \<and> file_content s' [47] = Some []"
  using ensure_root_correct [OF blank_ready] by (simp add: blank_no_root) blast

section \<open>Reading\<close>


text \<open>A formatted disk of 4096 sectors.\<close>

definition formatted_fs :: fs where
  "formatted_fs = the (ensure_root blank_fs)"

lemma formatted_fs:
  "fs_ready formatted_fs" "sector_count formatted_fs = 4096" "agree (disk_table formatted_fs) root_table"
  "fs_ok formatted_fs" "path_file formatted_fs p = path_index root_table (contents formatted_fs root_table) p"
proof -
  have sc: "641 < unat (sector_count blank_fs)" by simp
  from ensure_root_format [OF blank_ready sc blank_no_root]
  show r: "fs_ready formatted_fs" "sector_count formatted_fs = 4096" and ag: "agree (disk_table formatted_fs) root_table"
    using blank_ready by (auto simp: formatted_fs_def same_static_def)
  have "641 < unat (sector_count formatted_fs)" using r(2) by simp
  note v = agree_fs_ok [OF ag r(1) root_table_ok [OF this] root_dirs_ok]
  show "fs_ok formatted_fs" "path_file formatted_fs p = path_index root_table (contents formatted_fs root_table) p"
    using v by simp_all
qed

lemma valid_a: "is_valid_path (Some (str ''/a''))" "0 \<notin> set (str ''/a'')" "split_path (str ''/a'') = ([47], [97])"
  by (simp_all add: is_valid_path_def str_def strlen_eq FILE_NAME_LENGTH_def split_path_def strrchr_def)

lemma str_a: "str ''/a'' = [47, 97]"
  by (simp add: str_def)

lemma formatted_root: "path_file formatted_fs [47] = Some 0" "disk_table formatted_fs 0 = root_entry"
  "path_file formatted_fs (str ''/a'') = None"
proof -
  show "path_file formatted_fs [47] = Some 0" by (simp add: formatted_fs(5) path_index_slash find_root_table)
  show "disk_table formatted_fs 0 = root_entry"
    using agree_nth [OF formatted_fs(3), of 0] by (simp add: root_table_def FILE_TABLE_ENTRIES_def)
  have "str_split 47 [47, 97] = [[97]]" using str_split_token [of "[97]" 47 "[]"] by (simp add: str_split_Cons_delim)
  then show "path_file formatted_fs (str ''/a'') = None"
    by (simp add: formatted_fs(5) path_index_def find_root_table str_a root_table_def root_entry_def split: option.split)
qed


section \<open>Creating\<close>

text \<open>
  C4: writing to a path that names no file, in a directory, creates the file: the operation
  returns success, the volume stays well formed, the path names a file with exactly the data
  written, and every other path names the same file as before, with the same content unless it is
  the directory that now lists the new file. \<open>can_create\<close> says that there is a free slot and room for
  the data and for the longer listing.
\<close>
theorem filesystem_write_file_creates:
  assumes "fs_ok s" "is_valid_path (Some p)" "0 \<notin> set p" "path_file s p = None" "split_path p = (dp, name)"
    and "path_file s dp = Some d" "dp = [47] \<or> ftype (disk_table s d) = DIRECTORY" "length name \<le> 59"
    and "can_create s d type sz k st st'" "unat sz \<le> length src"
  shows "\<exists>s'. filesystem_write_file (Some p) src type sz s = Some (True, s') \<and> fs_ok s' \<and>
    file_content s' p = Some (take (unat sz) src) \<and>
    (\<forall>q j. path_file s q = Some j \<longrightarrow> path_file s' q = Some j \<and> (j \<noteq> d \<longrightarrow> file_content s' q = file_content s q))"
  using create_volume [OF assms] by blast

lemma filter_only:
  assumes "j < n" "\<And>i. i < n \<Longrightarrow> P i \<longleftrightarrow> i = j"
  shows "filter P [0..<n] = [j]"
proof -
  have "filter P [0..<n] = filter ((=) j) [0..<n]" by (rule filter_cong) (use assms in auto)
  moreover have "[0..<n] = [0..<j] @ j # [Suc j..<n]"
    using assms(1) upt_add_eq_append [of 0 j "n - j"] by (simp add: upt_conv_Cons)
  ultimately show ?thesis by (auto simp: filter_empty_conv)
qed

lemma find_space_single:
  assumes "j < FILE_TABLE_ENTRIES" "\<And>i. i < FILE_TABLE_ENTRIES \<Longrightarrow> magic_number (ft i) = MAGIC_NUMBER \<longleftrightarrow> i = j"
  shows "find_space_for_file sc ft sz =
    (let need = ucast ((sz + 512 - 1) div 512) in
     case gap_loop need [ft j] 641 of
       (Some start, _) \<Rightarrow> Some start
     | (None, prev_end) \<Rightarrow> if ucast sc - 1 - prev_end \<ge> need then Some prev_end else None)"
  using filter_only [OF assms] by (simp add: find_space_for_file_def sort_order_def Let_def FILE_TABLE_ENTRIES_def)

lemma formatted_can_create: "can_create formatted_fs 0 FILE 2 1 641 642"
proof -
  have slot: "find_file_entry_slot (disk_table formatted_fs) = word_of_nat 1"
  proof -
    have "List.find (\<lambda>i. magic_number (root_table i) \<noteq> MAGIC_NUMBER) [0..<FILE_TABLE_ENTRIES] = Some 1"
      unfolding find_upt_Some_iff
      by (simp add: root_table_def root_entry_def zero_entry_def MAGIC_NUMBER_def FILE_TABLE_ENTRIES_def)
    then show ?thesis unfolding find_slot_agree [OF formatted_fs(3)] by (simp add: find_file_entry_slot_def)
  qed
  have s1: "find_space_for_file 4096 (disk_table formatted_fs) 2 = Some 641"
    unfolding find_space_agree [OF formatted_fs(3)]
    by (subst find_space_single [of 0])
      (auto simp: root_table_def root_entry_def zero_entry_def MAGIC_NUMBER_def FILE_TABLE_ENTRIES_def)
  have "agree ((disk_table formatted_fs)(1 := new_file FILE 641 2, 0 := (disk_table formatted_fs 0)\<lparr>magic_number := 0\<rparr>))
      (root_table(1 := new_file FILE 641 2, 0 := root_entry\<lparr>magic_number := 0\<rparr>))"
    unfolding formatted_root(2) by (intro agree_upd formatted_fs(3))
  note a2 = find_space_agree [OF this]
  have s2: "find_space_for_file 4096 ((disk_table formatted_fs)(1 := new_file FILE 641 2,
      0 := (disk_table formatted_fs 0)\<lparr>magic_number := 0\<rparr>)) 64 = Some 642"
    unfolding a2
    by (subst find_space_single [of 1])
      (auto simp: root_table_def root_entry_def zero_entry_def new_file_def MAGIC_NUMBER_def FILE_TABLE_ENTRIES_def
        end_sector_def Let_def)
  from slot s1 s2 show ?thesis
    by (simp add: can_create_def formatted_fs(2) formatted_root(2) root_entry_def FILE_TABLE_ENTRIES_def)
qed

theorem filesystem_write_file_creates_witness:
  "\<exists>s'. filesystem_write_file (Some (str ''/a'')) [7, 8] FILE 2 formatted_fs = Some (True, s') \<and> fs_ok s' \<and>
     file_content s' (str ''/a'') = Some [7, 8] \<and> path_file s' [47] = Some 0"
  using filesystem_write_file_creates [OF formatted_fs(4) valid_a(1,2) formatted_root(3) valid_a(3) formatted_root(1) _ _
      formatted_can_create, of "[7, 8]"] formatted_root(1) by auto

section \<open>Overwriting\<close>

text \<open>
  C6: writing to a path that names a file replaces its content: every path that names this file
  reads the new data, every other path names the same file with the same content, and the volume
  stays well formed.
\<close>
theorem filesystem_write_file_overwrites:
  assumes "fs_ok s" "is_valid_path (Some p)" "path_file s p = Some i" "ftype (disk_table s i) = FILE"
    and "unat sz \<le> 130560" "unat sz \<le> length src"
    and "find_space_for_file (sector_count s) ((disk_table s)(i := (disk_table s i)\<lparr>magic_number := 0\<rparr>)) sz = Some st"
  shows "\<exists>s'. filesystem_write_file (Some p) src type sz s = Some (True, s') \<and> fs_ok s' \<and>
    (\<forall>q. path_file s' q = path_file s q \<and>
       file_content s' q = (if path_file s q = Some i then Some (take (unat sz) src) else file_content s q))"
  using overwrite_volume [OF assms] by blast

text \<open>A disk with a root directory that lists one file of five bytes.\<close>

definition one_table :: "nat \<Rightarrow> file_entry_t" where
  "one_table i =
     (if i = 0 then \<lparr>magic_number = MAGIC_NUMBER, ftype = ROOT_DIRECTORY, start_sector = 641, fsize = 64\<rparr>
      else if i = 1 then \<lparr>magic_number = MAGIC_NUMBER, ftype = FILE, start_sector = 642, fsize = 5\<rparr>
      else zero_entry)"

definition one_listing :: "u8 list" where
  "one_listing = new_entry [97] (replicate 60 0) 1"

definition one_listed :: fs where
  "one_listed = the (fs_write 641 one_listing 64 (blank_fs\<lparr>file_table := Some one_table\<rparr>))"

definition one_file_fs :: fs where
  "one_file_fs = the (save_file_table one_listed)"

lemma one_table_sel:
  "in_table one_table i \<longleftrightarrow> i = 0 \<or> i = 1" "holds_data one_table i \<longleftrightarrow> i = 0 \<or> i = 1"
  "is_dir (one_table i) \<longleftrightarrow> i = 0 \<or> i \<noteq> 1 \<and> is_dir zero_entry"
  by (auto simp: in_table_def holds_data_def is_dir_def one_table_def zero_entry_def MAGIC_NUMBER_def
      FILE_TABLE_ENTRIES_def FILE_def DIRECTORY_def ROOT_DIRECTORY_def)

lemma one_table_ok: "table_ok 4096 one_table"
  unfolding table_ok_def one_table_sel
  by (auto simp: one_table_def entry_ok_def apart_range_def entry_lo_def entry_hi_def)

lemma one_name: "length [97 :: u8] \<le> 59" "length (replicate 60 (0 :: u8)) = 60" "0 \<notin> set [97 :: u8]"
  by simp_all

lemma one_listing_length: "length one_listing = 64"
  using put_name_short(2) [OF one_name(1,2)] by (simp add: one_listing_def new_entry_def)

lemma one_file_fs:
  "fs_ready one_file_fs" "sector_count one_file_fs = 4096" "agree (disk_table one_file_fs) one_table"
  "file_bytes one_file_fs (one_table 0) = one_listing"
proof -
  define s0 where "s0 = blank_fs\<lparr>file_table := Some one_table\<rparr>"
  have r0: "fs_ready s0" "sector_count s0 = 4096" using blank_ready by (simp_all add: s0_def fs_ready_def)
  obtain s1 where s1: "fs_write 641 one_listing 64 s0 = Some s1" "file_table s1 = file_table s0" "same_static s0 s1"
    "file_bytes s1 (one_table 0) = one_listing"
    using fs_write_file_bytes [of s0 64 641 one_listing] r0 by (auto simp: need_sectors_def one_listing_length one_table_def)
  have e1: "one_listed = s1" using s1(1) by (simp add: one_listed_def s0_def)
  have r1: "fs_ready s1" "sector_count s1 = 4096" using s1(3) r0 by (simp_all add: same_static_def)
  obtain s2 where s2: "save_file_table s1 = Some s2" "same_static s1 s2" "agree (disk_table s2) (table s1)"
    "\<forall>e. 641 \<le> entry_lo e \<longrightarrow> file_bytes s2 e = file_bytes s1 e"
    using save_file_table_effect [of s1] r1 by auto
  have e2: "one_file_fs = s2" using s2(1) e1 by (simp add: one_file_fs_def)
  have "table s1 = one_table" using s1(2) by (simp add: table_def s0_def)
  with s2 r1 s1(4) show "fs_ready one_file_fs" "sector_count one_file_fs = 4096"
    "agree (disk_table one_file_fs) one_table" "file_bytes one_file_fs (one_table 0) = one_listing"
    by (simp_all add: e2 same_static_def one_table_def entry_lo_def)
qed

lemma one_dirs_ok: "dirs_ok one_table (contents one_file_fs one_table)"
proof -
  have "listed_ok one_table one_listing 0"
    using listed_ok_new [of "[]" 0 "[97]" "replicate 60 0" one_table 1] by (simp add: one_listing_def one_table_sel)
  then show ?thesis
    by (auto simp: dirs_ok_def one_table_sel contents_def one_file_fs(4)) (simp_all add: one_table_def)
qed

lemma one_file_ok: "fs_ok one_file_fs" "path_file one_file_fs (str ''/a'') = Some 1"
  "disk_table one_file_fs 1 = one_table 1"
proof -
  note sd = same_dirs_agree [OF agree_sym [OF one_file_fs(3)], of one_file_fs]
  show "fs_ok one_file_fs"
    using one_file_fs(1,2) table_ok_agree [OF agree_sym [OF one_file_fs(3)] one_table_ok] dirs_ok_same [OF sd one_dirs_ok]
    by (simp add: fs_ok_def)
  show "disk_table one_file_fs 1 = one_table 1"
    using agree_nth [OF one_file_fs(3), of 1] by (simp add: FILE_TABLE_ENTRIES_def)
  have root: "find_root one_table = Some 0"
    unfolding find_root_def find_upt_Some_iff by (simp add: one_table_def FILE_TABLE_ENTRIES_def)
  have "dir_search one_table one_listing 1 [97] True = Some 1"
    using dir_search_append [of "[]" 0 "[97]" "replicate 60 0" one_table 1 "[97]" True]
    by (simp add: one_listing_def one_table_sel dir_search_def)
  then have "lookup one_table (contents one_file_fs one_table) [[97]] 0 = Some 1"
    by (simp add: contents_def one_file_fs(4)) (simp add: one_table_def)
  moreover have "str_split 47 [47, 97] = [[97]]" using str_split_token [of "[97]" 47 "[]"] by (simp add: str_split_Cons_delim)
  ultimately show "path_file one_file_fs (str ''/a'') = Some 1"
    using path_index_same [OF sd one_dirs_ok, of "[47, 97]"] root
    by (simp add: path_file_def path_index_def str_a strlen_eq)
qed

lemma one_file_space:
  "find_space_for_file (sector_count one_file_fs)
     ((disk_table one_file_fs)(1 := (disk_table one_file_fs 1)\<lparr>magic_number := 0\<rparr>)) 600 = Some 642"
  unfolding one_file_ok(3) find_space_agree [OF agree_upd [OF one_file_fs(3)]] one_file_fs(2)
  by (subst find_space_single [of 0])
    (auto simp: one_table_def zero_entry_def MAGIC_NUMBER_def FILE_TABLE_ENTRIES_def end_sector_def Let_def)

theorem filesystem_write_file_overwrites_witness:
  "\<exists>s'. filesystem_write_file (Some (str ''/a'')) (replicate 600 9) FILE 600 one_file_fs = Some (True, s') \<and> fs_ok s' \<and>
     file_content s' (str ''/a'') = Some (replicate 600 9)"
proof -
  have "ftype (disk_table one_file_fs 1) = FILE" unfolding one_file_ok(3) by (simp add: one_table_def)
  from filesystem_write_file_overwrites [OF one_file_ok(1) valid_a(1) one_file_ok(2) this _ _ one_file_space,
      of "replicate 600 9" FILE] one_file_ok(2)
  show ?thesis by (simp only: length_replicate take_replicate) auto
qed

end
