(* ===== verification/Gdt.thy ===== *)
theory Gdt
  imports Filesystem
begin

unbundle bit_operations_syntax

text \<open>
  The segment descriptors of \<open>src/src/gdt.c\<close>: the global descriptor table as its bytes, the task
  state segment, and the three assembly routines of \<open>src/src/main_asm.S\<close> that load them into the
  processor. The addresses the linker gives to the table, to the task state segment and to the
  transition stack are parameters.
\<close>

section \<open>State\<close>

record GDT_entry =
  gbase :: u32
  glimit :: u32
  access_byte :: u8
  gflags :: u8

record tss_entry =
  reserved0 :: u32
  rsp0 :: u64
  rsp1 :: u64
  rsp2 :: u64
  reserved1 :: u64
  ist :: "u64 list"
  reserved2 :: u64
  reserved3 :: u16
  iopb_offset :: u16

record gdt_state = fs +
  gdt :: "u8 list"
  kernel_tss :: tss_entry
  gdtr :: "u16 \<times> u64"
  code_selector :: u16
  data_selectors :: u16
  task_register :: u16

section \<open>Encoding\<close>

text \<open>\<open>target\<close> points \<open>off\<close> bytes into the table.\<close>

definition encode_gdt_entry :: "nat \<Rightarrow> GDT_entry \<Rightarrow> u8 list \<Rightarrow> u8 list" where
  "encode_gdt_entry off e t =
     (if glimit e > 0xFFFFF then t
      else
        (let t1 = t[off := ucast (glimit e AND 0xFF), off + 1 := ucast (drop_bit 8 (glimit e) AND 0xFF),
                    off + 6 := ucast (drop_bit 16 (glimit e) AND 0x0F)];
             t2 = t1[off + 2 := ucast (gbase e AND 0xFF), off + 3 := ucast (drop_bit 8 (gbase e) AND 0xFF),
                     off + 4 := ucast (drop_bit 16 (gbase e) AND 0xFF), off + 7 := ucast (drop_bit 24 (gbase e) AND 0xFF)];
             t3 = t2[off + 5 := access_byte e]
         in t3[off + 6 := t3 ! (off + 6) OR push_bit 4 (gflags e)]))"

definition sizeof_tss :: u32 where "sizeof_tss = 104"

definition zero_tss :: tss_entry where
  "zero_tss = \<lparr>reserved0 = 0, rsp0 = 0, rsp1 = 0, rsp2 = 0, reserved1 = 0, ist = replicate 7 0, reserved2 = 0,
     reserved3 = 0, iopb_offset = 0\<rparr>"

definition encode_segments :: "u8 list \<Rightarrow> u8 list" where
  "encode_segments t =
     encode_gdt_entry 0x20 \<lparr>gbase = 0, glimit = 0xFFFFF, access_byte = 0xF2, gflags = 0xC\<rparr>
       (encode_gdt_entry 0x18 \<lparr>gbase = 0, glimit = 0xFFFFF, access_byte = 0xFA, gflags = 0xA\<rparr>
         (encode_gdt_entry 0x10 \<lparr>gbase = 0, glimit = 0xFFFFF, access_byte = 0x92, gflags = 0xC\<rparr>
           (encode_gdt_entry 0x08 \<lparr>gbase = 0, glimit = 0xFFFFF, access_byte = 0x9A, gflags = 0xA\<rparr>
             (encode_gdt_entry 0 \<lparr>gbase = 0, glimit = 0, access_byte = 0, gflags = 0\<rparr> t))))"

definition encode_tss :: "u64 \<Rightarrow> u8 list \<Rightarrow> u8 list" where
  "encode_tss tss_base t =
     (encode_gdt_entry 0x28 \<lparr>gbase = ucast tss_base, glimit = sizeof_tss - 1, access_byte = 0x89, gflags = 0\<rparr> t)
       [0x30 := ucast (drop_bit 32 tss_base AND 0xFF), 0x31 := ucast (drop_bit 40 tss_base AND 0xFF),
        0x32 := ucast (drop_bit 48 tss_base AND 0xFF), 0x33 := ucast (drop_bit 56 tss_base AND 0xFF)]"

section \<open>Loading\<close>

definition setGdt :: "u16 \<Rightarrow> u64 \<Rightarrow> 'a gdt_state_scheme \<Rightarrow> 'a gdt_state_scheme" where
  "setGdt limit base s = s\<lparr>gdtr := (limit, base)\<rparr>"

definition reloadSegments :: "'a gdt_state_scheme \<Rightarrow> 'a gdt_state_scheme" where
  "reloadSegments s = s\<lparr>code_selector := 0x08, data_selectors := 0x10\<rparr>"

definition flush_tss :: "'a gdt_state_scheme \<Rightarrow> 'a gdt_state_scheme" where
  "flush_tss s = s\<lparr>task_register := 0x28\<rparr>"

definition gdt_init :: "u64 \<Rightarrow> u64 \<Rightarrow> u64 \<Rightarrow> 'a gdt_state_scheme \<Rightarrow> 'a gdt_state_scheme" where
  "gdt_init gdt_addr tss_base stack_top s =
     (let s1 = con_line ''[gdt] encoded gdt entries'' (s\<lparr>gdt := encode_segments (gdt s)\<rparr>);
          s2 = s1\<lparr>gdt := encode_tss tss_base (gdt s1), kernel_tss := zero_tss\<lparr>rsp0 := stack_top\<rparr>\<rparr>;
          s3 = con_line ''[gdt] encoded tss entry'' s2;
          s4 = con_line ''[gdt] loaded gdt'' (setGdt (7 * 8 - 1) gdt_addr s3);
          s5 = con_line ''[gdt] reloaded segments'' (reloadSegments s4);
          s6 = con_line ''[gdt] flushed tss'' (flush_tss s5)
      in con_line ''[gdt] gdt init'' s6)"

definition gdt_create_selector :: "u8 \<Rightarrow> u8 \<Rightarrow> u8 \<Rightarrow> u16" where
  "gdt_create_selector index TI RPL = push_bit 3 (ucast index) OR push_bit 2 (ucast TI) OR ucast RPL"

section \<open>Decoding\<close>

text \<open>How the processor reads a descriptor.\<close>

definition desc_base :: "u8 list \<Rightarrow> nat \<Rightarrow> u32" where
  "desc_base t off = ucast (t ! (off + 2)) OR push_bit 8 (ucast (t ! (off + 3))) OR
     push_bit 16 (ucast (t ! (off + 4))) OR push_bit 24 (ucast (t ! (off + 7)))"

definition desc_limit :: "u8 list \<Rightarrow> nat \<Rightarrow> u32" where
  "desc_limit t off = ucast (t ! off) OR push_bit 8 (ucast (t ! (off + 1))) OR
     push_bit 16 (ucast (t ! (off + 6) AND 0x0F))"

definition desc_access :: "u8 list \<Rightarrow> nat \<Rightarrow> u8" where
  "desc_access t off = t ! (off + 5)"

definition desc_flags :: "u8 list \<Rightarrow> nat \<Rightarrow> u8" where
  "desc_flags t off = drop_bit 4 (t ! (off + 6))"

definition desc_dpl :: "u8 list \<Rightarrow> nat \<Rightarrow> u8" where
  "desc_dpl t off = drop_bit 5 (desc_access t off) AND 3"

lemma mask_words:
  "(0xFF :: u32) = mask 8" "(0x0F :: u32) = mask 4" "(0x0F :: u8) = mask 4"
  by (simp_all add: mask_eq_exp_minus_1)

lemma limit_bits:
  assumes "l \<le> (0xFFFFF :: u32)" "20 \<le> n"
  shows "\<not> bit l n"
proof -
  have "l < 2 ^ 20" using assms(1) by (simp add: word_le_nat_alt word_less_nat_alt)
  then have "take_bit 20 l = l" by (metis less_mask_eq take_bit_eq_mask)
  then show ?thesis using assms(2) by (metis bit_take_bit_iff not_less)
qed

lemma flag_bits:
  assumes "f < (16 :: u8)" "4 \<le> n"
  shows "\<not> bit f n"
proof -
  have "take_bit 4 f = f" using assms(1) less_mask_eq [of f 4] by (simp add: take_bit_eq_mask)
  then show ?thesis using assms(2) by (metis bit_take_bit_iff not_less)
qed

lemma encode_gdt_entry_length [simp]: "length (encode_gdt_entry off e t) = length t"
  by (simp add: encode_gdt_entry_def Let_def)

lemma encode_gdt_entry_nth:
  assumes "glimit e \<le> 0xFFFFF" "off + 8 \<le> length t"
  shows "encode_gdt_entry off e t ! off = ucast (glimit e AND 0xFF)"
    and "encode_gdt_entry off e t ! (off + 1) = ucast (drop_bit 8 (glimit e) AND 0xFF)"
    and "encode_gdt_entry off e t ! (off + 2) = ucast (gbase e AND 0xFF)"
    and "encode_gdt_entry off e t ! (off + 3) = ucast (drop_bit 8 (gbase e) AND 0xFF)"
    and "encode_gdt_entry off e t ! (off + 4) = ucast (drop_bit 16 (gbase e) AND 0xFF)"
    and "encode_gdt_entry off e t ! (off + 5) = access_byte e"
    and "encode_gdt_entry off e t ! (off + 6) = ucast (drop_bit 16 (glimit e) AND 0x0F) OR push_bit 4 (gflags e)"
    and "encode_gdt_entry off e t ! (off + 7) = ucast (drop_bit 24 (gbase e) AND 0xFF)"
    and "n < off \<or> off + 8 \<le> n \<Longrightarrow> encode_gdt_entry off e t ! n = t ! n"
  using assms by (auto simp add: encode_gdt_entry_def Let_def nth_list_update)

lemma byte_cases:
  fixes n :: nat
  assumes "n < 32" "n < 8 \<Longrightarrow> Q" "8 \<le> n \<Longrightarrow> n < 16 \<Longrightarrow> Q" "16 \<le> n \<Longrightarrow> n < 24 \<Longrightarrow> Q" "24 \<le> n \<Longrightarrow> n < 32 \<Longrightarrow> Q"
  shows "Q"
  using assms by linarith

lemma word_of_bytes:
  fixes w :: u32
  shows "ucast (ucast (w AND mask 8) :: u8) OR push_bit 8 (ucast (ucast (drop_bit 8 w AND mask 8) :: u8)) OR
     push_bit 16 (ucast (ucast (drop_bit 16 w AND mask 8) :: u8)) OR
     push_bit 24 (ucast (ucast (drop_bit 24 w AND mask 8) :: u8)) = w" (is "?l = w")
proof (rule bit_word_eqI)
  fix n assume "n < LENGTH(32)"
  then have n: "n < 32" by simp
  show "bit ?l n = bit w n"
    using n by (rule byte_cases) (auto simp: bit_simps)
qed

lemma word_of_limit:
  fixes l :: u32 and f :: u8
  assumes "l \<le> 0xFFFFF"
  shows "ucast (ucast (l AND mask 8) :: u8) OR push_bit 8 (ucast (ucast (drop_bit 8 l AND mask 8) :: u8)) OR
     push_bit 16 (ucast ((ucast (drop_bit 16 l AND mask 4) OR push_bit 4 f) AND mask 4)) = l" (is "?l = l")
proof (rule bit_word_eqI)
  fix n assume "n < LENGTH(32)"
  then have n: "n < 32" by simp
  have l: "bit l n \<Longrightarrow> n < 20" using limit_bits [OF assms, of n] by linarith
  show "bit ?l n = bit l n"
    using n by (rule byte_cases) (use l in \<open>auto simp: bit_simps\<close>)
qed

lemma desc_base_encode:
  assumes "glimit e \<le> 0xFFFFF" "off + 8 \<le> length t"
  shows "desc_base (encode_gdt_entry off e t) off = gbase e"
  unfolding desc_base_def encode_gdt_entry_nth [OF assms] mask_words by (rule word_of_bytes)

lemma desc_limit_encode:
  assumes "glimit e \<le> 0xFFFFF" "off + 8 \<le> length t"
  shows "desc_limit (encode_gdt_entry off e t) off = glimit e"
  unfolding desc_limit_def encode_gdt_entry_nth [OF assms] mask_words by (rule word_of_limit [OF assms(1)])

lemma desc_flags_encode:
  assumes "glimit e \<le> 0xFFFFF" "off + 8 \<le> length t" "gflags e < 16"
  shows "desc_flags (encode_gdt_entry off e t) off = gflags e"
proof -
  have "n < 4" if "bit (gflags e) n" for n using flag_bits [OF assms(3), of n] that by linarith
  then show ?thesis unfolding desc_flags_def encode_gdt_entry_nth [OF assms(1,2)] mask_words
    by (intro bit_word_eqI) (auto simp: bit_simps)
qed

lemma desc_access_encode:
  assumes "glimit e \<le> 0xFFFFF" "off + 8 \<le> length t"
  shows "desc_access (encode_gdt_entry off e t) off = access_byte e"
  unfolding desc_access_def by (rule encode_gdt_entry_nth(6) [OF assms])

end
