(* ===== verification/Scheduler.thy ===== *)
theory Scheduler
  imports FsProps Gdt
begin

unbundle bit_operations_syntax

text \<open>
  The process scheduler of \<open>src/src/process/process_scheduler.c\<close>: processes are structures on the
  kernel heap, linked in a ring; the timer interrupt saves the interrupted registers in the current
  process, advances along the ring, handles pending signals and loads the registers and the address
  space of the next process.

  \<open>procs\<close> is the memory at the addresses of process structures. The interrupt frame a handler
  receives as \<open>uint64_t* current_regs\<close> is a value of type \<open>cpu_state_t\<close>, returned updated. Writing
  through a null pointer is a page fault, which halts the kernel.
\<close>

section \<open>State\<close>

record cpu_state_t =
  gs_seg :: u64
  fs_seg :: u64
  r15 :: u64
  r14 :: u64
  r13 :: u64
  r12 :: u64
  r11 :: u64
  r10 :: u64
  r9 :: u64
  r8 :: u64
  rbp :: u64
  rdi :: u64
  rsi :: u64
  rdx :: u64
  rcx :: u64
  rbx :: u64
  rax :: u64
  error_code :: u64
  rip :: u64
  cs_seg :: u64
  rflags :: u64
  rsp :: u64
  ss_seg :: u64

record process_t =
  pid :: u32
  regs :: cpu_state_t
  pending_signals :: u32
  PML4 :: u64
  next_process :: u64

record sched = gdt_state +
  procs :: "u64 \<Rightarrow> process_t"
  highest_pid :: u32
  current_process :: u64
  kernel_process :: u64
  interrupt_flag :: bool

definition SIG_ABRT :: u32 where "SIG_ABRT = 2 ^ 5"
definition SIG_KILL :: u32 where "SIG_KILL = 2 ^ 8"
definition STACK_SIZE :: u64 where "STACK_SIZE = 0x4000"
definition STACK_START :: u64 where "STACK_START = 0x00007fffffffffff"

definition zero_regs :: cpu_state_t where
  "zero_regs = \<lparr>gs_seg = 0, fs_seg = 0, r15 = 0, r14 = 0, r13 = 0, r12 = 0, r11 = 0, r10 = 0, r9 = 0, r8 = 0,
     rbp = 0, rdi = 0, rsi = 0, rdx = 0, rcx = 0, rbx = 0, rax = 0, error_code = 0, rip = 0, cs_seg = 0,
     rflags = 0, rsp = 0, ss_seg = 0\<rparr>"

text \<open>\<open>sizeof(process_t)\<close>.\<close>

definition sizeof_process :: u64 where "sizeof_process = 216"

definition set_proc :: "u64 \<Rightarrow> process_t \<Rightarrow> 'a sched_scheme \<Rightarrow> 'a sched_scheme" where
  "set_proc p v s = s\<lparr>procs := (procs s)(p := v)\<rparr>"

text \<open>Sequencing of operations that may halt or not return.\<close>

definition and_then ::
    "('a, 's) outcome option \<Rightarrow> ('a \<Rightarrow> 's \<Rightarrow> ('b, 's) outcome option) \<Rightarrow> ('b, 's) outcome option" where
  "and_then m f = (case m of None \<Rightarrow> None | Some (Halted t) \<Rightarrow> Some (Halted t) | Some (Ok a s) \<Rightarrow> f a s)"

lemma and_then_simps [simp]:
  "and_then None f = None" "and_then (Some (Halted t)) f = Some (Halted t)" "and_then (Some (Ok a s)) f = f a s"
  by (simp_all add: and_then_def)

section \<open>Creating processes\<close>

definition process_scheduler_init :: "u64 \<Rightarrow> 'a sched_scheme \<Rightarrow> (unit, 'a sched_scheme) outcome option" where
  "process_scheduler_init kernel_PML4 s =
     and_then (Some (allocator_heap_init HEAP_SIZE True
         (con_line ''[process_scheduler] initializing heap for kernel:'' s))) (\<lambda>success s1.
       if \<not> success then Some (panic (str ''failed to initialize heap for kernel'') s1)
       else
         and_then (malloc sizeof_process (con_line ''[process_scheduler] heap init'' s1)) (\<lambda>p s2.
           let s3 = s2\<lparr>current_process := p\<rparr> in
           if p = 0 then Some (panic (str ''failed to initialize kernel process tracking'') s3)
           else
             (let s4 = set_proc p \<lparr>pid = 0, regs = zero_regs, pending_signals = 0, PML4 = kernel_PML4,
                                   next_process = p\<rparr> s3;
                  s5 = s4\<lparr>kernel_process := p\<rparr>
              in Some (Ok () (con_line ''[process_scheduler] process_scheduler init''
                   (con_line ''[process_scheduler] created kernel process'' s5))))))"

definition new_regs :: "u64 \<Rightarrow> bool \<Rightarrow> cpu_state_t" where
  "new_regs start is_kernel_level =
     (let code_segment = ucast (if is_kernel_level then gdt_create_selector 1 0 0 else gdt_create_selector 3 0 3);
          data_segment = ucast (if is_kernel_level then gdt_create_selector 2 0 0 else gdt_create_selector 4 0 3)
      in zero_regs\<lparr>gs_seg := data_segment, fs_seg := data_segment, rip := start, cs_seg := code_segment,
           rflags := 0x202, rsp := STACK_START, ss_seg := data_segment\<rparr>)"

definition process_scheduler_add_process ::
    "u64 \<Rightarrow> u64 \<Rightarrow> bool \<Rightarrow> 'a sched_scheme \<Rightarrow> (u32, 'a sched_scheme) outcome option" where
  "process_scheduler_add_process process_code_start pml4 is_kernel_level s =
     and_then (malloc sizeof_process (s\<lparr>interrupt_flag := False\<rparr>)) (\<lambda>p s1.
       if p = 0 then Some (Halted s1)
       else
         (let new_pid = highest_pid s1 + 1;
              s2 = s1\<lparr>highest_pid := new_pid\<rparr>;
              cur = current_process s2;
              s3 = set_proc p \<lparr>pid = new_pid, regs = new_regs process_code_start is_kernel_level,
                     pending_signals = 0, PML4 = pml4, next_process = next_process (procs s2 cur)\<rparr> s2;
              s4 = set_proc cur ((procs s3 cur)\<lparr>next_process := p\<rparr>) s3
          in Some (Ok new_pid (s4\<lparr>interrupt_flag := True\<rparr>))))"

definition process_scheduler_get_kernel_PML4 :: "'a sched_scheme \<Rightarrow> u64" where
  "process_scheduler_get_kernel_PML4 s = PML4 (procs s (kernel_process s))"

definition process_scheduler_get_current_PML4 :: "'a sched_scheme \<Rightarrow> u64" where
  "process_scheduler_get_current_PML4 s = PML4 (procs s (current_process s))"

section \<open>Searching the ring\<close>

partial_function (option) find_loop :: "(u64 \<Rightarrow> process_t) \<Rightarrow> u32 \<Rightarrow> u64 \<Rightarrow> u64 \<Rightarrow> u64 option" where
  "find_loop ps n first_process p =
     (if pid (ps p) = n then Some p
      else if next_process (ps p) = first_process then Some first_process
      else find_loop ps n first_process (next_process (ps p)))"

text \<open>The outer option is the loop's return, the inner one the result with its success flag.\<close>

definition find_process :: "u32 \<Rightarrow> 'a sched_scheme \<Rightarrow> u64 option option" where
  "find_process n s =
     map_option (\<lambda>p. if pid (procs s p) \<noteq> n then None else Some p)
       (find_loop (procs s) n (current_process s) (current_process s))"

partial_function (option) find_prev_loop :: "(u64 \<Rightarrow> process_t) \<Rightarrow> u32 \<Rightarrow> u64 \<Rightarrow> u64 \<Rightarrow> u64 option" where
  "find_prev_loop ps n first_process p =
     (if pid (ps (next_process (ps p))) = n then Some p
      else if next_process (ps p) = first_process then Some first_process
      else find_prev_loop ps n first_process (next_process (ps p)))"

definition find_previous_process :: "u32 \<Rightarrow> 'a sched_scheme \<Rightarrow> u64 option option" where
  "find_previous_process n s =
     map_option (\<lambda>p. if pid (procs s (next_process (procs s p))) \<noteq> n then None else Some p)
       (find_prev_loop (procs s) n (current_process s) (current_process s))"

section \<open>Ending processes\<close>

definition process_scheduler_remove_process ::
    "u32 \<Rightarrow> 'a sched_scheme \<Rightarrow> (bool, 'a sched_scheme) outcome option" where
  "process_scheduler_remove_process n s =
     (if n = 0 then Some (Ok False s)
      else
        (case find_previous_process n s of
           None \<Rightarrow> None
         | Some None \<Rightarrow> Some (Ok False s)
         | Some (Some prev_process) \<Rightarrow>
             (let process = next_process (procs s prev_process);
                  next_next = next_process (procs s process);
                  s1 = vmm_load_cpu (vmm_set_PML4 (PML4 (procs s process)) s)
              in and_then (Some (allocator_unmap_heap s1)) (\<lambda>_ s2.
                let s3 = vmm_load_cpu (vmm_set_PML4 (process_scheduler_get_kernel_PML4 s2) s2);
                    s4 = vmm_unmap_PML4 (PML4 (procs s3 process)) s3
                in and_then (free process s4) (\<lambda>_ s5.
                  let s6 = set_proc prev_process ((procs s5 prev_process)\<lparr>next_process := next_next\<rparr>) s5
                  in Some (Ok True (s6\<lparr>current_process := next_next\<rparr>)))))))"

definition process_scheduler_exit ::
    "cpu_state_t \<Rightarrow> 'a sched_scheme \<Rightarrow> (cpu_state_t, 'a sched_scheme) outcome option" where
  "process_scheduler_exit current_regs s =
     and_then (process_scheduler_remove_process (pid (procs s (current_process s))) s) (\<lambda>_ s1.
       Some (Ok (regs (procs s1 (current_process s1))) s1))"

section \<open>Signals\<close>

definition process_scheduler_send_signals :: "u32 \<Rightarrow> u32 \<Rightarrow> 'a sched_scheme \<Rightarrow> 'a sched_scheme option" where
  "process_scheduler_send_signals n signals s =
     map_option (\<lambda>r. case r of
         None \<Rightarrow> s
       | Some p \<Rightarrow> set_proc p ((procs s p)\<lparr>pending_signals := pending_signals (procs s p) OR signals\<rparr>) s)
       (find_process n s)"

text \<open>Only \<open>SIG_ABRT\<close> and \<open>SIG_KILL\<close> have a body in \<open>handle_signals\<close>.\<close>

definition handle_fatal ::
    "bool \<Rightarrow> string \<Rightarrow> u64 \<Rightarrow> 'a sched_scheme \<Rightarrow> (bool, 'a sched_scheme) outcome option" where
  "handle_fatal raised message process s =
     (if \<not> raised then Some (Ok False s)
      else and_then (process_scheduler_remove_process (pid (procs s process)) s) (\<lambda>removed s1.
        if removed then Some (Ok True (con_line message s1)) else Some (Ok False s1)))"

definition handle_signals :: "u64 \<Rightarrow> 'a sched_scheme \<Rightarrow> (bool, 'a sched_scheme) outcome option" where
  "handle_signals process s =
     (let sigs = pending_signals (procs s process);
          s1 = set_proc process ((procs s process)\<lparr>pending_signals := 0\<rparr>) s
      in and_then (handle_fatal (sigs AND SIG_ABRT \<noteq> 0) ''SIGABRT'' process s1) (\<lambda>killed s2.
        if killed then Some (Ok True s2)
        else handle_fatal (sigs AND SIG_KILL \<noteq> 0) ''SIGKILL'' process s2))"

section \<open>Switching\<close>

fun halted :: "('a, 's) outcome \<Rightarrow> bool" where
  "halted (Halted t) = True"
| "halted (Ok a t) = False"

fun result :: "('a, 's) outcome \<Rightarrow> 'a" where
  "result (Ok a t) = a"
| "result (Halted t) = undefined"

definition advance :: "'a sched_scheme \<Rightarrow> 'a sched_scheme" where
  "advance s = s\<lparr>current_process := next_process (procs s (current_process s))\<rparr>"

partial_function (option) next_loop :: "'a sched_scheme \<Rightarrow> (unit, 'a sched_scheme) outcome option" where
  "next_loop s =
     Option.bind (handle_signals (current_process (advance s)) (advance s)) (\<lambda>r.
       if halted r then Some (Halted (final r))
       else if result r then next_loop (final r)
       else Some (Ok () (final r)))"

definition process_scheduler_next_process ::
    "cpu_state_t \<Rightarrow> 'a sched_scheme \<Rightarrow> (cpu_state_t, 'a sched_scheme) outcome option" where
  "process_scheduler_next_process current_regs s =
     (let cur = current_process s;
          s1 = set_proc cur ((procs s cur)\<lparr>regs := current_regs\<rparr>) s;
          s2 = vmm_load_cpu (vmm_set_PML4 (process_scheduler_get_kernel_PML4 s1) s1)
      in and_then (next_loop s2) (\<lambda>_ s3.
        let s4 = vmm_copy_kernel_PML4 (process_scheduler_get_current_PML4 s3) (process_scheduler_get_kernel_PML4 s3) s3;
            s5 = vmm_load_cpu (vmm_set_PML4 (process_scheduler_get_current_PML4 s4) s4)
        in Some (Ok (regs (procs s5 (current_process s5))) s5)))"

end
