(* ===== verification/Loader.thy ===== *)
theory Loader
  imports Scheduler
begin

unbundle bit_operations_syntax

text \<open>
  The program loader of \<open>src/src/process/program_loader.c\<close>: the checks of an ELF header, the
  loading of the segments into a new address space, and the creation of the process.

  The file is the memory from \<open>file_data\<close> on, as a function of the offset. The loader writes the
  segments through the new page tables: \<open>store_bytes\<close> is a sequence of byte stores of the processor,
  each of which walks the tables at \<open>cr3\<close>; the store to a page that is not mapped or not writable
  is a page fault, which halts the kernel.
\<close>

section \<open>Memory accesses through the page tables\<close>

definition cpu_entry :: "u64 \<Rightarrow> 'a vmm_scheme \<Rightarrow> u64 option" where
  "cpu_entry virt s =
     map_option (\<lambda>pt. tables s pt (PT_INDEX virt)) (vmm_walk virt (s\<lparr>current_PML4 := cr3 s + hhdm_offset s\<rparr>))"

definition frame_byte :: "u64 \<Rightarrow> u64 \<Rightarrow> 'a vmm_scheme \<Rightarrow> u64" where
  "frame_byte e virt s = push_bit 12 (physical_addr e) + hhdm_offset s + (virt AND 0xFFF)"

definition load_byte :: "u64 \<Rightarrow> 'a vmm_scheme \<Rightarrow> u8 option" where
  "load_byte virt s = map_option (\<lambda>e. ram s (frame_byte e virt s)) (cpu_entry virt s)"

definition store_byte :: "u64 \<Rightarrow> u8 \<Rightarrow> 'a vmm_scheme \<Rightarrow> 'a vmm_scheme option" where
  "store_byte virt b s =
     Option.bind (cpu_entry virt s) (\<lambda>e.
       if bit e 1 then Some (s\<lparr>ram := (ram s)(frame_byte e virt s := b)\<rparr>) else None)"

fun load_bytes :: "u64 \<Rightarrow> nat \<Rightarrow> 'a vmm_scheme \<Rightarrow> u8 list option" where
  "load_bytes virt 0 s = Some []"
| "load_bytes virt (Suc n) s =
     Option.bind (load_byte virt s) (\<lambda>b. map_option ((#) b) (load_bytes (virt + 1) n s))"

fun store_bytes :: "u64 \<Rightarrow> u8 list \<Rightarrow> 'a vmm_scheme \<Rightarrow> (unit, 'a vmm_scheme) outcome" where
  "store_bytes virt [] s = Ok () s"
| "store_bytes virt (b # bs) s =
     (case store_byte virt b s of None \<Rightarrow> Halted s | Some s1 \<Rightarrow> store_bytes (virt + 1) bs s1)"

section \<open>ELF files\<close>

definition PROCESS_MEMORY_START :: u64 where "PROCESS_MEMORY_START = 0x2000000"

record elf32_header =
  magic_number32 :: u32
  class32 :: u8
  endianness32 :: u8
  header_version32 :: u8
  os_abi32 :: u8
  padding32 :: "u8 list"
  type32 :: u16
  machine32 :: u16
  elf_version32 :: u32
  entry32 :: u32
  program_header_offset32 :: u32
  section_header_offset32 :: u32
  flags32 :: u32
  size32 :: u16
  program_header_entry_size32 :: u16
  program_header_entries32 :: u16
  section_header_entry_size32 :: u16
  section_header_entries32 :: u16
  section_header_str_idx32 :: u16

record elf64_header =
  e_magic_number :: u32
  e_class :: u8
  e_endianness :: u8
  e_header_version :: u8
  e_os_abi :: u8
  e_padding :: "u8 list"
  e_type :: u16
  e_machine :: u16
  e_elf_version :: u32
  e_entry :: u64
  e_program_header_offset :: u64
  e_section_header_offset :: u64
  e_flags :: u32
  e_size :: u16
  e_program_header_entry_size :: u16
  e_program_header_entries :: u16
  e_section_header_entry_size :: u16
  e_section_header_entries :: u16
  e_section_header_str_idx :: u16

record elf64_program_header_entry =
  segment_type :: u32
  p_flags :: u32
  data_offset :: u64
  virtual_address :: u64
  physical_address :: u64
  file_size :: u64
  memory_size :: u64
  alignment :: u64

definition file16 :: "(u64 \<Rightarrow> u8) \<Rightarrow> u64 \<Rightarrow> u16" where
  "file16 f a = ucast (f a) OR push_bit 8 (ucast (f (a + 1)))"

definition file32 :: "(u64 \<Rightarrow> u8) \<Rightarrow> u64 \<Rightarrow> u32" where
  "file32 f a = ucast (file16 f a) OR push_bit 16 (ucast (file16 f (a + 2)))"

definition file64 :: "(u64 \<Rightarrow> u8) \<Rightarrow> u64 \<Rightarrow> u64" where
  "file64 f a = ucast (file32 f a) OR push_bit 32 (ucast (file32 f (a + 4)))"

text \<open>The offsets are those of the structures' natural alignment.\<close>

definition elf64_header_at :: "(u64 \<Rightarrow> u8) \<Rightarrow> elf64_header" where
  "elf64_header_at f =
     \<lparr>e_magic_number = file32 f 0, e_class = f 4, e_endianness = f 5, e_header_version = f 6, e_os_abi = f 7,
      e_padding = map (\<lambda>i. f (8 + word_of_nat i)) [0..<7], e_type = file16 f 16, e_machine = file16 f 18,
      e_elf_version = file32 f 20, e_entry = file64 f 24, e_program_header_offset = file64 f 32,
      e_section_header_offset = file64 f 40, e_flags = file32 f 48, e_size = file16 f 52,
      e_program_header_entry_size = file16 f 54, e_program_header_entries = file16 f 56,
      e_section_header_entry_size = file16 f 58, e_section_header_entries = file16 f 60,
      e_section_header_str_idx = file16 f 62\<rparr>"

definition program_header_at :: "(u64 \<Rightarrow> u8) \<Rightarrow> u64 \<Rightarrow> elf64_program_header_entry" where
  "program_header_at f a =
     \<lparr>segment_type = file32 f a, p_flags = file32 f (a + 4), data_offset = file64 f (a + 8),
      virtual_address = file64 f (a + 16), physical_address = file64 f (a + 24), file_size = file64 f (a + 32),
      memory_size = file64 f (a + 40), alignment = file64 f (a + 48)\<rparr>"

definition log_error :: "string \<Rightarrow> 'a fs_scheme \<Rightarrow> 'a fs_scheme" where
  "log_error msg s = fs_print_concats [str ''[program_loader] failed to load elf program: '', str msg, [10]] s"

definition check_file_elf32 :: "elf32_header \<Rightarrow> 'a fs_scheme \<Rightarrow> bool \<times> 'a fs_scheme" where
  "check_file_elf32 header s =
     (if magic_number32 header \<noteq> 0x464C457F then (False, log_error ''Invalid magic number'' s)
      else if class32 header \<noteq> 1 then (False, log_error ''Invalid class'' s)
      else if endianness32 header \<noteq> 1 then (False, log_error ''Invalid endianness'' s)
      else if os_abi32 header \<noteq> 0 then (False, log_error ''Invalid abi'' s)
      else if type32 header \<noteq> 2 then (False, log_error ''Invalid type'' s)
      else if machine32 header \<noteq> 3 then (False, log_error ''Invalid instruction set'' s)
      else if elf_version32 header \<noteq> 1 then (False, log_error ''Invalid elf version'' s)
      else (True, s))"

definition program_loader_load_elf32 :: "(u64 \<Rightarrow> u8) \<Rightarrow> 'a fs_scheme \<Rightarrow> bool \<times> 'a fs_scheme" where
  "program_loader_load_elf32 file_data s = (False, log_error ''32 bit program loading is deprecated'' s)"

definition check_file_elf64 :: "elf64_header \<Rightarrow> 'a fs_scheme \<Rightarrow> bool \<times> 'a fs_scheme" where
  "check_file_elf64 header s =
     (if e_magic_number header \<noteq> 0x464C457F then (False, log_error ''Invalid magic number'' s)
      else if e_class header \<noteq> 2 then (False, log_error ''Invalid class (Not 64-bit)'' s)
      else if e_endianness header \<noteq> 1 then (False, log_error ''Invalid endianness'' s)
      else if e_os_abi header \<noteq> 0 then (False, log_error ''Invalid abi'' s)
      else if e_type header \<noteq> 2 then (False, log_error ''Invalid type'' s)
      else if e_machine header \<noteq> 62 then (False, log_error ''Invalid instruction set (Not x86-64)'' s)
      else if e_elf_version header \<noteq> 1 then (False, log_error ''Invalid elf version'' s)
      else (True, s))"

section \<open>Loading\<close>

definition load_segment ::
    "(u64 \<Rightarrow> u8) \<Rightarrow> elf64_program_header_entry \<Rightarrow> 'a sched_scheme \<Rightarrow> (unit, 'a sched_scheme) outcome" where
  "load_segment file_data entry s =
     (let va = virtual_address entry; end = va + memory_size entry - 1;
          s1 = snd (vmm_alloc va end VMM_FLAGS_KERNEL_ALL s)
      in bind_outcome (store_bytes va (map (\<lambda>i. file_data (data_offset entry + word_of_nat i)) [0..<unat (file_size entry)]) s1)
        (\<lambda>_ s2. bind_outcome
          (store_bytes (va + file_size entry) (replicate (unat (memory_size entry - file_size entry)) 0) s2)
          (\<lambda>_ s3.
             let is_code = bit (p_flags entry) 0;
                 alloc_flags = (if is_code then VMM_FLAGS_USER_CODE else VMM_FLAGS_USER_RW)
             in Ok () (con_line ''[program_loader] copied entry to memory''
                  (snd (vmm_edit_pages va end alloc_flags s3))))))"

definition load_entry ::
    "(u64 \<Rightarrow> u8) \<Rightarrow> u64 \<Rightarrow> elf64_program_header_entry \<Rightarrow> 'a sched_scheme \<Rightarrow> (bool, 'a sched_scheme) outcome" where
  "load_entry file_data new_PML4 entry s =
     (let s1 = con_line ''[program_loader] reading header entry'' s in
      if segment_type entry \<noteq> 1 then
        Ok True (con_line ''[program_loader] entry type is not PT_LOAD. skipping...'' s1)
      else if virtual_address entry < PROCESS_MEMORY_START then
        (let s2 = log_error ''Program wants to load out of bounds'' s1;
             s3 = vmm_load_cpu (vmm_set_PML4 (process_scheduler_get_kernel_PML4 s2) s2)
         in Ok False (vmm_unmap_PML4 new_PML4 s3))
      else bind_outcome (load_segment file_data entry s1) (\<lambda>_ s2. Ok True s2))"

text \<open>The product of two promoted 16-bit numbers is an \<open>int\<close>.\<close>

definition entry_offset :: "elf64_header \<Rightarrow> nat \<Rightarrow> u64" where
  "entry_offset header i =
     e_program_header_offset header + scast (word_of_nat i * ucast (e_program_header_entry_size header) :: u32)"

fun load_entries ::
    "(u64 \<Rightarrow> u8) \<Rightarrow> u64 \<Rightarrow> elf64_header \<Rightarrow> nat list \<Rightarrow> 'a sched_scheme \<Rightarrow> (bool, 'a sched_scheme) outcome" where
  "load_entries file_data new_PML4 header [] s = Ok True s"
| "load_entries file_data new_PML4 header (i # is) s =
     bind_outcome (load_entry file_data new_PML4 (program_header_at file_data (entry_offset header i)) s)
       (\<lambda>continue s1. if continue then load_entries file_data new_PML4 header is s1 else Ok False s1)"

text \<open>The rest of the function once the segments are in place; the result is the new process id.\<close>

definition start_program ::
    "elf64_header \<Rightarrow> u64 \<Rightarrow> 'a sched_scheme \<Rightarrow> (u32 option, 'a sched_scheme) outcome option" where
  "start_program header new_PML4 s =
     (let s1 = con_line ''[program_loader] mapped stack for process''
                 (snd (vmm_alloc (STACK_START - STACK_SIZE + 1) STACK_START VMM_FLAGS_USER_RW s))
      in and_then (Some (allocator_heap_init HEAP_SIZE False
             (con_line ''[program_loader] initiating heap for process:'' s1))) (\<lambda>_ s2.
        let s3 = vmm_load_cpu (vmm_set_PML4 (process_scheduler_get_kernel_PML4 s2) s2)
        in and_then (process_scheduler_add_process (e_entry header) new_PML4 False s3) (\<lambda>pid s4.
          Some (Ok (Some pid) (con_line ''[program_loader] added process to scheduler'' s4)))))"

definition program_loader_load_elf64 ::
    "(u64 \<Rightarrow> u8) \<Rightarrow> 'a sched_scheme \<Rightarrow> (u32 option, 'a sched_scheme) outcome option" where
  "program_loader_load_elf64 file_data s =
     (let header = elf64_header_at file_data in
      case check_file_elf64 header (con_line ''[program_loader] checking elf64 header'' s) of
        (False, s1) \<Rightarrow> Some (Ok None s1)
      | (True, s1) \<Rightarrow>
          (let s2 = (con_line ''[program_loader] elf64 header OK'' s1)\<lparr>interrupt_flag := False\<rparr> in
           case vmm_create_PML4 (con_line ''[program_loader] creating PML4 for process'' s2) of
             (None, s3) \<Rightarrow> Some (Ok None (log_error ''Failed to create PML4'' s3))
           | (Some new_PML4, s3) \<Rightarrow>
               (let s4 = vmm_copy_kernel_PML4 new_PML4 (process_scheduler_get_kernel_PML4 s3) s3;
                    s5 = con_line ''[program_loader] created PML4'' (vmm_load_cpu (vmm_set_PML4 new_PML4 s4))
                in and_then (Some (load_entries file_data new_PML4 header
                       [0..<unat (e_program_header_entries header)] s5))
                     (\<lambda>success s6. if success then start_program header new_PML4 s6 else Some (Ok None s6)))))"

end
