(* ===== verification/Keyboard.thy ===== *)
theory Keyboard
  imports Prelude
begin

unbundle bit_operations_syntax

text \<open>
  The keyboard half of \<open>src/src/util/io.c\<close>. The controller behind ports 0x60 and 0x64 is the list of
  what successive reads of the status port find: \<open>None\<close> when no data is ready, \<open>Some b\<close> when the byte
  \<open>b\<close> waits in the data port. A wait that the list does not end is the value \<open>None\<close>.
\<close>

section \<open>The controller\<close>

type_synonym controller = "u8 option list"

definition inb_status :: "controller \<Rightarrow> (u8 \<times> controller) option" where
  "inb_status k = (case k of [] \<Rightarrow> None | None # k' \<Rightarrow> Some (0, k') | Some b # k' \<Rightarrow> Some (1, k))"

definition inb_data :: "controller \<Rightarrow> u8 \<times> controller" where
  "inb_data k = (case k of Some b # k' \<Rightarrow> (b, k') | _ \<Rightarrow> (0, k))"

section \<open>Reading a key\<close>

definition SCAN_SPECIAL_PREFIX :: u8 where "SCAN_SPECIAL_PREFIX = 0xE0"

partial_function (option) wait_data :: "controller \<Rightarrow> controller option" where
  "wait_data k =
     Option.bind (inb_status k) (\<lambda>r. if fst r AND 1 = 0 then wait_data (snd r) else Some (snd r))"

definition read_byte :: "controller \<Rightarrow> (u8 \<times> controller) option" where
  "read_byte k = map_option inb_data (wait_data k)"

partial_function (option) io_keyboard_read :: "controller \<Rightarrow> (u16 \<times> controller) option" where
  "io_keyboard_read k =
     Option.bind (read_byte k) (\<lambda>r1.
       if fst r1 = SCAN_SPECIAL_PREFIX then
         Option.bind (read_byte (snd r1)) (\<lambda>r2.
           if fst r2 AND 0x80 \<noteq> 0 then io_keyboard_read (snd r2)
           else Some (push_bit 8 (ucast (fst r1)) OR ucast (fst r2), snd r2))
       else if fst r1 AND 0x80 \<noteq> 0 then io_keyboard_read (snd r1)
       else Some (ucast (fst r1), snd r1))"

section \<open>Characters\<close>

text \<open>The table; \<open>behind\<close> is the memory that follows its 128 entries.\<close>

definition scancode_to_ascii :: "u8 list" where
  "scancode_to_ascii =
     [0, 27] @ str ''1234567890-='' @ [8] @
     [9] @ str ''qwertyuiop[]'' @ [10] @
     [0] @
     str ''asdfghjkl;'' @ [39, 96, 0] @
     [92] @ str ''zxcvbnm,./'' @ [0] @
     str ''*'' @ [0] @ str '' 0.'' @ replicate 68 0"

definition table_at :: "(nat \<Rightarrow> u8) \<Rightarrow> u16 \<Rightarrow> u8" where
  "table_at behind scancode =
     (if unat scancode < 128 then scancode_to_ascii ! unat scancode else behind (unat scancode))"

definition io_is_character :: "(nat \<Rightarrow> u8) \<Rightarrow> u16 \<Rightarrow> bool" where
  "io_is_character behind scancode =
     (if scancode \<ge> 256 then False
      else
        (let ascii = table_at behind scancode in
         if drop_bit 8 scancode = 0xE0 then False
         else (sint ascii \<ge> 32 \<and> sint ascii \<le> 126) \<or> ascii = 8 \<or> ascii = 9 \<or> ascii = 10))"

definition io_scancode_to_character :: "(nat \<Rightarrow> u8) \<Rightarrow> u16 \<Rightarrow> u8" where
  "io_scancode_to_character behind scancode = table_at behind scancode"

section \<open>What a read returns\<close>

text \<open>The bytes the controller delivers, and the first key press among them.\<close>

definition delivered :: "controller \<Rightarrow> u8 list" where
  "delivered k = List.map_filter id k"

fun first_press :: "u8 list \<Rightarrow> (u16 \<times> u8 list) option" where
  "first_press [] = None"
| "first_press (b # bs) =
     (if b = SCAN_SPECIAL_PREFIX then
        (case bs of [] \<Rightarrow> None
         | c # cs \<Rightarrow> if 0x80 \<le> c then first_press cs else Some (0xE000 + ucast c, cs))
      else if 0x80 \<le> b then first_press bs else Some (ucast b, bs))"

lemma table_length [simp]: "length scancode_to_ascii = 128"
  by (simp add: scancode_to_ascii_def str_def)

lemma delivered_simps [simp]:
  "delivered [] = []" "delivered (None # k) = delivered k" "delivered (Some b # k) = b # delivered k"
  by (simp_all add: delivered_def map_filter_simps)

lemma release_iff: "(b AND 0x80 \<noteq> (0 :: u8)) = (0x80 \<le> b)"
proof -
  have "(b AND 0x80 \<noteq> 0) = bit b 7"
    using and_exp_eq_0_iff_not_bit [of b 7] by simp
  also have "\<dots> = bit (unat b) 7" by (simp add: bit_unsigned_iff)
  also have "\<dots> = odd (unat b div 128)" by (simp add: bit_iff_odd)
  also have "\<dots> = (128 \<le> unat b)"
  proof (cases "128 \<le> unat b")
    case True
    then have "unat b div 128 = 1" using unat_less_8 [of b] by (simp add: div_nat_eqI)
    then show ?thesis using True by simp
  qed simp
  finally show ?thesis by (simp add: word_le_nat_alt)
qed

lemma wait_data_eq:
  "wait_data k = (case dropWhile (\<lambda>x. x = None) k of [] \<Rightarrow> None | k' \<Rightarrow> Some k')"
proof (induction k)
  case Nil
  show ?case by (subst wait_data.simps) (simp add: inb_status_def)
next
  case (Cons x k)
  then show ?case by (subst wait_data.simps) (cases x; simp add: inb_status_def)
qed

lemma read_byte_simps [simp]:
  "read_byte [] = None" "read_byte (None # k) = read_byte k" "read_byte (Some b # k) = Some (b, k)"
  by (simp_all add: read_byte_def wait_data_eq inb_data_def)

lemma read_byte_None: "read_byte k = None \<Longrightarrow> delivered k = []"
proof (induction k)
  case (Cons x k)
  then show ?case by (cases x) simp_all
qed simp

lemma read_byte_Some: "read_byte k = Some (b, k') \<Longrightarrow> delivered k = b # delivered k' \<and> length k' < length k"
proof (induction k)
  case (Cons x k)
  then show ?case by (cases x) auto
qed simp

lemma unat_ucast_byte: "unat (ucast (c :: u8) :: u16) = unat c"
  by transfer simp

lemma prefix_code: "(push_bit 8 (ucast SCAN_SPECIAL_PREFIX) OR ucast (c :: u8) :: u16) = 0xE000 + ucast c"
proof -
  have "\<not> bit c n" if "8 \<le> n" for n using that bit_imp_le_length [of c n] by auto
  then have "push_bit 8 (ucast SCAN_SPECIAL_PREFIX) AND ucast c = (0 :: u16)"
    by (intro bit_word_eqI) (auto simp: bit_simps)
  then show ?thesis by (simp add: SCAN_SPECIAL_PREFIX_def disjunctive_add_eq_or push_bit_eq_mult)
qed

lemma io_keyboard_read_eq:
  "map_option (map_prod id delivered) (io_keyboard_read k) = first_press (delivered k)"
proof (induction "length k" arbitrary: k rule: less_induct)
  case less
  show ?case
  proof (cases "read_byte k")
    case None
    then show ?thesis using read_byte_None by (subst io_keyboard_read.simps) simp
  next
    case (Some r)
    obtain b k' where r: "r = (b, k')" by (cases r)
    have d: "delivered k = b # delivered k'" "length k' < length k"
      using read_byte_Some Some r by auto
    show ?thesis
    proof (cases "b = SCAN_SPECIAL_PREFIX")
      case False
      then show ?thesis using Some r d less [of k']
        by (subst io_keyboard_read.simps) (simp add: release_iff)
    next
      case b: True
      show ?thesis
      proof (cases "read_byte k'")
        case None
        then show ?thesis using Some r d b read_byte_None by (subst io_keyboard_read.simps) simp
      next
        case s: (Some r2)
        obtain c k2 where r2: "r2 = (c, k2)" by (cases r2)
        have "delivered k' = c # delivered k2" "length k2 < length k'"
          using read_byte_Some s r2 by auto
        then show ?thesis using Some s r r2 d b less [of k2]
          by (subst io_keyboard_read.simps) (simp add: release_iff prefix_code)
      qed
    qed
  qed
qed

lemma first_press_range:
  "first_press bs = Some (code, rest) \<Longrightarrow> code < 128 \<or> (0xE000 \<le> code \<and> code < 0xE080)"
proof (induction bs rule: first_press.induct)
  case (2 b bs)
  have small: "ucast c < (128 :: u16)" if "\<not> 128 \<le> c" for c :: u8
    using that by (simp add: word_less_nat_alt word_le_nat_alt unat_ucast_byte)
  have "0xE000 \<le> 0xE000 + (ucast c :: u16) \<and> 0xE000 + (ucast c :: u16) < 0xE080" if "\<not> 128 \<le> c" for c :: u8
  proof -
    have "unat c < 128" using that by (simp add: word_le_nat_alt)
    then have "unat (0xE000 + (ucast c :: u16)) = 0xE000 + unat c"
      by (subst unat_word_ariths) (simp add: unat_ucast_byte)
    with \<open>unat c < 128\<close> show ?thesis by (simp add: word_less_nat_alt word_le_nat_alt)
  qed
  then show ?case using 2 small by (auto split: if_splits list.splits)
qed simp

text \<open>
  C40: Reading a key skips not-ready polls and release codes and returns the first key press the
  controller delivers, one byte or the prefix 0xE0 and one byte; the code is a position of the
  character table or a prefixed code, so that \<open>io_is_character\<close>, which indexes a table of 128 entries
  with codes up to 255, never reads behind the table.
\<close>
theorem io_keyboard_read_correct:
  "map_option (map_prod id delivered) (io_keyboard_read k) = first_press (delivered k) \<and>
   (\<forall>code rest behind behind'. io_keyboard_read k = Some (code, rest) \<longrightarrow>
      (code < 128 \<or> 0xE000 \<le> code \<and> code < 0xE080) \<and>
      io_is_character behind code = io_is_character behind' code)"
proof -
  have "(code < 128 \<or> 0xE000 \<le> code \<and> code < 0xE080) \<and>
      io_is_character behind code = io_is_character behind' code"
    if "io_keyboard_read k = Some (code, rest)" for code rest behind behind'
  proof -
    have c: "code < 128 \<or> (0xE000 \<le> code \<and> code < 0xE080)"
      using io_keyboard_read_eq [of k] that by (intro first_press_range [of "delivered k" code "delivered rest"]) simp
    then have "unat code < 128 \<or> 256 \<le> code" by (auto simp: word_less_nat_alt word_le_nat_alt)
    then have "io_is_character behind code = io_is_character behind' code"
      by (auto simp: io_is_character_def table_at_def)
    with c show ?thesis by blast
  qed
  then show ?thesis using io_keyboard_read_eq by blast
qed

theorem io_keyboard_read_correct_witness:
  "(\<exists>rest. io_keyboard_read [None, Some 0x9E, Some 0xE0, Some 0x48] = Some (0xE048, rest) \<and> delivered rest = []) \<and>
   \<not> io_is_character (\<lambda>_. 65) 0xE048"
proof -
  have "map_option (map_prod id delivered) (io_keyboard_read [None, Some 0x9E, Some 0xE0, Some 0x48]) =
      Some (0xE048, [])"
    using io_keyboard_read_correct [of "[None, Some 0x9E, Some 0xE0, Some 0x48]"]
    by (simp add: SCAN_SPECIAL_PREFIX_def)
  then show ?thesis by (auto simp: io_is_character_def)
qed

end
