(* ===== verification/Interrupts.thy ===== *)
theory Interrupts
  imports Loader Keyboard
begin

unbundle bit_operations_syntax

text \<open>
  Interrupts and system calls, \<open>src/src/process/interrupts.c\<close>: the interrupt descriptor table, the
  interrupt controllers, and the three handlers the assembly stubs of \<open>src/src/main_asm.S\<close> call with
  the saved registers.

  The addresses of the stubs and of the table are parameters. Device registers mapped into memory
  are \<open>mmio\<close>, by physical address; a store to them goes through the page tables like any other. A
  call that faults on a user pointer halts the kernel; \<open>None\<close> is a call that does not return.
  A buffer of a user program is read or written at the end of the file system call that gets it.
\<close>

section \<open>State\<close>

record idt_entry_t =
  isr_low :: u16
  kernel_cs :: u16
  idt_ist :: u8
  attributes :: u8
  isr_mid :: u16
  isr_high :: u32
  idt_reserved :: u32

record stubs =
  isr :: "nat \<Rightarrow> u64"
  irq :: "nat \<Rightarrow> u64"
  syscall_handler_asm :: u64
  idt_address :: u64

text \<open>
  \<open>port_writes\<close> are the bytes sent to the interrupt controllers and the timer, and \<open>stack_word\<close> is
  what a local variable holds before it is assigned.
\<close>

record kernel = sched +
  idt :: "u8 \<Rightarrow> idt_entry_t"
  idtr :: "u16 \<times> u64"
  port_writes :: "(u16 \<times> u8) list"
  cr0 :: u64
  cr4 :: u64
  msr :: "u32 \<Rightarrow> u64"
  mmio :: "u64 \<Rightarrow> u32"
  ioapic :: "u8 \<Rightarrow> u32"
  keyboard :: controller
  io_keyboard_buffer :: u16
  stack_word :: u32

definition PIT_CHANNEL0 :: u16 where "PIT_CHANNEL0 = 0x40"
definition PIT_COMMAND :: u16 where "PIT_COMMAND = 0x43"
definition PIT_FREQ :: nat where "PIT_FREQ = 1193180"
definition PIT_HZ :: nat where "PIT_HZ = 100"
definition PIC1_COMMAND :: u16 where "PIC1_COMMAND = 0x20"
definition PIC1_DATA :: u16 where "PIC1_DATA = 0x21"
definition PIC2_COMMAND :: u16 where "PIC2_COMMAND = 0xA0"
definition PIC2_DATA :: u16 where "PIC2_DATA = 0xA1"
definition PIC_EOI :: u8 where "PIC_EOI = 0x20"
definition IA32_APIC_BASE_MSR :: u32 where "IA32_APIC_BASE_MSR = 0x1B"
definition IA32_APIC_BASE_MSR_ENABLE :: u64 where "IA32_APIC_BASE_MSR_ENABLE = 0x800"
definition LAPIC_BASE :: u64 where "LAPIC_BASE = 0xFEE00000"
definition LAPIC_SIVR :: u64 where "LAPIC_SIVR = 0xF0"
definition LAPIC_ENABLE_BIT :: u32 where "LAPIC_ENABLE_BIT = 0x100"
definition LAPIC_EOI :: u64 where "LAPIC_EOI = 0xB0"
definition IOAPIC_BASE :: u64 where "IOAPIC_BASE = 0xFEC00000"
definition IOAPIC_REGSEL :: u64 where "IOAPIC_REGSEL = 0"
definition IOAPIC_IOWIN :: u64 where "IOAPIC_IOWIN = 0x10"
definition IOAPIC_REDTBL_PIT_LOW :: u8 where "IOAPIC_REDTBL_PIT_LOW = 0x14"
definition IOAPIC_REDTBL_PIT_HIGH :: u8 where "IOAPIC_REDTBL_PIT_HIGH = 0x15"
definition KERNEL_MMIO_BASE :: u64 where "KERNEL_MMIO_BASE = 0xFFFFFFFFC0000000"
definition LAPIC_BASE_VIRT :: u64 where "LAPIC_BASE_VIRT = KERNEL_MMIO_BASE + 0x000000"
definition IOAPIC_BASE_VIRT :: u64 where "IOAPIC_BASE_VIRT = KERNEL_MMIO_BASE + 0x001000"

section \<open>The descriptor table\<close>

definition idt_set_descriptor :: "u8 \<Rightarrow> u64 \<Rightarrow> u8 \<Rightarrow> 'a kernel_scheme \<Rightarrow> 'a kernel_scheme" where
  "idt_set_descriptor vector addr flags s =
     s\<lparr>idt := (idt s)(vector :=
       \<lparr>isr_low = ucast (addr AND 0xFFFF), kernel_cs = 0x08, idt_ist = 0, attributes = flags,
        isr_mid = ucast (drop_bit 16 addr AND 0xFFFF), isr_high = ucast (drop_bit 32 addr AND 0xFFFFFFFF),
        idt_reserved = 0\<rparr>)\<rparr>"

definition lidt :: "u64 \<Rightarrow> u16 \<Rightarrow> 'a kernel_scheme \<Rightarrow> 'a kernel_scheme" where
  "lidt base sz s = s\<lparr>idtr := (sz, base)\<rparr>"

section \<open>The interrupt controllers and the timer\<close>

definition outb :: "u16 \<Rightarrow> u8 \<Rightarrow> 'a kernel_scheme \<Rightarrow> 'a kernel_scheme" where
  "outb port v s = s\<lparr>port_writes := port_writes s @ [(port, v)]\<rparr>"

definition configure_PIC :: "'a kernel_scheme \<Rightarrow> 'a kernel_scheme" where
  "configure_PIC s =
     (let s1 = outb 0xA0 0x11 (outb 0x20 0x11 s);
          s2 = outb 0xA1 0x28 (outb 0x21 0x20 s1);
          s3 = outb 0xA1 0x02 (outb 0x21 0x04 s2);
          s4 = outb 0xA1 0x01 (outb 0x21 0x01 s3);
          master_mask = (0xFF AND NOT 1) AND NOT 4;
          slave_mask = 0xFF
      in con_line ''[interrupts] remapped PIC'' (outb 0xA1 slave_mask (outb 0x21 master_mask s4)))"

definition read_msr :: "u32 \<Rightarrow> 'a kernel_scheme \<Rightarrow> u64" where
  "read_msr r s = msr s r"

definition write_msr :: "u32 \<Rightarrow> u64 \<Rightarrow> 'a kernel_scheme \<Rightarrow> 'a kernel_scheme" where
  "write_msr r v s = s\<lparr>msr := (msr s)(r := v)\<rparr>"

text \<open>A 32-bit access to a device register; the window of the I/O APIC stands for the selected register.\<close>

definition mmio_read :: "u64 \<Rightarrow> 'a kernel_scheme \<Rightarrow> u32 option" where
  "mmio_read virt s =
     map_option (\<lambda>e. mmio s (push_bit 12 (physical_addr e) + (virt AND 0xFFF))) (cpu_entry virt s)"

definition mmio_write :: "u64 \<Rightarrow> u32 \<Rightarrow> 'a kernel_scheme \<Rightarrow> (unit, 'a kernel_scheme) outcome" where
  "mmio_write virt v s =
     (case cpu_entry virt s of
        None \<Rightarrow> Halted s
      | Some e \<Rightarrow>
          (let phys = push_bit 12 (physical_addr e) + (virt AND 0xFFF) in
           if \<not> bit e 1 then Halted s
           else if phys = IOAPIC_BASE + IOAPIC_IOWIN
             then Ok () (s\<lparr>ioapic := (ioapic s)(ucast (mmio s (IOAPIC_BASE + IOAPIC_REGSEL)) := v)\<rparr>)
           else Ok () (s\<lparr>mmio := (mmio s)(phys := v)\<rparr>)))"

definition ioapic_write :: "u8 \<Rightarrow> u32 \<Rightarrow> 'a kernel_scheme \<Rightarrow> (unit, 'a kernel_scheme) outcome" where
  "ioapic_write reg v s =
     bind_outcome (mmio_write (IOAPIC_BASE_VIRT + IOAPIC_REGSEL) (ucast reg) s) (\<lambda>_ s1.
       mmio_write (IOAPIC_BASE_VIRT + IOAPIC_IOWIN) v s1)"

definition configure_APIC :: "'a kernel_scheme \<Rightarrow> (unit, 'a kernel_scheme) outcome" where
  "configure_APIC s =
     (let s1 = outb PIC2_DATA 0xFF (outb PIC1_DATA 0xFF s);
          apic_base_msr = read_msr IA32_APIC_BASE_MSR s1 OR IA32_APIC_BASE_MSR_ENABLE;
          s2 = write_msr IA32_APIC_BASE_MSR apic_base_msr s1
      in case mmio_read (LAPIC_BASE_VIRT + LAPIC_SIVR) s2 of
           None \<Rightarrow> Halted s2
         | Some sivr \<Rightarrow>
             bind_outcome (mmio_write (LAPIC_BASE_VIRT + LAPIC_SIVR) (sivr OR LAPIC_ENABLE_BIT OR 0xFF) s2) (\<lambda>_ s3.
               bind_outcome (ioapic_write IOAPIC_REDTBL_PIT_HIGH 0 s3) (\<lambda>_ s4.
                 ioapic_write IOAPIC_REDTBL_PIT_LOW (0x20 AND 0xFF) s4)))"

definition configure_PIT :: "'a kernel_scheme \<Rightarrow> 'a kernel_scheme" where
  "configure_PIT s =
     (let divisor = word_of_nat (PIT_FREQ div PIT_HZ) :: u16 in
      outb PIT_CHANNEL0 (ucast (drop_bit 8 divisor AND 0xFF))
        (outb PIT_CHANNEL0 (ucast (divisor AND 0xFF)) (outb PIT_COMMAND 0x36 s)))"

section \<open>Initialisation\<close>

definition set_default :: "stubs \<Rightarrow> 'a kernel_scheme \<Rightarrow> 'a kernel_scheme" where
  "set_default st s = fold (\<lambda>i s. idt_set_descriptor (word_of_nat i) (isr st 0) 0x8E s) [0..<256] s"

definition set_exceptions :: "stubs \<Rightarrow> 'a kernel_scheme \<Rightarrow> 'a kernel_scheme" where
  "set_exceptions st s = fold (\<lambda>i s. idt_set_descriptor (word_of_nat i) (isr st i) 0x8E s) [0..<32] s"

definition set_irqs :: "stubs \<Rightarrow> 'a kernel_scheme \<Rightarrow> 'a kernel_scheme" where
  "set_irqs st s = fold (\<lambda>i s. idt_set_descriptor (word_of_nat (32 + i)) (irq st i) 0x8E s) [0..<16] s"

definition interrupts_init :: "stubs \<Rightarrow> 'a kernel_scheme \<Rightarrow> (unit, 'a kernel_scheme) outcome" where
  "interrupts_init st s =
     (let s1 = snd (vmm_map_page LAPIC_BASE_VIRT LAPIC_BASE VMM_FLAGS_MMIO s);
          s2 = snd (vmm_map_page IOAPIC_BASE_VIRT IOAPIC_BASE VMM_FLAGS_MMIO s1)
      in bind_outcome (configure_APIC s2) (\<lambda>_ s3.
        let s4 = con_line ''[interrupts] configured PIT''
                   (configure_PIT (con_line ''[interrupts] configured APIC'' s3));
            s5 = con_line ''[interrupts] configured IDT exceptions'' (set_exceptions st (set_default st s4));
            s6 = con_line ''[interrupts] configured IDT IRQs'' (set_irqs st s5);
            s7 = con_line ''[interrupts] configured IDT syscall''
                   (idt_set_descriptor 0x80 (syscall_handler_asm st) 0xEE s6);
            s8 = con_line ''[interrupts] loaded IDT'' (lidt (idt_address st) (256 * 16 - 1) s7);
            s9 = con_line ''[interrupts] enabled interrupts'' (s8\<lparr>interrupt_flag := True\<rparr>)
        in Ok () (con_line ''[interrupts] interrupts init'' s9)))"

section \<open>Handlers\<close>

definition send_eoi_PIC :: "u32 \<Rightarrow> 'a kernel_scheme \<Rightarrow> 'a kernel_scheme" where
  "send_eoi_PIC irq_number s =
     outb PIC1_COMMAND PIC_EOI (if irq_number \<ge> 8 then outb PIC2_COMMAND PIC_EOI s else s)"

definition send_eoi_APIC :: "'a kernel_scheme \<Rightarrow> (unit, 'a kernel_scheme) outcome" where
  "send_eoi_APIC s = mmio_write (LAPIC_BASE_VIRT + LAPIC_EOI) 0 s"

text \<open>The buffer of the two messages has \<open>sizeof(char*[16]) = 128\<close> bytes.\<close>

definition exception_handler_c :: "u32 \<Rightarrow> cpu_state_t \<Rightarrow> 'a kernel_scheme \<Rightarrow> (unit, 'a kernel_scheme) outcome" where
  "exception_handler_c int_no rs s =
     (let s1 = con_line '''' (con_print (the (num_to_str_no_malloc (ucast int_no) 128)) (con_print (str ''CPU exception: '') s));
          s2 = con_line '''' (con_print (the (num_to_str_no_malloc (error_code rs) 128)) (con_print (str ''Error code: '') s1))
      in panic (str ''exception_handler_c'') s2)"

definition irq_handler_c ::
    "u32 \<Rightarrow> cpu_state_t \<Rightarrow> 'a kernel_scheme \<Rightarrow> (cpu_state_t, 'a kernel_scheme) outcome option" where
  "irq_handler_c int_no rs s =
     (if int_no < 32 \<or> int_no > 47 then Some (Ok rs s)
      else and_then (if int_no - 32 = 0 then process_scheduler_next_process rs s else Some (Ok rs s)) (\<lambda>rs' s1.
        and_then (Some (send_eoi_APIC s1)) (\<lambda>_ s2. Some (Ok rs' s2))))"

end
