(* ===== verification/Syscalls.thy ===== *)
theory Syscalls
  imports Interrupts
begin

unbundle bit_operations_syntax

text \<open>
  The system call handler of \<open>src/src/process/interrupts.c\<close>. The stub passes the registers
  \<open>rax\<close>, \<open>rbx\<close>, \<open>rcx\<close> and \<open>rdx\<close> as the number of the call and its three arguments, and the saved
  registers. Pointers of the user program are dereferenced through the page tables of the process;
  the handler does not check them.
\<close>

section \<open>User memory\<close>

text \<open>
  A string is read up to its terminator, at most \<open>n\<close> bytes of it: the file system's \<open>strlen\<close> gives
  up after 1002 bytes, so that it sees no more of a path.
\<close>

fun load_cstr :: "nat \<Rightarrow> u64 \<Rightarrow> 'a vmm_scheme \<Rightarrow> cstr option" where
  "load_cstr 0 virt s = Some []"
| "load_cstr (Suc n) virt s =
     Option.bind (load_byte virt s) (\<lambda>b. if b = 0 then Some [] else map_option ((#) b) (load_cstr n (virt + 1) s))"

definition load_path :: "u64 \<Rightarrow> 'a vmm_scheme \<Rightarrow> cstr option option" where
  "load_path virt s = (if virt = 0 then Some None else map_option Some (load_cstr 1002 virt s))"

partial_function (option) load_str :: "u64 \<Rightarrow> 'a vmm_scheme \<Rightarrow> cstr option" where
  "load_str virt s =
     Option.bind (load_byte virt s) (\<lambda>b. if b = 0 then Some []
       else Option.bind (load_str (virt + 1) s) (\<lambda>bs. Some (b # bs)))"

text \<open>The bytes of a buffer, those that are not mapped as zero.\<close>

definition peek_bytes :: "u64 \<Rightarrow> nat \<Rightarrow> 'a vmm_scheme \<Rightarrow> u8 list" where
  "peek_bytes virt n s = map (\<lambda>i. case load_byte (virt + word_of_nat i) s of None \<Rightarrow> 0 | Some b \<Rightarrow> b) [0..<n]"

definition metadata_bytes :: "file_metadata_t \<Rightarrow> u8 list" where
  "metadata_bytes m = le64_bytes (msize m) @ le32_bytes (mtype m) @ mname m"

definition sizeof_metadata :: nat where "sizeof_metadata = 72"

definition store_user :: "u64 \<Rightarrow> u8 list \<Rightarrow> 'a kernel_scheme \<Rightarrow> (unit, 'a kernel_scheme) outcome option" where
  "store_user virt bs s = Some (store_bytes virt bs s)"

text \<open>Runs a file system operation whose only result is success or failure.\<close>

definition fs_call ::
    "(bool \<times> 'a kernel_scheme) option \<Rightarrow> (bool, 'a kernel_scheme) outcome option" where
  "fs_call r = map_option (\<lambda>(ok, s). Ok ok s) r"

definition with_path ::
    "u64 \<Rightarrow> 'a kernel_scheme \<Rightarrow> (cstr option \<Rightarrow> (bool, 'a kernel_scheme) outcome option) \<Rightarrow>
     (bool, 'a kernel_scheme) outcome option" where
  "with_path arg s f = (case load_path arg s of None \<Rightarrow> Some (Halted s) | Some path \<Rightarrow> f path)"

section \<open>The calls\<close>

definition sys_exit :: "cpu_state_t \<Rightarrow> 'a kernel_scheme \<Rightarrow> (cpu_state_t, 'a kernel_scheme) outcome option" where
  "sys_exit rs s =
     process_scheduler_exit rs (vmm_load_cpu (vmm_set_PML4 (process_scheduler_get_kernel_PML4 s) s))"

text \<open>The file buffer on the heap, and what lies behind it.\<close>

definition file_of :: "u8 list \<Rightarrow> (nat \<Rightarrow> u8) \<Rightarrow> u64 \<Rightarrow> u8" where
  "file_of buf behind off = (if unat off < length buf then buf ! unat off else behind (unat off))"

text \<open>
  Lines 375 to 385: the pair is \<open>success\<close> and \<open>pid\<close>. When the file cannot be read the flag keeps the
  result of \<open>filesystem_read_file_metadata\<close>.
\<close>

definition run_file :: "cstr \<Rightarrow> 'a kernel_scheme \<Rightarrow> (bool \<times> u32, 'a kernel_scheme) outcome option" where
  "run_file path s =
     Option.bind (filesystem_read_file_metadata (Some path) (zero_metadata\<lparr>mname := map (junk s (mallocs s)) [0..<60]\<rparr>) s)
       (\<lambda>((success, metadata), s1).
          if \<not> success then Some (Ok (False, stack_word s1) s1)
          else
            (let behind = junk s1 (mallocs s1) in
             case fs_malloc (unat (msize metadata)) s1 of (buf, s2) \<Rightarrow>
               Option.bind (filesystem_read_file (Some path) buf s2) (\<lambda>((ok, data1), s3).
                 if \<not> ok then Some (Ok (True, stack_word s3) s3)
                 else and_then (program_loader_load_elf64 (file_of data1 behind) s3) (\<lambda>r s4.
                   Some (Ok (case r of None \<Rightarrow> (False, stack_word s4) | Some new_pid \<Rightarrow> (True, new_pid)) s4)))))"

text \<open>
  The path is copied to the kernel heap; when \<open>strlen\<close> returns -1 the copy runs off the heap and
  faults.
\<close>

definition sys_run :: "u64 \<Rightarrow> u64 \<Rightarrow> 'a kernel_scheme \<Rightarrow> (bool, 'a kernel_scheme) outcome option" where
  "sys_run arg1 arg2 s =
     (case load_cstr 1002 arg1 s of
        None \<Rightarrow> Some (Halted s)
      | Some path \<Rightarrow>
          if strlen path < 0 then Some (Halted s)
          else and_then (malloc_kernel (word_of_int (strlen path) + 1) s) (\<lambda>p s0.
            if p = 0 then Some (Halted s0)
            else and_then (run_file path (vmm_load_cpu (vmm_set_PML4 (process_scheduler_get_kernel_PML4 s0) s0)))
              (\<lambda>(success, new_pid) s1. and_then (free_kernel p s1) (\<lambda>_ s2.
                let s3 = vmm_load_cpu (vmm_set_PML4 (process_scheduler_get_current_PML4 s2) s2)
                in if success then and_then (store_user arg2 (le32_bytes new_pid) s3) (\<lambda>_ s4. Some (Ok True s4))
                   else Some (Ok False s3)))))"

definition sys_close :: "u64 \<Rightarrow> 'a kernel_scheme \<Rightarrow> (bool, 'a kernel_scheme) outcome option" where
  "sys_close arg1 s = map_option (Ok True) (process_scheduler_send_signals (ucast arg1) SIG_KILL s)"

definition sys_malloc :: "u64 \<Rightarrow> u64 \<Rightarrow> 'a kernel_scheme \<Rightarrow> (bool, 'a kernel_scheme) outcome option" where
  "sys_malloc arg1 arg2 s =
     and_then (malloc arg1 s) (\<lambda>p s1. and_then (store_user arg2 (le64_bytes p) s1) (\<lambda>_ s2. Some (Ok True s2)))"

definition sys_free :: "u64 \<Rightarrow> 'a kernel_scheme \<Rightarrow> (bool, 'a kernel_scheme) outcome option" where
  "sys_free arg1 s = and_then (free arg1 s) (\<lambda>_ s1. Some (Ok True s1))"

definition sys_key :: "u64 \<Rightarrow> 'a kernel_scheme \<Rightarrow> (bool, 'a kernel_scheme) outcome option" where
  "sys_key arg1 s =
     and_then (store_user arg1 (le16_bytes (io_keyboard_buffer s)) s) (\<lambda>_ s1. Some (Ok True (s1\<lparr>io_keyboard_buffer := 0\<rparr>)))"

definition sys_print :: "u64 \<Rightarrow> 'a kernel_scheme \<Rightarrow> (bool, 'a kernel_scheme) outcome option" where
  "sys_print arg1 s = (case load_str arg1 s of None \<Rightarrow> Some (Halted s) | Some m \<Rightarrow> Some (Ok True (con_print m s)))"

definition sys_clear :: "'a kernel_scheme \<Rightarrow> (bool, 'a kernel_scheme) outcome option" where
  "sys_clear s = Some (Ok True (s\<lparr>con := con s @ [Screen_clear]\<rparr>))"

text \<open>The part of the user's buffer that reading the file can write has the size of the file.\<close>

definition file_length :: "cstr option \<Rightarrow> 'a kernel_scheme \<Rightarrow> nat" where
  "file_length path s =
     (case filesystem_read_file_metadata path zero_metadata s of
        Some ((True, m), _) \<Rightarrow> unat (msize m) | _ \<Rightarrow> 0)"

definition sys_read :: "u64 \<Rightarrow> u64 \<Rightarrow> 'a kernel_scheme \<Rightarrow> (bool, 'a kernel_scheme) outcome option" where
  "sys_read arg1 arg2 s = with_path arg1 s (\<lambda>path.
     Option.bind (filesystem_read_file path (peek_bytes arg2 (file_length path s) s) s) (\<lambda>((ok, out), s1).
       if \<not> ok then Some (Ok False s1)
       else and_then (store_user arg2 out s1) (\<lambda>_ s2. Some (Ok True s2))))"

definition sys_metadata :: "u64 \<Rightarrow> u64 \<Rightarrow> 'a kernel_scheme \<Rightarrow> (bool, 'a kernel_scheme) outcome option" where
  "sys_metadata arg1 arg2 s = with_path arg1 s (\<lambda>path.
     Option.bind (filesystem_read_file_metadata path (zero_metadata\<lparr>mname := peek_bytes (arg2 + 12) 60 s\<rparr>) s)
       (\<lambda>((ok, m), s1).
          if \<not> ok then Some (Ok False s1)
          else and_then (store_user arg2 (metadata_bytes m) s1) (\<lambda>_ s2. Some (Ok True s2))))"

definition sys_exists :: "u64 \<Rightarrow> u64 \<Rightarrow> 'a kernel_scheme \<Rightarrow> (bool, 'a kernel_scheme) outcome option" where
  "sys_exists arg1 arg2 s = with_path arg1 s (\<lambda>path.
     Option.bind (filesystem_file_exists path s) (\<lambda>(there, s1).
       and_then (store_user arg2 [if there then 1 else 0] s1) (\<lambda>_ s2. Some (Ok True s2))))"

definition sys_write :: "u64 \<Rightarrow> u64 \<Rightarrow> u64 \<Rightarrow> 'a kernel_scheme \<Rightarrow> (bool, 'a kernel_scheme) outcome option" where
  "sys_write arg1 arg2 arg3 s = with_path arg1 s (\<lambda>path.
     and_then (fs_call (filesystem_write_file path (peek_bytes arg2 (unat arg3) s) FILE arg3 s)) (\<lambda>ok s1.
       if ok \<and> load_bytes arg2 (unat arg3) s = None then Some (Halted s1) else Some (Ok ok s1)))"

definition sys_delete :: "u64 \<Rightarrow> 'a kernel_scheme \<Rightarrow> (bool, 'a kernel_scheme) outcome option" where
  "sys_delete arg1 s = with_path arg1 s (\<lambda>path. fs_call (filesystem_delete_file path s))"

definition sys_mkdir :: "u64 \<Rightarrow> 'a kernel_scheme \<Rightarrow> (bool, 'a kernel_scheme) outcome option" where
  "sys_mkdir arg1 s = with_path arg1 s (\<lambda>path. fs_call (filesystem_create_directory path s))"

definition sys_rmdir :: "u64 \<Rightarrow> 'a kernel_scheme \<Rightarrow> (bool, 'a kernel_scheme) outcome option" where
  "sys_rmdir arg1 s = with_path arg1 s (\<lambda>path. fs_call (filesystem_delete_directory path s))"

definition sys_move :: "u64 \<Rightarrow> u64 \<Rightarrow> 'a kernel_scheme \<Rightarrow> (bool, 'a kernel_scheme) outcome option" where
  "sys_move arg1 arg2 s = with_path arg1 s (\<lambda>path. with_path arg2 s (\<lambda>new_path.
     fs_call (filesystem_move_file path new_path s)))"

text \<open>
  The listing is an array on the heap of the process: its address comes from \<open>malloc\<close>. A null result
  leaves \<open>*file_count\<close> as it was.
\<close>

definition sys_list :: "u64 \<Rightarrow> u64 \<Rightarrow> u64 \<Rightarrow> 'a kernel_scheme \<Rightarrow> (bool, 'a kernel_scheme) outcome option" where
  "sys_list arg1 arg2 arg3 s = with_path arg1 s (\<lambda>path.
     Option.bind (filesystem_list_dir path s) (\<lambda>(r, s1).
       case r of
         None \<Rightarrow> and_then (store_user arg2 (le64_bytes 0) s1) (\<lambda>_ s2. Some (Ok True s2))
       | Some files \<Rightarrow>
           and_then (malloc (word_of_nat (length files * sizeof_metadata)) s1) (\<lambda>p s2.
             and_then (store_user p (concat (map metadata_bytes files)) s2) (\<lambda>_ s3.
               and_then (store_user arg3 (le64_bytes (word_of_nat (length files))) s3) (\<lambda>_ s4.
                 and_then (store_user arg2 (le64_bytes p) s4) (\<lambda>_ s5. Some (Ok True s5)))))))"

section \<open>Dispatch\<close>

definition syscall_result ::
    "cpu_state_t \<Rightarrow> (bool, 'a kernel_scheme) outcome option \<Rightarrow> (cpu_state_t, 'a kernel_scheme) outcome option" where
  "syscall_result rs r =
     and_then r (\<lambda>success s. Some (Ok (rs\<lparr>rax := if success then 1 else 0\<rparr>) s))"

definition syscall_handler_c ::
    "u64 \<Rightarrow> u64 \<Rightarrow> u64 \<Rightarrow> u64 \<Rightarrow> cpu_state_t \<Rightarrow> 'a kernel_scheme \<Rightarrow>
     (cpu_state_t, 'a kernel_scheme) outcome option" where
  "syscall_handler_c syscall_id arg1 arg2 arg3 rs s =
     (if syscall_id = 0 then and_then (sys_exit rs s) (\<lambda>rs' s1. Some (Ok (rs'\<lparr>rax := 1\<rparr>) s1))
      else syscall_result rs
        (if syscall_id = 1 then sys_run arg1 arg2 s
         else if syscall_id = 2 then sys_close arg1 s
         else if syscall_id = 10 then sys_malloc arg1 arg2 s
         else if syscall_id = 11 then sys_free arg1 s
         else if syscall_id = 20 then sys_key arg1 s
         else if syscall_id = 30 then sys_print arg1 s
         else if syscall_id = 31 then sys_clear s
         else if syscall_id = 40 then sys_read arg1 arg2 s
         else if syscall_id = 41 then sys_metadata arg1 arg2 s
         else if syscall_id = 42 then sys_exists arg1 arg2 s
         else if syscall_id = 43 then sys_write arg1 arg2 arg3 s
         else if syscall_id = 44 then sys_delete arg1 s
         else if syscall_id = 45 then sys_mkdir arg1 s
         else if syscall_id = 46 then sys_rmdir arg1 s
         else if syscall_id = 47 then sys_move arg1 arg2 s
         else if syscall_id = 48 then sys_list arg1 arg2 arg3 s
         else Some (Ok True s)))"

text \<open>The stub: the arguments are the saved registers of the caller.\<close>

definition syscall_stub :: "cpu_state_t \<Rightarrow> 'a kernel_scheme \<Rightarrow> (cpu_state_t, 'a kernel_scheme) outcome option" where
  "syscall_stub rs s = syscall_handler_c (rax rs) (rbx rs) (rcx rs) (rdx rs) rs s"

end
