(* ===== verification/Screen.thy ===== *)
theory Screen
  imports Util
begin

unbundle bit_operations_syntax

text \<open>
  The screen driver of \<open>src/src/screen.c\<close>: a text buffer that \<open>screen_print\<close> appends to, and the
  rendering of the buffer, with a bitmap font in one of the two PSF formats, into the frame buffer
  the boot loader provides.

  \<open>mem\<close> is the memory the font is read from, \<open>vram\<close> the bytes of the frame buffer by their offset
  from \<open>fb->address\<close>, and \<open>buffer\<close> the memory from the address of the text buffer on. Without a font
  the character sizes are zero and the first division traps; a trap and a loop that does not end
  are both the value \<open>None\<close>. A shift by more than the width of an \<open>int\<close> (fonts wider than eight
  pixels) takes the amount modulo 32, as the processor does.
\<close>

section \<open>State\<close>

record limine_framebuffer =
  fb_width :: u64
  fb_height :: u64
  fb_pitch :: u64
  red_mask_shift :: u8
  green_mask_shift :: u8
  blue_mask_shift :: u8

record screen =
  mem :: "u64 \<Rightarrow> u8"
  vram :: "u64 \<Rightarrow> u8"
  fb :: limine_framebuffer
  current_font :: u64
  is_current_font_psf2 :: bool
  screen_init_done :: bool
  cursor_x :: u32
  cursor_y :: u32
  buffer :: "u64 \<Rightarrow> u8"
  scroll :: u64
  buffer_end :: u64

definition BUFFER_SIZE :: u64 where "BUFFER_SIZE = 0x4000"

definition mem16 :: "screen \<Rightarrow> u64 \<Rightarrow> u16" where
  "mem16 s a = ucast (mem s a) OR push_bit 8 (ucast (mem s (a + 1)))"

definition mem32 :: "screen \<Rightarrow> u64 \<Rightarrow> u32" where
  "mem32 s a = ucast (mem16 s a) OR push_bit 16 (ucast (mem16 s (a + 2)))"

text \<open>The headers of the two font formats.\<close>

definition PSF1_magic :: "screen \<Rightarrow> u64 \<Rightarrow> u16" where "PSF1_magic s f = mem16 s f"
definition PSF1_charsize :: "screen \<Rightarrow> u64 \<Rightarrow> u8" where "PSF1_charsize s f = mem s (f + 3)"
definition sizeof_PSF1_header :: u64 where "sizeof_PSF1_header = 4"

definition PSF2_magic :: "screen \<Rightarrow> u64 \<Rightarrow> u32" where "PSF2_magic s f = mem32 s f"
definition PSF2_header_size :: "screen \<Rightarrow> u64 \<Rightarrow> u32" where "PSF2_header_size s f = mem32 s (f + 8)"
definition PSF2_bytes_per_glyph :: "screen \<Rightarrow> u64 \<Rightarrow> u32" where "PSF2_bytes_per_glyph s f = mem32 s (f + 20)"
definition PSF2_height :: "screen \<Rightarrow> u64 \<Rightarrow> u32" where "PSF2_height s f = mem32 s (f + 24)"
definition PSF2_width :: "screen \<Rightarrow> u64 \<Rightarrow> u32" where "PSF2_width s f = mem32 s (f + 28)"

section \<open>Pixels\<close>

definition screen_is_init :: "screen \<Rightarrow> bool" where
  "screen_is_init s = screen_init_done s"

definition put_u32 :: "u64 \<Rightarrow> u32 \<Rightarrow> (u64 \<Rightarrow> u8) \<Rightarrow> u64 \<Rightarrow> u8" where
  "put_u32 off v m = m(off := ucast v, off + 1 := ucast (drop_bit 8 v), off + 2 := ucast (drop_bit 16 v),
     off + 3 := ucast (drop_bit 24 v))"

definition screen_put_pixel :: "u32 \<Rightarrow> u32 \<Rightarrow> u32 \<Rightarrow> screen \<Rightarrow> screen" where
  "screen_put_pixel x y color s =
     (if ucast x \<ge> fb_width (fb s) \<or> ucast y \<ge> fb_height (fb s) then s
      else s\<lparr>vram := put_u32 (ucast y * fb_pitch (fb s) + 4 * ucast x) color (vram s)\<rparr>)"

definition screen_make_color :: "u8 \<Rightarrow> u8 \<Rightarrow> u8 \<Rightarrow> screen \<Rightarrow> u32" where
  "screen_make_color r g b s =
     push_bit (unat (red_mask_shift (fb s))) (ucast r) OR push_bit (unat (green_mask_shift (fb s))) (ucast g) OR
     push_bit (unat (blue_mask_shift (fb s))) (ucast b)"

definition screen_get_width :: "screen \<Rightarrow> u64" where
  "screen_get_width s = fb_width (fb s)"

definition screen_get_height :: "screen \<Rightarrow> u64" where
  "screen_get_height s = fb_height (fb s)"

section \<open>Fonts\<close>

definition screen_load_font :: "u64 \<Rightarrow> screen \<Rightarrow> screen" where
  "screen_load_font font s =
     (let s1 = s\<lparr>is_current_font_psf2 := False\<rparr> in
      if PSF2_magic s1 font = 0x864ab572 then s1\<lparr>current_font := font, is_current_font_psf2 := True\<rparr>
      else if PSF1_magic s1 font = 0x0436 then s1\<lparr>current_font := font\<rparr>
      else s1\<lparr>current_font := 0\<rparr>)"

definition screen_get_font_char_width :: "screen \<Rightarrow> u32" where
  "screen_get_font_char_width s =
     (if current_font s = 0 then 0
      else if is_current_font_psf2 s then PSF2_width s (current_font s)
      else 8)"

definition screen_get_font_char_height :: "screen \<Rightarrow> u32" where
  "screen_get_font_char_height s =
     (if current_font s = 0 then 0
      else if is_current_font_psf2 s then PSF2_height s (current_font s)
      else ucast (PSF1_charsize s (current_font s)))"

text \<open>A division, which traps when the divisor is zero.\<close>

definition div_trap :: "u64 \<Rightarrow> u32 \<Rightarrow> u64 option" where
  "div_trap a b = (if b = 0 then None else Some (a div ucast b))"

definition columns :: "screen \<Rightarrow> u64 option" where
  "columns s = div_trap (fb_width (fb s)) (screen_get_font_char_width s)"

definition rows :: "screen \<Rightarrow> u64 option" where
  "rows s = div_trap (fb_height (fb s)) (screen_get_font_char_height s)"

definition glyph_color :: "u8 \<Rightarrow> u32 \<Rightarrow> u32 \<Rightarrow> u32 \<Rightarrow> u32" where
  "glyph_color byte col fg_color bg_color =
     (if drop_bit (unat ((7 - col) AND 31)) (ucast byte :: u32) AND 1 \<noteq> 0 then fg_color else bg_color)"

definition draw_psf2 :: "u8 \<Rightarrow> u32 \<Rightarrow> u32 \<Rightarrow> u32 \<Rightarrow> u32 \<Rightarrow> screen \<Rightarrow> screen" where
  "draw_psf2 c x y fg_color bg_color s =
     (let f = current_font s; w = PSF2_width s f; h = PSF2_height s f;
          glyph = f + ucast (PSF2_header_size s f) + ucast (scast c * PSF2_bytes_per_glyph s f);
          x0 = x * w; y0 = y * h
      in fold (\<lambda>row s. fold (\<lambda>col s.
             screen_put_pixel (x0 + word_of_nat col) (y0 + word_of_nat row)
               (glyph_color (mem s (glyph + ucast (word_of_nat row * ((w + 7) div 8)))) (word_of_nat col)
                 fg_color bg_color) s)
           [0..<unat w] s) [0..<unat h] s)"

definition draw_psf1 :: "u8 \<Rightarrow> u32 \<Rightarrow> u32 \<Rightarrow> u32 \<Rightarrow> u32 \<Rightarrow> screen \<Rightarrow> screen" where
  "draw_psf1 c x y fg_color bg_color s =
     (let f = current_font s; h = PSF1_charsize s f;
          glyph = f + sizeof_PSF1_header + scast c * ucast h;
          x0 = x * 8; y0 = y * ucast h
      in fold (\<lambda>row s. fold (\<lambda>col s.
             screen_put_pixel (x0 + word_of_nat col) (y0 + word_of_nat row)
               (glyph_color (mem s (glyph + word_of_nat row)) (word_of_nat col) fg_color bg_color) s)
           [0..<8] s) [0..<unat h] s)"

definition screen_put_char :: "u8 \<Rightarrow> u32 \<Rightarrow> u32 \<Rightarrow> u32 \<Rightarrow> u32 \<Rightarrow> screen \<Rightarrow> screen option" where
  "screen_put_char c x y fg_color bg_color s =
     (if current_font s = 0 then Some s
      else Option.bind (columns s) (\<lambda>width. Option.bind (rows s) (\<lambda>height.
        if ucast x \<ge> width \<or> ucast y \<ge> height then Some s
        else if is_current_font_psf2 s then Some (draw_psf2 c x y fg_color bg_color s)
        else Some (draw_psf1 c x y fg_color bg_color s))))"

section \<open>Rendering\<close>

text \<open>White on black, as every call of \<open>screen_flush\<close> has it.\<close>

definition flush_char :: "u8 \<Rightarrow> screen \<Rightarrow> screen option" where
  "flush_char c s =
     screen_put_char c (cursor_x s) (cursor_y s) (screen_make_color 255 255 255 s) (screen_make_color 0 0 0 s) s"

text \<open>An \<open>int\<close> compared with, or added to, a \<open>uint64_t\<close> is sign-extended first.\<close>

partial_function (option) line_end :: "u64 \<Rightarrow> screen \<Rightarrow> screen option" where
  "line_end width s =
     (if buffer s (scast (cursor_x s) + scast (cursor_y s) * width) \<noteq> 0
      then line_end width (s\<lparr>cursor_x := cursor_x s + 1\<rparr>) else Some s)"

definition screen_norm_cursor :: "screen \<Rightarrow> screen option" where
  "screen_norm_cursor s =
     Option.bind (columns s) (\<lambda>width. Option.bind (rows s) (\<lambda>height.
       Option.bind
         (if sint (cursor_x s) < 0
          then map_option (\<lambda>s. s\<lparr>cursor_x := cursor_x s - 1\<rparr>)
                 (line_end width (s\<lparr>cursor_y := cursor_y s - 1, cursor_x := 0\<rparr>))
          else Some s)
         (\<lambda>s. if scast (cursor_x s) \<ge> width then Some (s\<lparr>cursor_x := 0, cursor_y := cursor_y s + 1\<rparr>) else Some s)))"

text \<open>The position after the newline number \<open>n\<close>, if the text has that many.\<close>

fun scroll_start :: "(u64 \<Rightarrow> u8) \<Rightarrow> u64 \<Rightarrow> nat list \<Rightarrow> nat \<Rightarrow> u64 option" where
  "scroll_start buf n [] count = None"
| "scroll_start buf n (i # is) count =
     (if buf (word_of_nat i) = 10
      then (if word_of_nat (Suc count) \<ge> n then Some (word_of_nat i + 1) else scroll_start buf n is (Suc count))
      else scroll_start buf n is count)"

definition clear_pixels :: "screen \<Rightarrow> screen" where
  "clear_pixels s =
     fold (\<lambda>y s. fold (\<lambda>x s. screen_put_pixel (word_of_nat x) (word_of_nat y) (screen_make_color 0 0 0 s) s)
       [0..<unat (fb_width (fb s))] s) [0..<unat (fb_height (fb s))] s"

text \<open>Blanks to the end of the line.\<close>

partial_function (option) fill_line :: "u64 \<Rightarrow> screen \<Rightarrow> screen option" where
  "fill_line width s =
     (if scast (cursor_x s) < width
      then Option.bind (flush_char 32 s) (\<lambda>s. fill_line width (s\<lparr>cursor_x := cursor_x s + 1\<rparr>))
      else Some s)"

definition flush_step :: "u64 \<Rightarrow> u8 \<Rightarrow> screen \<Rightarrow> screen option" where
  "flush_step width c s =
     (if c = 0 then Option.bind (flush_char 32 s) (\<lambda>s. screen_norm_cursor (s\<lparr>cursor_x := cursor_x s + 1\<rparr>))
      else if c = 10 then
        map_option (\<lambda>s. s\<lparr>cursor_x := 0, cursor_y := cursor_y s + 1\<rparr>) (fill_line width s)
      else Option.bind (flush_char c s) (\<lambda>s. screen_norm_cursor (s\<lparr>cursor_x := cursor_x s + 1\<rparr>)))"

fun flush_loop :: "u64 \<Rightarrow> u64 \<Rightarrow> nat list \<Rightarrow> screen \<Rightarrow> screen option" where
  "flush_loop width height [] s = Some s"
| "flush_loop width height (i # is) s =
     (if scast (cursor_y s) \<ge> height then Some s
      else Option.bind (flush_step width (buffer s (word_of_nat i)) s) (flush_loop width height is))"

partial_function (option) blank_loop :: "u64 \<Rightarrow> screen \<Rightarrow> screen option" where
  "blank_loop height s =
     (if scast (cursor_y s) < height
      then Option.bind (flush_char 32 s) (\<lambda>s.
             Option.bind (screen_norm_cursor (s\<lparr>cursor_x := cursor_x s + 1\<rparr>)) (blank_loop height))
      else Some s)"

definition flush_from :: "u64 \<Rightarrow> u64 \<Rightarrow> u64 \<Rightarrow> screen \<Rightarrow> screen option" where
  "flush_from width height buffer_start s =
     (let s1 = s\<lparr>cursor_x := 0, cursor_y := 0\<rparr>;
          buffer_end_clamped =
            nat (trunc (min_double (real (unat (buffer_end s))) (real (unat (buffer_start + width * height)))))
      in Option.bind (flush_loop width height [unat buffer_start..<buffer_end_clamped] s1) (blank_loop height))"

definition screen_flush :: "screen \<Rightarrow> screen option" where
  "screen_flush s =
     Option.bind (columns s) (\<lambda>width. Option.bind (rows s) (\<lambda>height.
       if scroll s > 0 then
         (case scroll_start (buffer s) (scroll s) [0..<unat (buffer_end s)] 0 of
            None \<Rightarrow> Some (clear_pixels s)
          | Some buffer_start \<Rightarrow>
              if buffer_start \<ge> BUFFER_SIZE then Some (clear_pixels s)
              else flush_from width height buffer_start s)
       else flush_from width height 0 s))"

section \<open>Text\<close>

definition put_buffer :: "u8 \<Rightarrow> screen \<Rightarrow> screen" where
  "put_buffer c s = s\<lparr>buffer := (buffer s)(buffer_end s := c), buffer_end := buffer_end s + 1\<rparr>"

primrec put_spaces :: "nat \<Rightarrow> screen \<Rightarrow> screen" where
  "put_spaces 0 s = s"
| "put_spaces (Suc n) s = (if buffer_end s < BUFFER_SIZE then put_spaces n (put_buffer 32 s) else s)"

definition print_char :: "u64 \<Rightarrow> u8 \<Rightarrow> screen \<Rightarrow> screen" where
  "print_char width c s =
     (let s1 = (if buffer_end s \<ge> BUFFER_SIZE then s\<lparr>buffer_end := 0\<rparr> else s) in
      if c = 8 then
        (if buffer_end s1 > 0 then s1\<lparr>buffer := (buffer s1)(buffer_end s1 := 0), buffer_end := buffer_end s1 - 1\<rparr>
         else s1)
      else if c = 13 then s1\<lparr>buffer_end := buffer_end s1 - buffer_end s1 mod width\<rparr>
      else if c = 9 then put_spaces (4 - unat (buffer_end s1) mod 4) s1
      else put_buffer c s1)"

text \<open>A carriage return divides by the number of columns.\<close>

fun print_chars :: "u64 \<Rightarrow> cstr \<Rightarrow> screen \<Rightarrow> screen option" where
  "print_chars width [] s = Some s"
| "print_chars width (c # cs) s =
     (if c = 13 \<and> width = 0 then None else print_chars width cs (print_char width c s))"

definition screen_print :: "cstr \<Rightarrow> screen \<Rightarrow> screen option" where
  "screen_print msg s =
     Option.bind (columns s) (\<lambda>width. Option.bind (print_chars width msg s) screen_flush)"

definition screen_scroll :: "int \<Rightarrow> screen \<Rightarrow> screen option" where
  "screen_scroll to s = screen_flush (s\<lparr>scroll := word_of_int (trunc (max_double (of_int to) 0))\<rparr>)"

definition screen_get_scroll :: "screen \<Rightarrow> int" where
  "screen_get_scroll s = sint (ucast (scroll s) :: u32)"

definition screen_clear :: "screen \<Rightarrow> screen option" where
  "screen_clear s =
     screen_flush (s\<lparr>buffer := memset 0 0 (unat BUFFER_SIZE) (buffer s), buffer_end := 0, scroll := 0\<rparr>)"

definition screen_init :: "limine_framebuffer \<Rightarrow> u64 \<Rightarrow> screen \<Rightarrow> screen option" where
  "screen_init framebuffer zap_font s =
     Option.bind (screen_clear (screen_load_font zap_font (s\<lparr>fb := framebuffer\<rparr>))) (\<lambda>s.
       Option.bind (screen_print (str ''[screen] screen init'' @ [10]) s) (\<lambda>s.
         Some (s\<lparr>screen_init_done := True\<rparr>)))"

text \<open>The calls recorded in the console of the other components.\<close>

fun screen_run :: "screen_call list \<Rightarrow> screen \<Rightarrow> screen option" where
  "screen_run [] s = Some s"
| "screen_run (Screen_print m # cs) s = Option.bind (screen_print m s) (screen_run cs)"
| "screen_run (Screen_clear # cs) s = Option.bind (screen_clear s) (screen_run cs)"
| "screen_run (Screen_scroll n # cs) s = Option.bind (screen_scroll n s) (screen_run cs)"

section \<open>Drawing changes only the frame buffer\<close>

definition draws :: "screen \<Rightarrow> screen \<Rightarrow> bool" where
  "draws s t \<longleftrightarrow> (\<exists>v. t = s\<lparr>vram := v\<rparr>)"

lemma draws_refl [simp, intro]: "draws s s"
  unfolding draws_def by (rule exI [of _ "vram s"]) simp

lemma draws_trans [trans]: "draws s t \<Longrightarrow> draws t u \<Longrightarrow> draws s u"
  by (auto simp: draws_def)

lemma draws_fold: "(\<And>x t. draws t (f x t)) \<Longrightarrow> draws s (fold f xs s)"
proof (induction xs arbitrary: s)
  case (Cons x xs)
  have "draws s (f x s)" by (rule Cons.prems)
  also have "draws (f x s) (fold f xs (f x s))" by (rule Cons.IH) (rule Cons.prems)
  finally show ?case by simp
qed simp

lemma draws_put_pixel [intro]: "draws s (screen_put_pixel x y color s)"
  unfolding screen_put_pixel_def by (cases "ucast x \<ge> fb_width (fb s) \<or> ucast y \<ge> fb_height (fb s)")
    (simp_all add: draws_refl, auto simp: draws_def)

lemma draws_psf2: "draws s (draw_psf2 c x y fg bg s)"
  unfolding draw_psf2_def Let_def by (intro draws_fold draws_put_pixel)

lemma draws_psf1: "draws s (draw_psf1 c x y fg bg s)"
  unfolding draw_psf1_def Let_def by (intro draws_fold draws_put_pixel)

lemma draws_clear_pixels: "draws s (clear_pixels s)"
  unfolding clear_pixels_def by (intro draws_fold draws_put_pixel)

text \<open>A screen of \<open>w\<close> columns and \<open>h\<close> rows.\<close>

definition text_size :: "nat \<Rightarrow> nat \<Rightarrow> screen \<Rightarrow> bool" where
  "text_size w h s \<longleftrightarrow> columns s = Some (word_of_nat w) \<and> rows s = Some (word_of_nat h) \<and> current_font s \<noteq> 0 \<and>
     0 < w \<and> w < 2 ^ 31 \<and> h < 2 ^ 31"

lemmas font_defs = columns_def rows_def screen_get_font_char_width_def screen_get_font_char_height_def
  PSF2_width_def PSF2_height_def PSF1_charsize_def mem32_def mem16_def

lemma columns_updates [simp]:
  "columns (s\<lparr>vram := v\<rparr>) = columns s" "columns (s\<lparr>cursor_x := x\<rparr>) = columns s" "columns (s\<lparr>cursor_y := y\<rparr>) = columns s"
  "columns (s\<lparr>buffer := b\<rparr>) = columns s" "columns (s\<lparr>buffer_end := e\<rparr>) = columns s" "columns (s\<lparr>scroll := l\<rparr>) = columns s"
  "rows (s\<lparr>vram := v\<rparr>) = rows s" "rows (s\<lparr>cursor_x := x\<rparr>) = rows s" "rows (s\<lparr>cursor_y := y\<rparr>) = rows s"
  "rows (s\<lparr>buffer := b\<rparr>) = rows s" "rows (s\<lparr>buffer_end := e\<rparr>) = rows s" "rows (s\<lparr>scroll := l\<rparr>) = rows s"
  by (simp_all add: font_defs)

lemma text_size_updates [simp]:
  "text_size w h (s\<lparr>vram := v\<rparr>) = text_size w h s" "text_size w h (s\<lparr>cursor_x := x\<rparr>) = text_size w h s"
  "text_size w h (s\<lparr>cursor_y := y\<rparr>) = text_size w h s" "text_size w h (s\<lparr>buffer := b\<rparr>) = text_size w h s"
  "text_size w h (s\<lparr>buffer_end := e\<rparr>) = text_size w h s" "text_size w h (s\<lparr>scroll := l\<rparr>) = text_size w h s"
  by (simp_all add: text_size_def)

lemma flush_char_draws:
  assumes "text_size w h s"
  obtains v where "flush_char c s = Some (s\<lparr>vram := v\<rparr>)"
proof -
  have "\<exists>t. flush_char c s = Some t \<and> draws s t"
    using assms draws_psf1 draws_psf2 by (auto simp: flush_char_def screen_put_char_def text_size_def)
  then show thesis using that by (auto simp: draws_def)
qed

section \<open>Rendering returns\<close>

lemma sint_eq_uint:
  assumes "unat (x :: u32) < 2 ^ 31"
  shows "sint x = int (unat x)"
proof -
  have "nat (uint x) < 2 ^ 31" using assms by (simp only: unat_eq_nat_uint)
  then have "uint x < 2 ^ 31" by (simp only: nat_less_numeral_power_cancel_iff)
  moreover have "- (2 ^ 31) \<le> uint x" by (rule order_trans [OF _ unsigned_greater_eq]) simp
  ultimately have "signed_take_bit 31 (uint x) = uint x" by (simp only: signed_take_bit_int_eq_self_iff)
  then show ?thesis by (simp add: sint_uint)
qed

lemma scast_less_iff:
  assumes "unat (x :: u32) < 2 ^ 31" "n < 2 ^ 32"
  shows "((scast x :: u64) < word_of_nat n) = (unat x < n)"
proof -
  have s: "(scast x :: u64) = word_of_nat (unat x)" by (simp add: scast_eq sint_eq_uint [OF assms(1)])
  have "unat (word_of_nat (unat x) :: u64) = unat x" using assms(1) by (intro unat_word_of_nat_less) simp
  moreover have "unat (word_of_nat n :: u64) = n" using assms(2) by (intro unat_word_of_nat_less) simp
  ultimately show ?thesis unfolding s by (simp add: word_less_nat_alt)
qed

lemma unat_Suc: "unat (x :: u32) < 2 ^ 31 \<Longrightarrow> unat (x + 1) = Suc (unat x)"
  by (subst unat_word_ariths) simp

text \<open>The cursor stands on the screen, or just behind the last column.\<close>

lemma screen_norm_cursor_eq:
  assumes "text_size w h s" "unat (cursor_x s) < 2 ^ 31"
  shows "screen_norm_cursor s =
    Some (if w \<le> unat (cursor_x s) then s\<lparr>cursor_x := 0, cursor_y := cursor_y s + 1\<rparr> else s)"
proof -
  have "w < 2 ^ 32" using assms(1) by (simp add: text_size_def)
  then have "((scast (cursor_x s) :: u64) < word_of_nat w) = (unat (cursor_x s) < w)"
    by (rule scast_less_iff [OF assms(2)])
  moreover have "\<not> sint (cursor_x s) < 0" by (simp add: sint_eq_uint [OF assms(2)])
  ultimately show ?thesis using assms(1) by (simp add: screen_norm_cursor_def text_size_def not_less [symmetric])
qed

definition moved :: "screen \<Rightarrow> screen \<Rightarrow> bool" where
  "moved s t \<longleftrightarrow> t = s\<lparr>vram := vram t, cursor_x := cursor_x t, cursor_y := cursor_y t\<rparr>"

lemma movedI: "moved s (s\<lparr>vram := v, cursor_x := x, cursor_y := y\<rparr>)"
  by (simp add: moved_def)

lemma movedE:
  assumes "moved s t"
  obtains v x y where "t = s\<lparr>vram := v, cursor_x := x, cursor_y := y\<rparr>"
  using assms that unfolding moved_def by blast

lemma moved_refl [simp]: "moved s s"
  by (simp add: moved_def)

lemma moved_trans:
  assumes "moved s t" "moved t u"
  shows "moved s u"
  using assms(1)
proof (rule movedE)
  fix v x y assume "t = s\<lparr>vram := v, cursor_x := x, cursor_y := y\<rparr>"
  with assms(2) show ?thesis by (elim movedE) (simp add: movedI)
qed

lemma moved_text_size: "moved s t \<Longrightarrow> text_size w h t = text_size w h s"
  by (elim movedE) simp

definition on_screen :: "nat \<Rightarrow> nat \<Rightarrow> screen \<Rightarrow> bool" where
  "on_screen w h s \<longleftrightarrow> text_size w h s \<and> unat (cursor_x s) < w \<and> unat (cursor_y s) \<le> h"

definition cursor_pos :: "nat \<Rightarrow> screen \<Rightarrow> nat" where
  "cursor_pos w s = unat (cursor_y s) * w + unat (cursor_x s)"

lemma put_and_advance:
  assumes "on_screen w h s" "unat (cursor_y s) < h"
  obtains t where "Option.bind (flush_char c s) (\<lambda>s. screen_norm_cursor (s\<lparr>cursor_x := cursor_x s + 1\<rparr>)) = Some t"
    "moved s t" "on_screen w h t" "cursor_pos w t = Suc (cursor_pos w s)"
proof -
  have ts: "text_size w h s" and x: "unat (cursor_x s) < w" and b: "w < 2 ^ 31" "h < 2 ^ 31"
    using assms by (simp_all add: on_screen_def text_size_def)
  obtain v where v: "flush_char c s = Some (s\<lparr>vram := v\<rparr>)" by (rule flush_char_draws [OF ts])
  define u where "u = s\<lparr>vram := v, cursor_x := cursor_x s + 1\<rparr>"
  have x1: "unat (cursor_x s + 1) = Suc (unat (cursor_x s))" using x b by (intro unat_Suc) simp
  have y1: "unat (cursor_y s + 1) = Suc (unat (cursor_y s))" using assms(2) b by (intro unat_Suc) simp
  have "text_size w h u" using ts by (simp add: u_def)
  moreover have "unat (cursor_x u) < 2 ^ 31" using x b by (simp add: u_def x1)
  ultimately have n: "screen_norm_cursor u =
      Some (if w \<le> unat (cursor_x u) then u\<lparr>cursor_x := 0, cursor_y := cursor_y u + 1\<rparr> else u)"
    by (rule screen_norm_cursor_eq)
  show thesis
  proof (cases "w \<le> Suc (unat (cursor_x s))")
    case True
    then have w: "w = Suc (unat (cursor_x s))" using x by simp
    show thesis
    proof (rule that [of "s\<lparr>vram := v, cursor_x := 0, cursor_y := cursor_y s + 1\<rparr>"])
      show "Option.bind (flush_char c s) (\<lambda>s. screen_norm_cursor (s\<lparr>cursor_x := cursor_x s + 1\<rparr>)) =
          Some (s\<lparr>vram := v, cursor_x := 0, cursor_y := cursor_y s + 1\<rparr>)"
        using n True by (simp add: v u_def x1)
    qed (use ts x y1 w assms(2) in \<open>simp_all add: movedI on_screen_def cursor_pos_def\<close>)
  next
    case False
    show thesis
    proof (rule that [of u])
      show "Option.bind (flush_char c s) (\<lambda>s. screen_norm_cursor (s\<lparr>cursor_x := cursor_x s + 1\<rparr>)) = Some u"
        using n False by (simp add: v u_def x1)
      show "moved s u" by (simp add: u_def moved_def)
    qed (use ts x x1 False assms(2) in \<open>simp_all add: u_def on_screen_def cursor_pos_def\<close>)
  qed
qed

lemma blank_loop_returns: "on_screen w h s \<Longrightarrow> \<exists>t. blank_loop (word_of_nat h) s = Some t \<and> moved s t"
proof (induction "h * w - cursor_pos w s" arbitrary: s rule: less_induct)
  case less
  have ts: "text_size w h s" and y: "unat (cursor_y s) \<le> h" and x: "unat (cursor_x s) < w"
    using less.prems by (simp_all add: on_screen_def)
  then have c: "((scast (cursor_y s) :: u64) < word_of_nat h) = (unat (cursor_y s) < h)"
    by (intro scast_less_iff) (simp_all add: text_size_def)
  show ?case
  proof (cases "unat (cursor_y s) < h")
    case False
    then show ?thesis using c by (subst blank_loop.simps) simp
  next
    case True
    obtain t where t: "Option.bind (flush_char 32 s) (\<lambda>s. screen_norm_cursor (s\<lparr>cursor_x := cursor_x s + 1\<rparr>)) = Some t"
      "moved s t" "on_screen w h t" "cursor_pos w t = Suc (cursor_pos w s)"
      by (rule put_and_advance [OF less.prems True])
    have "Suc (unat (cursor_y s)) * w \<le> h * w" using True by (intro mult_le_mono1) simp
    then have "cursor_pos w s < h * w" using x by (simp add: cursor_pos_def)
    then have "h * w - cursor_pos w t < h * w - cursor_pos w s" using t(4) by simp
    from less.hyps [OF this t(3)] obtain u where u: "blank_loop (word_of_nat h) t = Some u" "moved t u" by blast
    have "blank_loop (word_of_nat h) s = Some u"
      using t(1) u(1) c True by (subst blank_loop.simps) (cases "flush_char 32 s"; simp)
    then show ?thesis using moved_trans [OF t(2) u(2)] by blast
  qed
qed

lemma fill_line_returns:
  assumes "text_size w h s" "unat (cursor_x s) \<le> w"
  shows "\<exists>v x. fill_line (word_of_nat w) s = Some (s\<lparr>vram := v, cursor_x := x\<rparr>)"
  using assms
proof (induction "w - unat (cursor_x s)" arbitrary: s rule: less_induct)
  case less
  have w: "w < 2 ^ 31" using less.prems(1) by (simp add: text_size_def)
  have c: "((scast (cursor_x s) :: u64) < word_of_nat w) = (unat (cursor_x s) < w)"
    using less.prems w by (intro scast_less_iff) simp_all
  show ?case
  proof (cases "unat (cursor_x s) < w")
    case False
    then have "fill_line (word_of_nat w) s = Some (s\<lparr>vram := vram s, cursor_x := cursor_x s\<rparr>)"
      using c by (subst fill_line.simps) simp
    then show ?thesis by blast
  next
    case True
    obtain v where v: "flush_char 32 s = Some (s\<lparr>vram := v\<rparr>)" by (rule flush_char_draws [OF less.prems(1)])
    define u where "u = s\<lparr>vram := v, cursor_x := cursor_x s + 1\<rparr>"
    have x: "unat (cursor_x u) = Suc (unat (cursor_x s))" using True w by (simp add: u_def unat_Suc)
    have "\<exists>v x. fill_line (word_of_nat w) u = Some (u\<lparr>vram := v, cursor_x := x\<rparr>)"
      using less.prems True x by (intro less.hyps) (simp_all add: u_def)
    moreover have "fill_line (word_of_nat w) s = fill_line (word_of_nat w) u"
      using v c True by (subst fill_line.simps) (simp add: u_def)
    ultimately show ?thesis by (auto simp: u_def)
  qed
qed

lemma flush_step_returns:
  assumes "on_screen w h s" "unat (cursor_y s) < h"
  shows "\<exists>t. flush_step (word_of_nat w) c s = Some t \<and> moved s t \<and> on_screen w h t"
proof (cases "c = 10")
  case True
  have s: "text_size w h s" "unat (cursor_x s) < w" using assms by (simp_all add: on_screen_def)
  then obtain v x where f: "fill_line (word_of_nat w) s = Some (s\<lparr>vram := v, cursor_x := x\<rparr>)"
    using fill_line_returns [of w h s] by auto
  have "unat (cursor_y s + 1) = Suc (unat (cursor_y s))"
    using assms by (intro unat_Suc) (simp add: on_screen_def text_size_def)
  then have "on_screen w h (s\<lparr>vram := v, cursor_x := 0, cursor_y := cursor_y s + 1\<rparr>)"
    using assms s by (simp add: on_screen_def)
  then show ?thesis using f True by (simp add: flush_step_def movedI)
next
  case False
  then show ?thesis
    by (cases "c = 0") (simp_all add: flush_step_def, (metis put_and_advance [OF assms])+)
qed

lemma flush_loop_returns:
  "on_screen w h s \<Longrightarrow> \<exists>t. flush_loop (word_of_nat w) (word_of_nat h) is s = Some t \<and> moved s t \<and> on_screen w h t"
proof (induction "is" arbitrary: s)
  case (Cons i "is")
  have "((scast (cursor_y s) :: u64) < word_of_nat h) = (unat (cursor_y s) < h)"
    using Cons.prems by (intro scast_less_iff) (simp_all add: on_screen_def text_size_def)
  then show ?case
  proof (cases "unat (cursor_y s) < h")
    case True
    obtain t where t: "flush_step (word_of_nat w) (buffer s (word_of_nat i)) s = Some t" "moved s t" "on_screen w h t"
      using flush_step_returns [OF Cons.prems True] by blast
    obtain u where u: "flush_loop (word_of_nat w) (word_of_nat h) is t = Some u" "moved t u" "on_screen w h u"
      using Cons.IH [OF t(3)] by blast
    show ?thesis using t u Cons.prems moved_trans [OF t(2) u(2)] by auto
  qed (use Cons.prems in auto)
qed simp

lemma flush_from_returns:
  assumes "text_size w h s"
  shows "\<exists>t. flush_from (word_of_nat w) (word_of_nat h) start s = Some t \<and> moved s t"
proof -
  define s1 where "s1 = s\<lparr>cursor_x := 0, cursor_y := 0\<rparr>"
  have "on_screen w h s1" using assms by (simp add: on_screen_def s1_def, simp add: text_size_def)
  from flush_loop_returns [OF this] blank_loop_returns
  obtain t u where "flush_loop (word_of_nat w) (word_of_nat h) [unat start..<nat (trunc (min_double
      (real (unat (buffer_end s))) (real (unat (start + word_of_nat w * word_of_nat h)))))] s1 = Some t"
    "moved s1 t" "blank_loop (word_of_nat h) t = Some u" "moved t u" by metis
  moreover have "moved s s1" by (simp add: s1_def moved_def)
  ultimately show ?thesis by (simp add: flush_from_def s1_def) (meson moved_trans)
qed

lemma screen_flush_returns:
  assumes "text_size w h s"
  obtains t where "screen_flush s = Some t" "moved s t"
proof -
  have "moved s (clear_pixels s)" using draws_clear_pixels [of s] by (auto simp: draws_def moved_def)
  then have "\<exists>t. screen_flush s = Some t \<and> moved s t"
    using assms flush_from_returns [OF assms] by (auto simp: screen_flush_def text_size_def split: option.splits)
  then show thesis using that by blast
qed

section \<open>The text buffer\<close>

definition text_ok :: "screen \<Rightarrow> bool" where
  "text_ok s \<longleftrightarrow> buffer_end s \<le> BUFFER_SIZE"

text \<open>Nothing but the text buffer, the cursor, the scroll position and the frame buffer changes.\<close>

definition edits :: "screen \<Rightarrow> screen \<Rightarrow> bool" where
  "edits s t \<longleftrightarrow> (\<forall>a\<ge>BUFFER_SIZE. buffer t a = buffer s a) \<and>
     t = s\<lparr>vram := vram t, cursor_x := cursor_x t, cursor_y := cursor_y t, buffer := buffer t, scroll := scroll t,
       buffer_end := buffer_end t\<rparr>"

lemma edits_refl [simp]: "edits s s"
  by (simp add: edits_def)

lemma edits_trans:
  assumes "edits s t" "edits t u"
  shows "edits s u"
proof -
  have t: "t = s\<lparr>vram := vram t, cursor_x := cursor_x t, cursor_y := cursor_y t, buffer := buffer t, scroll := scroll t,
       buffer_end := buffer_end t\<rparr>" using assms(1) by (simp add: edits_def)
  have u: "u = t\<lparr>vram := vram u, cursor_x := cursor_x u, cursor_y := cursor_y u, buffer := buffer u, scroll := scroll u,
       buffer_end := buffer_end u\<rparr>" using assms(2) by (simp add: edits_def)
  have "u = s\<lparr>vram := vram u, cursor_x := cursor_x u, cursor_y := cursor_y u, buffer := buffer u, scroll := scroll u,
       buffer_end := buffer_end u\<rparr>" by (subst u, subst t) simp
  then show ?thesis using assms by (simp add: edits_def)
qed

lemma edits_text_size:
  assumes "edits s t"
  shows "text_size w h t = text_size w h s"
proof -
  have "t = s\<lparr>vram := vram t, cursor_x := cursor_x t, cursor_y := cursor_y t, buffer := buffer t, scroll := scroll t,
       buffer_end := buffer_end t\<rparr>" using assms by (simp add: edits_def)
  then show ?thesis by (metis text_size_updates)
qed

lemma moved_edits: "moved s t \<Longrightarrow> edits s t \<and> text_ok t = text_ok s \<and> buffer t = buffer s \<and> buffer_end t = buffer_end s"
  by (elim movedE) (simp add: edits_def text_ok_def)

lemma put_buffer_edits:
  assumes "buffer_end s < BUFFER_SIZE"
  shows "edits s (put_buffer c s) \<and> text_ok (put_buffer c s)"
proof -
  have "buffer_end s + 1 \<le> BUFFER_SIZE" using assms by (rule inc_le)
  moreover have "\<And>a. a \<ge> BUFFER_SIZE \<Longrightarrow> a \<noteq> buffer_end s" using assms by auto
  ultimately show ?thesis by (auto simp: put_buffer_def edits_def text_ok_def)
qed

lemma put_spaces_edits: "text_ok s \<Longrightarrow> edits s (put_spaces n s) \<and> text_ok (put_spaces n s)"
proof (induction n arbitrary: s)
  case (Suc n)
  then show ?case using put_buffer_edits [of s 32] edits_trans by (auto split: if_splits)
qed simp

lemma print_char_edits: "edits s (print_char w c s) \<and> text_ok (print_char w c s)"
proof -
  define s1 where "s1 = (if buffer_end s \<ge> BUFFER_SIZE then s\<lparr>buffer_end := 0\<rparr> else s)"
  have e: "buffer_end s1 < BUFFER_SIZE" and s1: "edits s s1" "text_ok s1"
    by (auto simp: s1_def edits_def text_ok_def BUFFER_SIZE_def not_le)
  have b: "edits s1 (s1\<lparr>buffer := (buffer s1)(buffer_end s1 := 0), buffer_end := buffer_end s1 - 1\<rparr>)"
    using e by (auto simp: edits_def)
  have l: "buffer_end s1 - 1 \<le> BUFFER_SIZE" if "0 < buffer_end s1"
    using inc_le [OF that] e word_sub_le [of 1 "buffer_end s1"] by auto
  have "buffer_end s1 mod w \<le> buffer_end s1" by (simp add: word_le_nat_alt unat_mod)
  then have r: "buffer_end s1 - buffer_end s1 mod w \<le> BUFFER_SIZE"
    using e word_sub_le [of "buffer_end s1 mod w" "buffer_end s1"] by auto
  have c: "edits s1 (s1\<lparr>buffer_end := buffer_end s1 - buffer_end s1 mod w\<rparr>)" by (simp add: edits_def)
  have "edits s1 (print_char w c s) \<and> text_ok (print_char w c s)"
    using b c l r s1(2) put_buffer_edits [OF e] put_spaces_edits [OF s1(2)]
    unfolding print_char_def s1_def [symmetric] Let_def by (auto simp: text_ok_def)
  then show ?thesis using edits_trans [OF s1(1)] by blast
qed

lemma print_chars_edits:
  "w \<noteq> 0 \<Longrightarrow> text_ok s \<Longrightarrow> \<exists>t. print_chars w cs s = Some t \<and> edits s t \<and> text_ok t"
proof (induction cs arbitrary: s)
  case (Cons c cs)
  then show ?case using print_char_edits [of s w c] edits_trans [of s "print_char w c s"] by fastforce
qed simp

lemma screen_print_returns:
  assumes "text_size w h s" "text_ok s"
  obtains t where "screen_print m s = Some t" "edits s t" "text_ok t"
proof -
  have "unat (word_of_nat w :: u64) = w" using assms(1) by (intro unat_word_of_nat_less) (simp add: text_size_def)
  then have w: "columns s = Some (word_of_nat w)" "(word_of_nat w :: u64) \<noteq> 0"
    using assms(1) by (auto simp: text_size_def)
  obtain u where u: "print_chars (word_of_nat w) m s = Some u" "edits s u" "text_ok u"
    using print_chars_edits [OF w(2) assms(2)] by blast
  obtain t where t: "screen_flush u = Some t" "moved u t"
    using screen_flush_returns [of w h u] edits_text_size [OF u(2)] assms(1) by blast
  show thesis
    using that [of t] w u t moved_edits [OF t(2)] edits_trans [OF u(2)] by (auto simp: screen_print_def)
qed

lemma memset_outside: "a \<ge> BUFFER_SIZE \<Longrightarrow> memset 0 v (unat BUFFER_SIZE) m a = m a"
proof -
  assume a: "a \<ge> BUFFER_SIZE"
  have "fold (\<lambda>i m. m(0 + word_of_nat i := v)) is m a = m a" if "\<forall>i \<in> set is. i < unat BUFFER_SIZE" for "is" m
    using that
  proof (induction "is" arbitrary: m)
    case (Cons i "is")
    have "unat (word_of_nat i :: u64) = i"
      using Cons.prems by (intro unat_word_of_nat_less) (simp add: BUFFER_SIZE_def)
    then have "a \<noteq> word_of_nat i" using a Cons.prems by (auto simp: word_le_nat_alt)
    then show ?case using Cons.IH Cons.prems by simp
  qed simp
  then show ?thesis by (simp add: memset_def)
qed

lemma screen_clear_returns:
  assumes "text_size w h s"
  obtains t where "screen_clear s = Some t" "edits s t" "text_ok t" "scroll t = 0"
proof -
  define u where "u = s\<lparr>buffer := memset 0 0 (unat BUFFER_SIZE) (buffer s), buffer_end := 0, scroll := 0\<rparr>"
  obtain t where t: "screen_flush u = Some t" "moved u t"
    using screen_flush_returns [of w h u] assms by (auto simp: u_def)
  have "buffer u a = buffer s a" if "a \<ge> BUFFER_SIZE" for a
    using that unfolding u_def by (simp add: memset_outside)
  then have "edits s u" by (simp add: edits_def u_def)
  moreover have "text_ok u" by (simp add: u_def text_ok_def)
  moreover have "scroll t = 0" using t(2) by (elim movedE) (simp add: u_def)
  ultimately show thesis
    using that [of t] t moved_edits [OF t(2)] edits_trans by (auto simp: screen_clear_def u_def)
qed

lemma screen_scroll_returns:
  assumes "text_size w h s"
  obtains t where "screen_scroll n s = Some t" "edits s t" "text_ok t = text_ok s"
    "scroll t = word_of_int (trunc (max_double (of_int n) 0))"
proof -
  define u where "u = s\<lparr>scroll := word_of_int (trunc (max_double (of_int n) 0))\<rparr>"
  obtain t where t: "screen_flush u = Some t" "moved u t"
    using screen_flush_returns [of w h u] assms by (auto simp: u_def)
  have "edits s u" "text_ok u = text_ok s" by (simp_all add: edits_def text_ok_def u_def)
  moreover have "scroll t = word_of_int (trunc (max_double (of_int n) 0))" using t(2) by (elim movedE) (simp add: u_def)
  ultimately show thesis
    using that [of t] t moved_edits [OF t(2)] edits_trans by (auto simp: screen_scroll_def u_def)
qed

lemma screen_call_returns:
  assumes "text_size w h s" "text_ok s"
  shows "\<exists>t. screen_run [c] s = Some t \<and> edits s t \<and> text_ok t"
proof (cases c)
  case (Screen_print m)
  obtain t where "screen_print m s = Some t" "edits s t" "text_ok t" by (rule screen_print_returns [OF assms])
  then show ?thesis by (simp add: Screen_print)
next
  case Screen_clear
  obtain t where "screen_clear s = Some t" "edits s t" "text_ok t" by (rule screen_clear_returns [OF assms(1)])
  then show ?thesis by (simp add: Screen_clear)
next
  case (Screen_scroll n)
  obtain t where "screen_scroll n s = Some t" "edits s t" "text_ok t = text_ok s"
    by (rule screen_scroll_returns [OF assms(1)])
  then show ?thesis using assms(2) by (simp add: Screen_scroll)
qed

lemma screen_run_Cons: "screen_run (c # cs) s = Option.bind (screen_run [c] s) (screen_run cs)"
proof -
  have "screen_run [] = Some" by (rule ext) simp
  then show ?thesis by (cases c) simp_all
qed

lemma screen_run_edits:
  "text_size w h s \<Longrightarrow> text_ok s \<Longrightarrow> \<exists>t. screen_run calls s = Some t \<and> edits s t \<and> text_ok t"
proof (induction calls arbitrary: s)
  case (Cons c calls)
  obtain t where t: "screen_run [c] s = Some t" "edits s t" "text_ok t"
    using screen_call_returns [OF Cons.prems] by blast
  have "text_size w h t" using Cons.prems(1) edits_text_size [OF t(2)] by simp
  from Cons.IH [OF this t(3)] obtain u where u: "screen_run calls t = Some u" "edits t u" "text_ok u" by blast
  have "screen_run (c # calls) s = Some u" unfolding screen_run_Cons [of c calls s] t(1) using u(1) by simp
  then show ?case using u(3) edits_trans [OF t(2) u(2)] by blast
qed simp

text \<open>
  C39: The screen driver is total and memory-safe: on a screen with at least one column and a loaded
  font, every sequence of print, clear and scroll calls returns, whatever the strings contain; the
  end of the text stays within the buffer, and no byte behind the buffer changes.
\<close>
theorem screen_run_safe:
  assumes "text_size w h s" "buffer_end s \<le> BUFFER_SIZE"
  shows "\<exists>t. screen_run calls s = Some t \<and> buffer_end t \<le> BUFFER_SIZE \<and> text_size w h t \<and>
    (\<forall>a\<ge>BUFFER_SIZE. buffer t a = buffer s a)"
proof -
  obtain t where t: "screen_run calls s = Some t" "edits s t" "text_ok t"
    using screen_run_edits [of w h s calls] assms by (auto simp: text_ok_def)
  have "text_size w h t" using assms(1) edits_text_size [OF t(2)] by simp
  then show ?thesis using t unfolding text_ok_def edits_def by blast
qed

text \<open>A screen of 640 by 400 pixels with a font of eight by sixteen pixels at address 4096.\<close>

definition sample_screen :: screen where
  "sample_screen = \<lparr>mem = (\<lambda>a. if a = 4096 then 0x36 else if a = 4097 then 0x04 else if a = 4099 then 16 else 0),
     vram = (\<lambda>_. 0),
     fb = \<lparr>fb_width = 640, fb_height = 400, fb_pitch = 2560, red_mask_shift = 16, green_mask_shift = 8,
       blue_mask_shift = 0\<rparr>,
     current_font = 4096, is_current_font_psf2 = False, screen_init_done = False, cursor_x = 0, cursor_y = 0,
     buffer = (\<lambda>_. 0), scroll = 0, buffer_end = 0\<rparr>"

lemma sample_screen_size: "text_size 80 25 sample_screen"
  by (simp add: text_size_def sample_screen_def columns_def rows_def div_trap_def screen_get_font_char_width_def
    screen_get_font_char_height_def PSF1_charsize_def)

theorem screen_run_safe_witness:
  "\<exists>t. screen_run [Screen_print (str ''ok''), Screen_scroll 1, Screen_clear] sample_screen = Some t \<and>
     buffer_end t \<le> BUFFER_SIZE \<and> text_size 80 25 t \<and>
     (\<forall>a\<ge>BUFFER_SIZE. buffer t a = buffer sample_screen a)"
  by (rule screen_run_safe [OF sample_screen_size]) (simp add: sample_screen_def)

end
