(* ===== verification/Kernel.thy ===== *)
theory Kernel
  imports Syscalls Screen
begin

unbundle bit_operations_syntax

text \<open>
  The kernel's entry point, \<open>src/src/kernel.c\<close>: the checks of the boot loader's answers, the
  initialisation of every component in order, the start of the shell, and the keyboard loop.

  \<open>boot\<close> collects what the boot loader and the linker provide. The screen is the trace of calls;
  \<open>trace_scroll\<close> is the scroll position after them.
\<close>

section \<open>Boot\<close>

record boot =
  base_revision_supported :: bool
  framebuffers :: "limine_framebuffer list option"
  memmap :: "memmap_entry list option"
  hhdm_response :: "u64 option"
  kernel_physical_base :: u64
  kernel_end_symbol :: u64
  gdt_address :: u64
  tss_address :: u64
  transition_stack_top :: u64
  boot_stubs :: stubs
  shell_program :: "u64 \<Rightarrow> u8"
  table_behind :: "nat \<Rightarrow> u8"

definition enable_sse :: "'a kernel_scheme \<Rightarrow> 'a kernel_scheme" where
  "enable_sse s = s\<lparr>cr0 := (cr0 s AND NOT 4) OR 2, cr4 := cr4 s OR push_bit 9 3\<rparr>"

definition enable_nxe :: "'a kernel_scheme \<Rightarrow> 'a kernel_scheme" where
  "enable_nxe s = write_msr 0xC0000080 (read_msr 0xC0000080 s OR push_bit 11 1) s"

definition boot_screen :: "'a kernel_scheme \<Rightarrow> 'a kernel_scheme" where
  "boot_screen s = (con_line ''[screen] screen init'' (s\<lparr>con := con s @ [Screen_clear]\<rparr>))\<lparr>is_screen_init := True\<rparr>"

definition boot_check :: "boot \<Rightarrow> 'a kernel_scheme \<Rightarrow> (unit, 'a kernel_scheme) outcome" where
  "boot_check b s =
     (if \<not> base_revision_supported b then panic (str ''limine not supported'') s
      else if framebuffers b = None \<or> framebuffers b = Some [] then panic (str ''invalid limine frame buffer'') s
      else if memmap b = None then panic (str ''invalid limine memmap'') s
      else if hhdm_response b = None then panic (str ''invalid limine hhdmm'') s
      else Ok () s)"

text \<open>\<open>kernel_main\<close> up to the keyboard loop.\<close>

definition kernel_start :: "boot \<Rightarrow> 'a kernel_scheme \<Rightarrow> (unit, 'a kernel_scheme) outcome option" where
  "kernel_start b s =
     and_then (Some (boot_check b s)) (\<lambda>_ s1.
       let s2 = boot_screen (enable_nxe (enable_sse s1));
           s3 = gdt_init (gdt_address b) (tss_address b) (transition_stack_top b) s2;
           s4 = snd (pmm_init (the (memmap b)) (the (hhdm_response b)) s3);
           (kernel_PML4, s5) = vmm_init (the (hhdm_response b)) (kernel_physical_base b) (kernel_end_symbol b) s4
       in if kernel_PML4 = 0 then Some (panic (str ''vmm init crashed'') s5)
          else and_then (process_scheduler_init kernel_PML4 s5) (\<lambda>_ s6.
            and_then (Some (interrupts_init (boot_stubs b) s6)) (\<lambda>_ s7.
              and_then (filesystem_init s7) (\<lambda>_ s8.
                let s9 = con_line ''[kernel] Hello user!'' (con_line ''[kernel] Eitan OS Started...'' s8)
                in and_then (program_loader_load_elf64 (shell_program b) s9) (\<lambda>r s10.
                  Some (Ok () (if r \<noteq> None then con_line ''[kernel] loaded shell'' s10
                               else con_line ''[kernel] failed to load shell'' s10)))))))"

section \<open>The keyboard loop\<close>

fun trace_scroll :: "screen_call list \<Rightarrow> u64 \<Rightarrow> u64" where
  "trace_scroll [] n = n"
| "trace_scroll (Screen_print m # cs) n = trace_scroll cs n"
| "trace_scroll (Screen_clear # cs) n = trace_scroll cs 0"
| "trace_scroll (Screen_scroll to # cs) n = trace_scroll cs (word_of_int (trunc (max_double (of_int to) 0)))"

definition get_scroll :: "'a console_scheme \<Rightarrow> int" where
  "get_scroll s = sint (ucast (trace_scroll (con s) 0) :: u32)"

text \<open>The argument is an \<open>int\<close>.\<close>

definition con_scroll :: "int \<Rightarrow> 'a console_scheme \<Rightarrow> 'a console_scheme" where
  "con_scroll to s = s\<lparr>con := con s @ [Screen_scroll (sint (word_of_int to :: u32))]\<rparr>"

definition handle_key :: "(nat \<Rightarrow> u8) \<Rightarrow> u16 \<Rightarrow> 'a kernel_scheme \<Rightarrow> 'a kernel_scheme" where
  "handle_key behind scancode s =
     (let s1 = s\<lparr>io_keyboard_buffer := scancode\<rparr> in
      if io_is_character behind scancode then s1
      else if scancode AND 0xFF = 0x48 then con_scroll (get_scroll s1 - 1) s1
      else if scancode AND 0xFF = 0x50 then con_scroll (get_scroll s1 + 1) s1
      else if scancode AND 0xFF = 0x58 then con_line ''TEST'' s1
      else s1)"

text \<open>One round of the loop; \<open>None\<close> while no key is pressed.\<close>

definition keyboard_round :: "(nat \<Rightarrow> u8) \<Rightarrow> 'a kernel_scheme \<Rightarrow> 'a kernel_scheme option" where
  "keyboard_round behind s =
     map_option (\<lambda>(scancode, k). handle_key behind scancode (s\<lparr>keyboard := k\<rparr>)) (io_keyboard_read (keyboard s))"

end
