(* ===== verification/SchedRing.thy ===== *)
theory SchedRing
  imports Scheduler
begin

text \<open>
  The invariant of the scheduler: the processes form a ring through their \<open>next\<close> pointers, with
  distinct addresses and process ids, each in a block of the kernel heap of its own. Every
  operation keeps it, the searches along the ring end, and the timer serves the processes in turn.
\<close>

section \<open>What the memory managers leave alone\<close>

definition remaps :: "'a vmm_scheme \<Rightarrow> 'a vmm_scheme \<Rightarrow> bool" where
  "remaps s t \<longleftrightarrow> t = s\<lparr>ram := ram t, tables := tables t\<rparr>"

lemma remapsI: "remaps s (s\<lparr>ram := r, tables := tb\<rparr>)"
  by (simp add: remaps_def)

lemma remapsE:
  assumes "remaps s t"
  obtains r tb where "t = s\<lparr>ram := r, tables := tb\<rparr>"
  using assms that unfolding remaps_def by blast

lemma remaps_refl [simp]: "remaps s s"
  by (simp add: remaps_def)

lemma remaps_trans [trans]:
  assumes "remaps s t" "remaps t u"
  shows "remaps s u"
proof -
  obtain r tb where t: "t = s\<lparr>ram := r, tables := tb\<rparr>" using assms(1) by (rule remapsE)
  obtain r' tb' where "u = t\<lparr>ram := r', tables := tb'\<rparr>" using assms(2) by (rule remapsE)
  then show ?thesis unfolding t by (simp add: remapsI)
qed

lemma remaps_fold: "(\<And>x t. remaps t (f x t)) \<Longrightarrow> remaps s (fold f xs s)"
proof (induction xs arbitrary: s)
  case (Cons x xs)
  have "remaps s (f x s)" by (rule Cons.prems)
  also have "remaps (f x s) (fold f xs (f x s))" by (rule Cons.IH) (rule Cons.prems)
  finally show ?case by simp
qed simp

lemma remaps_set_frame: "remaps s (pmm_set_frame f u s)"
  by (simp add: pmm_set_frame_def remaps_def Let_def)

lemma remaps_free_frame: "remaps s (pmm_free_frame a s)"
  by (simp add: pmm_free_frame_def remaps_set_frame)

lemma remaps_set_entry: "remaps s (set_entry t i e s)"
  by (simp add: set_entry_def remaps_def)

lemma remaps_unmap_page: "remaps s (snd (vmm_unmap_page v s))"
proof (cases "vmm_walk v s")
  case (Some pt)
  then show ?thesis
    using remaps_trans [OF remaps_set_entry remaps_free_frame] remaps_set_entry
    by (auto simp: vmm_unmap_page_def Let_def)
qed (simp add: vmm_unmap_page_def)

lemma remaps_vmm_free: "remaps s (vmm_free a b s)"
  unfolding vmm_free_def vmm_unmap_pages_def by (intro remaps_fold remaps_unmap_page)

lemma remaps_copy_kernel: "remaps s (vmm_copy_kernel_PML4 to from s)"
  unfolding vmm_copy_kernel_PML4_def by (intro remaps_fold remaps_set_entry)

lemma remaps_unmap_page_tables: "remaps s (unmap_page_tables pd s)"
  unfolding unmap_page_tables_def by (intro remaps_fold) (simp add: remaps_unmap_page)

lemma remaps_unmap_directories: "remaps s (unmap_directories pdpt s)"
  unfolding unmap_directories_def
  by (intro remaps_fold) (simp add: remaps_trans [OF remaps_unmap_page_tables remaps_unmap_page] Let_def)

lemma remaps_unmap_PML4: "remaps s (vmm_unmap_PML4 pml4 s)"
  unfolding vmm_unmap_PML4_def
  by (intro remaps_trans [OF remaps_fold remaps_unmap_page])
    (simp add: remaps_trans [OF remaps_unmap_directories remaps_unmap_page] Let_def)

section \<open>Rings\<close>

fun links :: "(u64 \<Rightarrow> process_t) \<Rightarrow> u64 list \<Rightarrow> u64 \<Rightarrow> bool" where
  "links ps [] z \<longleftrightarrow> True"
| "links ps [x] z \<longleftrightarrow> next_process (ps x) = z"
| "links ps (x # y # xs) z \<longleftrightarrow> next_process (ps x) = y \<and> links ps (y # xs) z"

lemma links_append: "links ps (xs @ y # ys) z \<longleftrightarrow> links ps xs y \<and> links ps (y # ys) z"
  by (induction ps xs y rule: links.induct) auto

lemma links_cong: "(\<And>p. p \<in> set xs \<Longrightarrow> next_process (ps p) = next_process (qs p)) \<Longrightarrow> links ps xs z = links qs xs z"
  by (induction ps xs z rule: links.induct) auto

lemma find_loop_eq:
  assumes "links ps xs first" "xs \<noteq> []" "first \<notin> set (tl xs)"
  shows "find_loop ps n first (hd xs) =
    Some (case List.find (\<lambda>p. pid (ps p) = n) xs of None \<Rightarrow> first | Some p \<Rightarrow> p)"
  using assms
proof (induction ps xs first rule: links.induct)
  case (2 ps x z)
  then show ?case by (subst find_loop.simps) simp
next
  case (3 ps x y xs z)
  then show ?case by (subst find_loop.simps) auto
qed simp

lemma find_prev_loop_eq:
  assumes "links ps xs first" "xs \<noteq> []" "first \<notin> set (tl xs)"
  shows "find_prev_loop ps n first (hd xs) =
    Some (case List.find (\<lambda>p. pid (ps (next_process (ps p))) = n) xs of None \<Rightarrow> first | Some p \<Rightarrow> p)"
  using assms
proof (induction ps xs first rule: links.induct)
  case (2 ps x z)
  then show ?case by (subst find_prev_loop.simps) simp
next
  case (3 ps x y xs z)
  then show ?case by (subst find_prev_loop.simps) auto
qed simp

definition pids :: "'a sched_scheme \<Rightarrow> u64 list \<Rightarrow> u32 list" where
  "pids s xs = map (\<lambda>p. pid (procs s p)) xs"

text \<open>The current process is the head of the list.\<close>

definition ring :: "u64 list \<Rightarrow> 'a sched_scheme \<Rightarrow> bool" where
  "ring xs s \<longleftrightarrow> xs \<noteq> [] \<and> distinct xs \<and> hd xs = current_process s \<and> links (procs s) xs (current_process s) \<and>
     distinct (pids s xs) \<and> (\<forall>n\<in>set (pids s xs). n \<le> highest_pid s) \<and>
     kernel_process s \<in> set xs \<and> pid (procs s (kernel_process s)) = 0"

lemma ring_hd:
  assumes "ring xs s"
  shows "xs \<noteq> []" "hd xs = current_process s" "current_process s \<notin> set (tl xs)" "current_process s \<in> set xs"
    "links (procs s) xs (current_process s)" "distinct xs"
  using assms by (cases xs; auto simp: ring_def)+

lemma find_process_ring:
  assumes "ring xs s"
  shows "find_process n s = Some (List.find (\<lambda>p. pid (procs s p) = n) xs)"
proof (cases "List.find (\<lambda>p. pid (procs s p) = n) xs")
  case None
  then have "\<forall>p\<in>set xs. \<not> (\<lambda>p. pid (procs s p) = n) p" by (simp add: find_None_iff)
  then show ?thesis
    using find_loop_eq [of "procs s" xs "current_process s" n] ring_hd [OF assms] None by (simp add: find_process_def)
next
  case (Some p)
  then have "(\<lambda>p. pid (procs s p) = n) p" by (auto simp: find_Some_iff)
  then show ?thesis
    using find_loop_eq [of "procs s" xs "current_process s" n] ring_hd [OF assms] Some by (simp add: find_process_def)
qed

lemma find_previous_process_ring:
  assumes "ring xs s"
  shows "find_previous_process n s = Some (List.find (\<lambda>p. pid (procs s (next_process (procs s p))) = n) xs)"
proof (cases "List.find (\<lambda>p. pid (procs s (next_process (procs s p))) = n) xs")
  case None
  then have "\<forall>p\<in>set xs. \<not> (\<lambda>p. pid (procs s (next_process (procs s p))) = n) p" by (simp add: find_None_iff)
  then show ?thesis
    using find_prev_loop_eq [of "procs s" xs "current_process s" n] ring_hd [OF assms] None by (simp add: find_previous_process_def)
next
  case (Some p)
  then have "(\<lambda>p. pid (procs s (next_process (procs s p))) = n) p" by (auto simp: find_Some_iff)
  then show ?thesis
    using find_prev_loop_eq [of "procs s" xs "current_process s" n] ring_hd [OF assms] Some by (simp add: find_previous_process_def)
qed

lemma links_snoc: "links ps (xs @ [x]) z \<longleftrightarrow> links ps xs x \<and> next_process (ps x) = z"
  using links_append [of ps xs x "[]" z] by simp

lemma links_map: "links ps xs z \<Longrightarrow> xs \<noteq> [] \<Longrightarrow> map (\<lambda>p. next_process (ps p)) xs = tl xs @ [z]"
  by (induction ps xs z rule: links.induct) auto

lemma links_inj:
  assumes "links ps xs (hd xs)" "distinct xs"
  shows "inj_on (\<lambda>p. next_process (ps p)) (set xs)"
proof (cases "xs = []")
  case False
  then have "distinct (tl xs @ [hd xs])" using assms(2) by (cases xs) auto
  then have "distinct (map (\<lambda>p. next_process (ps p)) xs)" using links_map [OF assms(1) False] by simp
  then show ?thesis by (simp add: distinct_map)
qed simp

lemma find_unique:
  assumes "p \<in> set xs" "P p" "\<And>x. x \<in> set xs \<Longrightarrow> P x \<Longrightarrow> x = p"
  shows "List.find P xs = Some p"
proof (cases "List.find P xs")
  case None
  then show ?thesis using assms(1,2) by (auto simp: find_None_iff)
next
  case (Some x)
  then have "x \<in> set xs" "P x" by (auto simp: find_Some_iff)
  then show ?thesis using Some assms(3) by blast
qed

lemma links_rotate: "links ps (x # xs) x \<Longrightarrow> links ps (xs @ [x]) (hd (xs @ [x]))"
  unfolding links_snoc by (cases xs) auto

lemma rotate_to_last:
  assumes "links ps (us @ q # vs) (hd (us @ q # vs))"
  shows "links ps ((vs @ us) @ [q]) (hd ((vs @ us) @ [q]))"
proof -
  have rot: "links ps (rotate n (us @ q # vs)) (hd (rotate n (us @ q # vs)))" for n
  proof (induction n)
    case (Suc n)
    then show ?case by (cases "rotate n (us @ q # vs)") (auto simp: links_rotate)
  qed (use assms in simp)
  have "rotate (length (us @ [q])) (us @ q # vs) = (vs @ us) @ [q]"
    using rotate_append [of "us @ [q]" vs] by simp
  then show ?thesis using rot [of "length (us @ [q])"] by simp
qed

lemma ring_next:
  assumes "ring xs s" "p \<in> set xs"
  shows "next_process (procs s p) \<in> set xs"
proof -
  obtain us vs where xs: "xs = us @ p # vs" using assms(2) by (meson split_list)
  have "links (procs s) (us @ p # vs) (hd (us @ p # vs))" using assms(1) unfolding xs by (simp add: ring_hd)
  from rotate_to_last [OF this] have "next_process (procs s p) = hd ((vs @ us) @ [p])" by (simp only: links_snoc)
  also have "\<dots> \<in> set ((vs @ us) @ [p])" by (intro hd_in_set) simp
  finally show ?thesis by (auto simp: xs)
qed

section \<open>The invariant\<close>

definition sched_ok :: "u64 list \<Rightarrow> blk set \<Rightarrow> 'a sched_scheme \<Rightarrow> bool" where
  "sched_ok xs A s \<longleftrightarrow> ring xs s \<and> kernel_heap_initialized s \<and> heap_live (kernel_view s) A \<and>
     holds (map (\<lambda>p. (p, sizeof_process)) xs) A \<and>
     (\<forall>p\<in>set xs. is_kernel (process_data s (PML4 (procs s p) - hhdm_offset s)) = (p = kernel_process s))"

lemma ring_cong:
  assumes "procs t = procs s" "highest_pid t = highest_pid s" "current_process t = current_process s"
    "kernel_process t = kernel_process s"
  shows "ring xs t = ring xs s"
  using assms by (simp add: ring_def pids_def)

lemma pids_inj: "ring xs s \<Longrightarrow> p \<in> set xs \<Longrightarrow> q \<in> set xs \<Longrightarrow> pid (procs s p) = pid (procs s q) \<Longrightarrow> p = q"
  by (auto simp: ring_def pids_def distinct_map dest: inj_onD)

text \<open>The predecessor of a process that is not the kernel's, and the ring without the process.\<close>

lemma ring_split:
  assumes "ring xs s" "xs = us @ q # vs" "q \<noteq> kernel_process s"
  defines "ys \<equiv> vs @ us"
  shows "ys \<noteq> []" "set ys = set xs - {q}" "distinct ys" "links (procs s) ys q"
    "next_process (procs s q) = hd ys"
    "List.find (\<lambda>p. pid (procs s (next_process (procs s p))) = pid (procs s q)) xs = Some (last ys)"
proof -
  have cyc: "links (procs s) xs (hd xs)" using assms(1) by (simp add: ring_hd)
  then have "links (procs s) (us @ q # vs) (hd (us @ q # vs))" unfolding assms(2) .
  from rotate_to_last [OF this] have ys: "links (procs s) (ys @ [q]) (hd (ys @ [q]))" unfolding ys_def .
  have d: "distinct (us @ q # vs)" using assms(1,2) by (simp add: ring_def)
  have q: "q \<in> set xs" by (simp add: assms(2))
  have "kernel_process s \<in> set (us @ q # vs)" using assms(1,2) by (simp add: ring_def)
  then show ne: "ys \<noteq> []" using assms(3) by (auto simp: ys_def)
  show set: "set ys = set xs - {q}" "distinct ys" using d by (auto simp: ys_def assms(2))
  show l: "links (procs s) ys q" "next_process (procs s q) = hd ys" using ys ne by (simp_all add: links_snoc)
  have "links (procs s) (butlast ys @ [last ys]) q" using l(1) ne by simp
  then have prev: "next_process (procs s (last ys)) = q" by (simp only: links_snoc)
  have last: "last ys \<in> set xs" using last_in_set [OF ne] set(1) by simp
  show "List.find (\<lambda>p. pid (procs s (next_process (procs s p))) = pid (procs s q)) xs = Some (last ys)"
  proof (rule find_unique [OF last])
    fix x assume x: "x \<in> set xs" "pid (procs s (next_process (procs s x))) = pid (procs s q)"
    have "next_process (procs s x) = q"
      using x(2) by (rule pids_inj [OF assms(1) ring_next [OF assms(1) x(1)] q])
    then show "x = last ys"
      using prev x(1) last inj_onD [OF links_inj [OF cyc ring_hd(6) [OF assms(1)]], of x "last ys"] by simp
  qed (simp add: prev)
qed

lemma links_relink:
  assumes "links ps ys q" "ys \<noteq> []" "distinct ys"
  shows "links (ps(last ys := (ps (last ys))\<lparr>next_process := z\<rparr>)) ys z"
proof -
  have "links (ps(last ys := (ps (last ys))\<lparr>next_process := z\<rparr>)) (butlast ys @ [last ys]) z"
  proof (subst links_snoc, intro conjI)
    have "links ps (butlast ys @ [last ys]) q" using assms by simp
    then have "links ps (butlast ys) (last ys)" by (simp only: links_snoc)
    moreover have "last ys \<notin> set (butlast ys)"
      using assms(2,3) by (metis append_butlast_last_id distinct_append disjoint_iff list.set_intros(1))
    ultimately show "links (ps(last ys := (ps (last ys))\<lparr>next_process := z\<rparr>)) (butlast ys) (last ys)"
      by (subst links_cong [where qs = ps]) auto
  qed simp
  then show ?thesis using assms(2) by simp
qed

section \<open>Ending a process\<close>

text \<open>Two states that the scheduler cannot tell apart.\<close>

definition sched_same :: "'a sched_scheme \<Rightarrow> 'a sched_scheme \<Rightarrow> bool" where
  "sched_same s t \<longleftrightarrow> procs t = procs s \<and> highest_pid t = highest_pid s \<and> current_process t = current_process s \<and>
     kernel_process t = kernel_process s \<and> kernel_heap_initialized t = kernel_heap_initialized s \<and>
     process_data t = process_data s \<and> kernel_view t = kernel_view s \<and> hhdm_offset t = hhdm_offset s"

lemma sched_same_refl [simp]: "sched_same s s"
  by (simp add: sched_same_def)

lemma sched_same_trans: "sched_same s t \<Longrightarrow> sched_same t u \<Longrightarrow> sched_same s u"
  by (simp add: sched_same_def)

lemma sched_ok_same: "sched_same s t \<Longrightarrow> sched_ok xs A t = sched_ok xs A s"
  by (simp add: sched_same_def sched_ok_def ring_def pids_def)

lemma remaps_sched: "remaps s t \<Longrightarrow> sched_same s t \<and> cr3 t = cr3 s \<and> interrupt_flag t = interrupt_flag s"
  by (elim remapsE) (simp add: sched_same_def kernel_view_def)

lemma con_line_sched: "sched_same s (con_line m s) \<and> cr3 (con_line m s) = cr3 s"
  by (simp add: con_line_def con_print_def sched_same_def kernel_view_def)

text \<open>Loading the address space of a process.\<close>

definition switch_to :: "u64 \<Rightarrow> 'a sched_scheme \<Rightarrow> 'a sched_scheme" where
  "switch_to pml4 s = vmm_load_cpu (vmm_set_PML4 pml4 s)"

lemma switch_to_sched: "sched_same s (switch_to pml4 s) \<and> cr3 (switch_to pml4 s) = pml4 - hhdm_offset s \<and>
    current_PML4 (switch_to pml4 s) = pml4"
  by (simp add: switch_to_def vmm_load_cpu_def vmm_set_PML4_def sched_same_def kernel_view_def)

lemma sched_ok_pid: "sched_ok xs A s \<Longrightarrow> q \<in> set xs \<Longrightarrow> q \<noteq> kernel_process s \<Longrightarrow> pid (procs s q) \<noteq> 0"
  using pids_inj [of xs s q "kernel_process s"] by (auto simp: sched_ok_def ring_def)

lemma holds_remove:
  assumes "holds (map (\<lambda>p. (p, sizeof_process)) xs) A" "distinct ys" "set ys \<subseteq> set xs - {q}"
  shows "holds (map (\<lambda>p. (p, sizeof_process)) ys) (A - {(unat q, m)})"
proof -
  have "\<exists>k\<ge>unat sizeof_process. (unat p, k) \<in> A - {(unat q, m)}" if "p \<in> set ys" for p
  proof -
    have "p \<in> set xs" "p \<noteq> q" using that assms(3) by auto
    then have "(p, sizeof_process) \<in> set (map (\<lambda>p. (p, sizeof_process)) xs)" by simp
    from holdsD [OF assms(1) this] \<open>p \<noteq> q\<close> unat_inject [of p q] show ?thesis by auto
  qed
  then show ?thesis using assms(2) by (auto simp: holds_def comp_def)
qed

lemma holds_start:
  assumes "heap_live h A" "(unat q, m) \<in> A"
  shows "unat q \<notin> fst ` (A - {(unat q, m)})"
proof
  assume "unat q \<in> fst ` (A - {(unat q, m)})"
  then obtain b where b: "unat q = fst b" "b \<in> A - {(unat q, m)}" by (elim imageE)
  define k where "k = snd b"
  have k: "(unat q, k) \<in> A" "k \<noteq> m" using b by (cases b; simp add: k_def)+
  have pos: "0 < snd b" if "b \<in> A" for b
    using assms(1) that by (auto simp: heap_live_def payload_def dest: heap_inv_size)
  have "bytes (unat q, m) \<inter> bytes (unat q, k) = {}"
    using kheap.live_disjoint [OF assms(1)] assms(2) k by (auto simp: disjoint_blocks_def pairwise_def)
  moreover have "unat q \<in> bytes (unat q, m) \<inter> bytes (unat q, k)"
    using pos [OF assms(2)] pos [OF k(1)] by (simp add: bytes_def)
  ultimately show False by simp
qed

text \<open>The part of the scheduler's state that a removal leaves alone.\<close>

definition same_process :: "process_t \<Rightarrow> process_t \<Rightarrow> bool" where
  "same_process p q \<longleftrightarrow> q = p\<lparr>next_process := next_process q\<rparr>"

lemma same_process_refl [simp]: "same_process p p"
  by (simp add: same_process_def)

lemma same_process_next [simp]: "same_process p (p\<lparr>next_process := z\<rparr>)"
  by (simp add: same_process_def)

lemma same_processD: "same_process p q \<Longrightarrow> pid q = pid p \<and> regs q = regs p \<and> PML4 q = PML4 p \<and> pending_signals q = pending_signals p"
  unfolding same_process_def by (metis process_t.select_convs process_t.surjective process_t.update_convs(5))

lemma unlink_ok:
  assumes ok: "sched_ok xs A s" and q: "q \<in> set xs" "q \<noteq> kernel_process s"
    and ys: "ys \<noteq> []" "set ys = set xs - {q}" "distinct ys" "links (procs s) ys q" "next_process (procs s q) = hd ys"
    and t: "procs t = (procs s)(last ys := (procs s (last ys))\<lparr>next_process := hd ys\<rparr>)"
      "current_process t = hd ys" "highest_pid t = highest_pid s" "kernel_process t = kernel_process s"
      "kernel_heap_initialized t" "process_data t = process_data s" "hhdm_offset t = hhdm_offset s"
      "heap_live (kernel_view t) B" "holds (map (\<lambda>p. (p, sizeof_process)) ys) B"
  shows "sched_ok ys B t"
proof -
  have r: "ring xs s" using ok by (simp add: sched_ok_def)
  have same: "same_process (procs s p) (procs t p)" for p by (simp add: t(1))
  have pids: "pids t ys = map (\<lambda>p. pid (procs s p)) ys"
    using same_processD [OF same] by (simp add: pids_def)
  have "inj_on (\<lambda>p. pid (procs s p)) (set xs)" using r by (simp add: ring_def pids_def distinct_map)
  then have "inj_on (\<lambda>p. pid (procs s p)) (set ys)" using ys(2) by (auto intro: inj_on_subset)
  then have "distinct (pids t ys)" using ys(3) by (simp add: pids distinct_map)
  moreover have "links (procs t) ys (hd ys)" unfolding t(1) by (rule links_relink [OF ys(4,1,3)])
  moreover have "\<forall>n\<in>set (pids t ys). n \<le> highest_pid t"
    unfolding pids t(3) using r ys(2) by (auto simp: ring_def pids_def [of s xs])
  moreover have "kernel_process t \<in> set ys" "pid (procs t (kernel_process t)) = 0"
    using r q ys(2) same_processD [OF same] by (auto simp: t(4) ring_def)
  ultimately have "ring ys t" using ys t(2) by (simp add: ring_def)
  moreover have "is_kernel (process_data t (PML4 (procs t p) - hhdm_offset t)) = (p = kernel_process t)" if "p \<in> set ys" for p
    using ok that ys(2) same_processD [OF same [of p]] by (auto simp: t(4,6,7) sched_ok_def)
  ultimately show ?thesis using t by (simp add: sched_ok_def)
qed

lemma remove_process_returns:
  assumes ok: "sched_ok xs A s" and xs: "xs = us @ q # vs" and qk: "q \<noteq> kernel_process s"
  obtains B t where "process_scheduler_remove_process (pid (procs s q)) s = Some (Ok True t)" "sched_ok (vs @ us) B t"
    "kernel_process t = kernel_process s" "\<forall>p. same_process (procs s p) (procs t p)" "highest_pid t = highest_pid s"
    "hhdm_offset t = hhdm_offset s" "B \<subseteq> A" "unat q \<notin> fst ` B"
proof -
  define n where "n = pid (procs s q)"
  define ys where "ys = vs @ us"
  have q: "q \<in> set xs" "q \<noteq> kernel_process s" using xs qk by simp_all
  have n: "n \<noteq> 0" using sched_ok_pid [OF ok q] by (simp add: n_def)
  have r: "ring xs s" and init: "kernel_heap_initialized s" and live: "heap_live (kernel_view s) A"
    and h: "holds (map (\<lambda>p. (p, sizeof_process)) xs) A"
    using ok by (simp_all add: sched_ok_def)
  note ys = ring_split [OF r xs qk, folded ys_def, folded n_def]
  have "links (procs s) (butlast ys @ [last ys]) q" using ys(1,4) by simp
  then have prev: "next_process (procs s (last ys)) = q" by (simp only: links_snoc)
  have f: "find_previous_process n s = Some (Some (last ys))" using find_previous_process_ring [OF r] ys(6) by simp
  obtain m where m: "(unat q, m) \<in> A" using holdsD [OF h, of q sizeof_process] q(1) by auto
  define s1 where "s1 = switch_to (PML4 (procs s q)) s"
  define s2 where "s2 = vmm_free data_addr (HEAP_START + heap_size (data s1) - 1) s1"
  define s3 where "s3 = switch_to (process_scheduler_get_kernel_PML4 s2) s2"
  define s4 where "s4 = vmm_unmap_PML4 (PML4 (procs s3 q)) s3"
  have e1: "sched_same s s1" "cr3 s1 = PML4 (procs s q) - hhdm_offset s" using switch_to_sched by (auto simp: s1_def)
  have e2: "sched_same s s2"
    using sched_same_trans [OF e1(1)] remaps_sched [OF remaps_vmm_free] by (auto simp: s2_def)
  have e3: "sched_same s s3" "cr3 s3 = PML4 (procs s (kernel_process s)) - hhdm_offset s"
    using sched_same_trans [OF e2] switch_to_sched [of s2] e2
    by (auto simp: s3_def sched_same_def process_scheduler_get_kernel_PML4_def)
  have e4: "sched_same s s4" "cr3 s4 = cr3 s3"
    using sched_same_trans [OF e3(1)] remaps_sched [OF remaps_unmap_PML4] by (auto simp: s4_def)
  have "\<not> is_kernel (data s1)" using ok q e1 by (auto simp: data_def sched_same_def sched_ok_def)
  then have u: "allocator_unmap_heap s1 = Ok () s2"
    using init e1(1) by (simp add: allocator_unmap_heap_def s2_def sched_same_def)
  have "kernel_process s \<in> set xs" using r by (simp add: ring_def)
  then have k: "is_kernel (data s4)" using ok e4 e3(2) by (simp add: data_def sched_same_def sched_ok_def)
  obtain fh where fh: "free_internal q (kernel_view s) = Some fh" "heap_live fh (A - {(unat q, m)})"
    using kheap.release_live [OF live m] by blast
  define s5 where "s5 = put_kernel_view fh s4"
  have fr: "free q s4 = Some (Ok () s5)"
    using init k e4(1) fh(1) by (simp add: free_def s5_def sched_same_def)
  define t where "t = (set_proc (last ys) ((procs s5 (last ys))\<lparr>next_process := hd ys\<rparr>) s5)\<lparr>current_process := hd ys\<rparr>"
  have p5: "procs s5 = procs s" "highest_pid s5 = highest_pid s" "kernel_process s5 = kernel_process s"
    "process_data s5 = process_data s" "hhdm_offset s5 = hhdm_offset s" "kernel_heap_initialized s5" "kernel_view s5 = fh"
    using e4(1) init by (simp_all add: s5_def put_kernel_view_def sched_same_def kernel_view_def)
  have "process_scheduler_remove_process n s = Some (Ok True t)"
    unfolding process_scheduler_remove_process_def
    using n f fr u prev ys(5)
    by (simp add: Let_def s1_def [unfolded switch_to_def, symmetric] s3_def [unfolded switch_to_def, symmetric]
        s4_def [symmetric] t_def)
  moreover have "sched_ok ys (A - {(unat q, m)}) t"
    using fh(2) holds_remove [OF h ys(3), of q m] ys(2) p5
    by (intro unlink_ok [OF ok q ys(1-5)]) (simp_all add: t_def set_proc_def kernel_view_def)
  ultimately show thesis
    using p5 holds_start [OF live m]
    by (intro that [of t "A - {(unat q, m)}"]) (auto simp: n_def t_def ys_def set_proc_def)
qed

section \<open>Signals\<close>

definition fatal :: "u32 \<Rightarrow> bool" where
  "fatal sigs \<longleftrightarrow> sigs AND SIG_ABRT \<noteq> 0 \<or> sigs AND SIG_KILL \<noteq> 0"

text \<open>The processes that end when it is their turn; the kernel's own cannot be removed.\<close>

definition doomed :: "'a sched_scheme \<Rightarrow> u64 \<Rightarrow> bool" where
  "doomed s p \<longleftrightarrow> fatal (pending_signals (procs s p)) \<and> p \<noteq> kernel_process s"

definition clear_signals :: "u64 \<Rightarrow> 'a sched_scheme \<Rightarrow> 'a sched_scheme" where
  "clear_signals p s = set_proc p ((procs s p)\<lparr>pending_signals := 0\<rparr>) s"

lemma procs_clear_signals: "procs (clear_signals p s) x = (procs s x)\<lparr>pending_signals := if x = p then 0 else pending_signals (procs s x)\<rparr>"
  by (simp add: clear_signals_def set_proc_def)

lemma clear_signals_other [simp]:
  "highest_pid (clear_signals p s) = highest_pid s" "current_process (clear_signals p s) = current_process s"
  "kernel_process (clear_signals p s) = kernel_process s" "hhdm_offset (clear_signals p s) = hhdm_offset s"
  "process_data (clear_signals p s) = process_data s" "kernel_view (clear_signals p s) = kernel_view s"
  "kernel_heap_initialized (clear_signals p s) = kernel_heap_initialized s"
  by (simp_all add: clear_signals_def set_proc_def kernel_view_def)

lemma sched_ok_procs:
  assumes "\<And>x. pid (procs t x) = pid (procs s x) \<and> next_process (procs t x) = next_process (procs s x) \<and> PML4 (procs t x) = PML4 (procs s x)"
    "highest_pid t = highest_pid s" "current_process t = current_process s" "kernel_process t = kernel_process s"
    "hhdm_offset t = hhdm_offset s" "process_data t = process_data s" "kernel_view t = kernel_view s"
    "kernel_heap_initialized t = kernel_heap_initialized s"
  shows "sched_ok xs A t = sched_ok xs A s"
proof -
  have "links (procs t) xs z = links (procs s) xs z" for z using assms(1) by (intro links_cong) simp
  then show ?thesis using assms by (simp add: sched_ok_def ring_def pids_def)
qed

lemma sched_ok_clear_signals: "sched_ok xs A (clear_signals p s) = sched_ok xs A s"
  by (rule sched_ok_procs) (simp_all add: procs_clear_signals)

lemma remove_kernel: "pid (procs s p) = 0 \<Longrightarrow> process_scheduler_remove_process (pid (procs s p)) s = Some (Ok False s)"
  by (simp add: process_scheduler_remove_process_def)

lemma handle_signals_spared:
  assumes "sched_ok xs A s" "\<not> doomed s p"
  shows "handle_signals p s = Some (Ok False (clear_signals p s))"
proof (cases "fatal (pending_signals (procs s p))")
  case True
  then have "pid (procs s p) = 0" using assms by (auto simp: doomed_def sched_ok_def ring_def)
  then have "process_scheduler_remove_process (pid (procs (clear_signals p s) p)) (clear_signals p s) =
      Some (Ok False (clear_signals p s))" by (intro remove_kernel) (simp add: procs_clear_signals)
  then show ?thesis by (simp add: handle_signals_def clear_signals_def [symmetric] handle_fatal_def Let_def)
next
  case False
  then show ?thesis by (simp add: handle_signals_def clear_signals_def [symmetric] handle_fatal_def Let_def fatal_def)
qed

lemma handle_signals_doomed:
  assumes ok: "sched_ok (p # xs) A s" and p: "doomed s p"
  obtains B t where "handle_signals p s = Some (Ok True t)" "sched_ok xs B t"
    "kernel_process t = kernel_process s" "\<forall>x. x \<noteq> p \<longrightarrow> same_process (procs s x) (procs t x)"
    "highest_pid t = highest_pid s" "hhdm_offset t = hhdm_offset s"
proof -
  define s1 where "s1 = clear_signals p s"
  have ok1: "sched_ok (p # xs) A s1" using ok by (simp add: s1_def sched_ok_clear_signals)
  have k: "p \<noteq> kernel_process s1" "fatal (pending_signals (procs s p))" using p by (simp_all add: s1_def doomed_def)
  have l: "p # xs = [] @ p # xs" by simp
  obtain B t where
    t: "process_scheduler_remove_process (pid (procs s1 p)) s1 = Some (Ok True t)" "sched_ok (xs @ []) B t"
    "kernel_process t = kernel_process s1" "\<forall>p. same_process (procs s1 p) (procs t p)" "highest_pid t = highest_pid s1"
    "hhdm_offset t = hhdm_offset s1"
    by (rule remove_process_returns [OF ok1 l k(1)])
  define u where "u = con_line (if pending_signals (procs s p) AND SIG_ABRT \<noteq> 0 then ''SIGABRT'' else ''SIGKILL'') t"
  have same: "sched_same t u" by (simp add: u_def con_line_sched)
  show thesis
  proof (rule that [of u B])
    show "handle_signals p s = Some (Ok True u)"
      using k(2) t(1) by (simp add: handle_signals_def clear_signals_def [symmetric] s1_def [symmetric] handle_fatal_def
          Let_def fatal_def u_def split: if_splits)
    show "sched_ok xs B u" using t(2) sched_ok_same [OF same] by simp
    show "\<forall>x. x \<noteq> p \<longrightarrow> same_process (procs s x) (procs u x)"
    proof (intro allI impI)
      fix x assume "x \<noteq> p"
      then show "same_process (procs s x) (procs u x)"
        using t(4) [THEN spec, of x] same by (simp add: s1_def procs_clear_signals sched_same_def)
    qed
  qed (use t(3,5,6) same in \<open>simp_all add: sched_same_def s1_def\<close>)
qed

section \<open>The switch\<close>

text \<open>
  The ring after a tick: the head moves on, and as long as the new head is to be removed, the ring
  goes on without it.
\<close>

function pick :: "(u64 \<Rightarrow> bool) \<Rightarrow> u64 list \<Rightarrow> u64 list" where
  "pick F xs =
     (if xs = [] then [] else if F (hd (rotate1 xs)) then pick F (tl (rotate1 xs)) else rotate1 xs)"
  by pat_completeness auto
termination
  by (relation "measure (length \<circ> snd)") auto

declare pick.simps [simp del]

lemma advance_ok:
  assumes "sched_ok xs A s"
  shows "sched_ok (rotate1 xs) A (advance s)"
proof -
  have r: "ring xs s" using assms by (simp add: sched_ok_def)
  obtain x r' where xs: "xs = x # r'" using ring_hd(1) [OF r] by (cases xs) auto
  have x: "x = current_process s" using ring_hd(2) [OF r] xs by simp
  have "links (procs s) (x # r') x" using ring_hd(5) [OF r] xs x by simp
  from links_rotate [OF this] have l: "links (procs s) (r' @ [x]) (hd (r' @ [x]))" .
  then have n: "next_process (procs s x) = hd (r' @ [x])" by (simp only: links_snoc)
  have "ring (rotate1 xs) (advance s)"
    using r l n unfolding xs ring_def by (auto simp: advance_def pids_def x [symmetric] simp del: hd_append)
  moreover have "holds (map (\<lambda>p. (p, sizeof_process)) (rotate1 xs)) A"
    using assms by (auto simp: sched_ok_def holds_def xs)
  ultimately show ?thesis using assms by (auto simp: sched_ok_def advance_def kernel_view_def)
qed

lemma doomed_same: "kernel_process t = kernel_process s \<Longrightarrow> same_process (procs s x) (procs t x) \<Longrightarrow> doomed t x = doomed s x"
  using same_processD [of "procs s x" "procs t x"] by (simp add: doomed_def)

lemma pick_cong: "(\<And>x. x \<in> set xs \<Longrightarrow> F x = G x) \<Longrightarrow> pick F xs = pick G xs"
proof (induction F xs rule: pick.induct)
  case (1 F xs)
  show ?case
  proof (cases "xs = []")
    case False
    then have "hd (rotate1 xs) \<in> set xs" by (metis hd_in_set rotate1_is_Nil_conv set_rotate1)
    moreover have "set (tl (rotate1 xs)) \<subseteq> set xs" by (metis list.set_sel(2) rotate1_is_Nil_conv set_rotate1 subsetI False)
    ultimately show ?thesis using 1 False by (auto simp: pick.simps [of F xs] pick.simps [of G xs])
  qed (simp add: pick.simps)
qed

text \<open>Registers, process ids and address spaces stay with the processes; signals are at most cleared.\<close>

definition keeps :: "u64 list \<Rightarrow> 'a sched_scheme \<Rightarrow> 'a sched_scheme \<Rightarrow> bool" where
  "keeps xs s t \<longleftrightarrow> kernel_process t = kernel_process s \<and> highest_pid t = highest_pid s \<and> hhdm_offset t = hhdm_offset s \<and>
     (\<forall>p\<in>set xs. pid (procs t p) = pid (procs s p) \<and> regs (procs t p) = regs (procs s p) \<and>
        PML4 (procs t p) = PML4 (procs s p) \<and> pending_signals (procs t p) \<in> {0, pending_signals (procs s p)})"

lemma keeps_trans:
  assumes "keeps xs s t" "keeps ys t u" "set ys \<subseteq> set xs"
  shows "keeps ys s u"
proof -
  have "pending_signals (procs u p) \<in> {0, pending_signals (procs s p)}" if "p \<in> set ys" for p
  proof -
    have "p \<in> set xs" using assms(3) that by blast
    then have "pending_signals (procs t p) \<in> {0, pending_signals (procs s p)}" using assms(1) by (simp add: keeps_def)
    moreover have "pending_signals (procs u p) \<in> {0, pending_signals (procs t p)}" using assms(2) that by (simp add: keeps_def)
    ultimately show ?thesis by auto
  qed
  then show ?thesis using assms by (simp add: keeps_def subset_iff)
qed

lemma next_loop_refines:
  "sched_ok xs A s \<Longrightarrow> \<exists>B t. next_loop s = Some (Ok () t) \<and> sched_ok (pick (doomed s) xs) B t \<and>
     set (pick (doomed s) xs) \<subseteq> set xs \<and> keeps (pick (doomed s) xs) s t"
proof (induction "length xs" arbitrary: xs A s rule: less_induct)
  case less
  define s1 where "s1 = advance s"
  have ok1: "sched_ok (rotate1 xs) A s1" using advance_ok [OF less.prems] by (simp add: s1_def)
  then have "rotate1 xs \<noteq> []" "hd (rotate1 xs) = current_process s1" by (simp_all add: sched_ok_def ring_def)
  then obtain zs where zs: "rotate1 xs = current_process s1 # zs" by (metis list.collapse)
  have ne: "xs \<noteq> []" using zs by auto
  have sub: "set zs \<subseteq> set xs" unfolding set_rotate1 [of xs, symmetric] zs by auto
  have d: "doomed s1 = doomed s" by (rule ext) (simp add: doomed_def s1_def advance_def)
  show ?case
  proof (cases "doomed s (current_process s1)")
    case False
    then have p: "pick (doomed s) xs = rotate1 xs" using ne zs by (subst pick.simps) simp
    have "handle_signals (current_process s1) s1 = Some (Ok False (clear_signals (current_process s1) s1))"
      using False d by (intro handle_signals_spared [OF ok1]) simp
    then have "next_loop s = Some (Ok () (clear_signals (current_process s1) s1))"
      by (subst next_loop.simps) (simp add: s1_def)
    moreover have "keeps (rotate1 xs) s (clear_signals (current_process s1) s1)"
      by (auto simp: keeps_def procs_clear_signals s1_def advance_def)
    moreover have "sched_ok (rotate1 xs) A (clear_signals (current_process s1) s1)"
      using ok1 by (simp only: sched_ok_clear_signals)
    ultimately show ?thesis unfolding p set_rotate1 by blast
  next
    case True
    then have p: "pick (doomed s) xs = pick (doomed s) zs" using ne zs by (subst pick.simps) simp
    have dm: "doomed s1 (current_process s1)" using True d by simp
    obtain B t where t: "handle_signals (current_process s1) s1 = Some (Ok True t)" "sched_ok zs B t"
      "kernel_process t = kernel_process s1" "\<forall>x. x \<noteq> current_process s1 \<longrightarrow> same_process (procs s1 x) (procs t x)"
      "highest_pid t = highest_pid s1" "hhdm_offset t = hhdm_offset s1"
      by (rule handle_signals_doomed [OF ok1 [unfolded zs] dm])
    have nl: "next_loop s = next_loop t" using t(1) by (subst next_loop.simps) (simp add: s1_def)
    have notin: "current_process s1 \<notin> set zs" using ok1 zs by (simp add: sched_ok_def ring_def)
    have same: "same_process (procs s1 x) (procs t x)" if "x \<in> set zs" for x using t(4) that notin by metis
    have dt: "pick (doomed t) zs = pick (doomed s) zs"
      using doomed_same [OF t(3) same] d by (intro pick_cong) simp
    have "length zs < length xs" using zs by (metis length_Cons length_rotate1 lessI)
    from less.hyps [OF this t(2)] obtain C u where u: "next_loop t = Some (Ok () u)"
      "sched_ok (pick (doomed s) zs) C u" "set (pick (doomed s) zs) \<subseteq> set zs" "keeps (pick (doomed s) zs) t u"
      unfolding dt by blast
    have "pid (procs t x) = pid (procs s x) \<and> regs (procs t x) = regs (procs s x) \<and> PML4 (procs t x) = PML4 (procs s x) \<and>
        pending_signals (procs t x) = pending_signals (procs s x)"
      if "x \<in> set zs" for x
      using same_processD [OF same [OF that]] by (simp add: s1_def advance_def)
    then have "keeps zs s t" using t(3,5,6) by (simp add: keeps_def s1_def advance_def)
    then have k: "keeps (pick (doomed s) zs) s u" using u(4,3) by (rule keeps_trans)
    have "set (pick (doomed s) zs) \<subseteq> set xs" using u(3) sub by (rule subset_trans)
    then show ?thesis unfolding p nl using u(1,2) k by blast
  qed
qed

end
