(* ===== verification/SchedProps.thy ===== *)
theory SchedProps
  imports SchedRing
begin

text \<open>
  The properties of the scheduler: searching, creating and ending processes, the context switch as
  a refinement of an operation on lists, its fairness, and the invariant of every reachable state.
\<close>

section \<open>Creating a process\<close>

lemma link_ok:
  assumes ok: "sched_ok (c # r) A s" and new: "p \<notin> set (c # r)" and hp: "highest_pid s < - 1"
    and v: "pid v = highest_pid s + 1" "next_process v = next_process (procs s c)"
      "\<not> is_kernel (process_data s (PML4 v - hhdm_offset s))"
    and t: "procs t = (procs s)(p := v, c := (procs s c)\<lparr>next_process := p\<rparr>)"
      "current_process t = c" "highest_pid t = highest_pid s + 1" "kernel_process t = kernel_process s"
      "kernel_heap_initialized t" "process_data t = process_data s" "hhdm_offset t = hhdm_offset s"
      "heap_live (kernel_view t) B" "holds (map (\<lambda>p. (p, sizeof_process)) (c # p # r)) B"
  shows "sched_ok (c # p # r) B t"
proof -
  have ring: "ring (c # r) s" using ok by (simp add: sched_ok_def)
  have cp: "c \<noteq> p" "p \<notin> set r" "c \<notin> set r" using new ring by (auto simp: ring_def)
  have old: "same_process (procs s q) (procs t q)" if "q \<noteq> p" for q using that by (simp add: t(1))
  have tp: "procs t p = v" using cp(1) by (simp add: t(1))
  have le: "\<forall>n\<in>set (pids s (c # r)). n \<le> highest_pid s" using ring unfolding ring_def by blast
  have up: "highest_pid s < highest_pid s + 1"
  proof -
    have "unat (highest_pid s) < unat (- 1 :: u32)" using hp by (simp only: word_less_nat_alt)
    then have "unat (highest_pid s) < 4294967295" by (simp add: unsigned_minus_1_eq_mask mask_eq_exp_minus_1)
    then have "unat (highest_pid s + 1) = Suc (unat (highest_pid s))" by (subst unat_word_ariths) simp
    then show ?thesis by (simp add: word_less_nat_alt)
  qed
  have oldpids: "pid (procs t q) = pid (procs s q)" if "q \<in> set (c # r)" for q
  proof -
    have "q \<noteq> p" using that new by auto
    then show ?thesis using same_processD [OF old] by blast
  qed
  have pids: "pids t (c # p # r) = pid (procs s c) # (highest_pid s + 1) # map (\<lambda>q. pid (procs s q)) r"
    using oldpids tp v(1) by (simp add: pids_def)
  have "highest_pid s + 1 \<notin> set (pids s (c # r))" using le up by (meson leD)
  moreover have "distinct (pids s (c # r))" using ring unfolding ring_def by blast
  ultimately have "distinct (pids t (c # p # r))" unfolding pids by (auto simp: pids_def [of s])
  moreover have "\<forall>n\<in>set (pids t (c # p # r)). n \<le> highest_pid t"
    using le up unfolding pids t(3) by (auto simp: pids_def [of s] intro: less_imp_le dest: order.strict_trans1)
  moreover have "links (procs t) (c # p # r) c"
  proof -
    have next_r: "next_process (procs t q) = next_process (procs s q)" if "q \<in> set r" for q
      using that cp by (auto simp: t(1))
    have l: "links (procs s) (c # r) c" using ring_hd(2,5) [OF ring] by simp
    have "links (procs t) r c" if "r \<noteq> []"
      using l that next_r by (subst links_cong [where qs = "procs s"]) (cases r; auto)+
    then show ?thesis using l tp v(2) by (cases r) (auto simp: t(1) cp(1))
  qed
  moreover have "kernel_process t \<in> set (c # p # r)" "pid (procs t (kernel_process t)) = 0"
    using ring oldpids by (auto simp: t(4) ring_def)
  ultimately have "ring (c # p # r) t" using cp ring t(2) by (simp add: ring_def)
  moreover have "is_kernel (process_data t (PML4 (procs t q) - hhdm_offset t)) = (q = kernel_process t)"
    if "q \<in> set (c # p # r)" for q
  proof (cases "q = p")
    case True
    then show ?thesis using v(3) new ring by (auto simp: tp t(4,6,7) ring_def)
  next
    case False
    then show ?thesis
      using ok that same_processD [OF old [OF False]] by (auto simp: t(4,6,7) sched_ok_def)
  qed
  ultimately show ?thesis using t by (simp add: sched_ok_def)
qed

lemma add_process_returns:
  assumes ok: "sched_ok (c # r) A s" and cr3: "cr3 s = PML4 (procs s (kernel_process s)) - hhdm_offset s"
    and hp: "highest_pid s < - 1" and data: "\<not> is_kernel (process_data s (pml4 - hhdm_offset s))"
  shows "(\<exists>t fh. malloc_internal sizeof_process (kernel_view s) = Some (0, fh) \<and>
      process_scheduler_add_process start pml4 kern s = Some (Halted t)) \<or>
    (\<exists>p B t fh. malloc_internal sizeof_process (kernel_view s) = Some (p, fh) \<and> p \<noteq> 0 \<and>
      process_scheduler_add_process start pml4 kern s = Some (Ok (highest_pid s + 1) t) \<and>
      sched_ok (c # p # r) B t \<and> p \<notin> set (c # r) \<and> pid (procs t p) = highest_pid s + 1 \<and> PML4 (procs t p) = pml4 \<and>
      regs (procs t p) = new_regs start kern \<and> (\<forall>q. q \<noteq> p \<longrightarrow> same_process (procs s q) (procs t q)) \<and> interrupt_flag t)"
proof -
  have r: "ring (c # r) s" and init: "kernel_heap_initialized s" and live: "heap_live (kernel_view s) A"
    and h: "holds (map (\<lambda>p. (p, sizeof_process)) (c # r)) A"
    using ok unfolding sched_ok_def by blast+
  have "kernel_process s \<in> set (c # r)" using r unfolding ring_def by blast
  then have k: "is_kernel (data s)" using ok unfolding sched_ok_def data_def cr3 by blast
  define s0 where "s0 = s\<lparr>interrupt_flag := False\<rparr>"
  have view: "kernel_view s0 = kernel_view s" "is_kernel (data s0)" "kernel_heap_initialized s0"
    using k init by (simp_all add: s0_def kernel_view_def data_def)
  have sz: "0 < unat sizeof_process" "unat sizeof_process + 23 < 2 ^ 64" by (simp_all add: sizeof_process_def)
  obtain p fh where m: "malloc_internal sizeof_process (kernel_view s) = Some (p, fh)"
    and cases: "p = 0 \<and> heap_live fh A \<or>
      (\<exists>m\<ge>unat sizeof_process. p \<noteq> 0 \<and> heap_live fh (insert (unat p, m) A) \<and> unat p \<notin> fst ` A)"
    using kheap.alloc_live [OF live sz] by blast
  note malloc_p = m
  define s1 where "s1 = put_kernel_view fh s0"
  have ml: "malloc sizeof_process s0 = Some (Ok p s1)" using view m by (simp add: malloc_def s1_def)
  show ?thesis
  proof (cases "p = 0")
    case True
    then have "process_scheduler_add_process start pml4 kern s = Some (Halted s1)"
      using ml by (simp add: process_scheduler_add_process_def s0_def)
    then show ?thesis using m True by blast
  next
    case False
    then obtain m where m: "unat sizeof_process \<le> m" "heap_live fh (insert (unat p, m) A)" "unat p \<notin> fst ` A"
      using cases by blast
    have h': "holds ((p, sizeof_process) # map (\<lambda>p. (p, sizeof_process)) (c # r)) (insert (unat p, m) A)"
      by (rule holds_Cons [OF h m(1,3)])
    then have new: "p \<notin> set (c # r)" unfolding holds_def by (simp add: comp_def)
    define v where "v = \<lparr>pid = highest_pid s + 1, regs = new_regs start kern, pending_signals = 0, PML4 = pml4,
        next_process = next_process (procs s c)\<rparr>"
    define t where "t = s1\<lparr>procs := (procs s)(p := v, c := (procs s c)\<lparr>next_process := p\<rparr>),
        highest_pid := highest_pid s + 1, interrupt_flag := True\<rparr>"
    have cur: "current_process s = c" using ring_hd(2) [OF r] by simp
    have cp: "c \<noteq> p" using new by auto
    have f1: "procs s1 = procs s" "highest_pid s1 = highest_pid s" "current_process s1 = c" "kernel_process s1 = kernel_process s"
      "process_data s1 = process_data s" "hhdm_offset s1 = hhdm_offset s" "kernel_heap_initialized s1" "kernel_view s1 = fh"
      using init by (simp_all add: s1_def s0_def put_kernel_view_def kernel_view_def cur)
    have add: "process_scheduler_add_process start pml4 kern s = Some (Ok (highest_pid s + 1) t)"
      using ml False cp
      by (simp add: process_scheduler_add_process_def s0_def [symmetric] f1 Let_def set_proc_def t_def v_def)
    have kv: "kernel_view t = fh" using f1(8) by (simp add: t_def kernel_view_def)
    have "holds (map (\<lambda>p. (p, sizeof_process)) (c # p # r)) (insert (unat p, m) A)"
      using h' unfolding holds_def by auto
    then have "sched_ok (c # p # r) (insert (unat p, m) A) t"
      using data m(2) kv by (intro link_ok [OF ok new hp, where v = v]) (simp_all add: v_def t_def f1)
    moreover have "procs t p = v" "\<forall>q. q \<noteq> p \<longrightarrow> same_process (procs s q) (procs t q)" "interrupt_flag t"
      using cp by (auto simp: t_def)
    ultimately show ?thesis
      using add new malloc_p False
      by (intro disjI2 exI [of _ p] exI [of _ "insert (unat p, m) A"] exI [of _ t] exI [of _ fh]) (simp add: v_def)
  qed
qed

section \<open>The context switch\<close>

lemma pick_nonempty: "xs \<noteq> [] \<Longrightarrow> (\<exists>x\<in>set xs. \<not> F x) \<Longrightarrow> pick F xs \<noteq> [] \<and> \<not> F (hd (pick F xs))"
proof (induction F xs rule: pick.induct)
  case (1 F xs)
  obtain y ys where y: "rotate1 xs = y # ys" using 1(2) by (cases "rotate1 xs") auto
  have set: "set xs = insert y (set ys)" using set_rotate1 [of xs] y by simp
  show ?case
  proof (cases "F y")
    case True
    then have "\<exists>x\<in>set ys. \<not> F x" using 1(3) set by auto
    moreover from this have "ys \<noteq> []" by auto
    ultimately have "pick F ys \<noteq> [] \<and> \<not> F (hd (pick F ys))" using 1(1) [OF 1(2)] True y by simp
    then show ?thesis using True y 1(2) by (simp add: pick.simps [of F xs])
  next
    case False
    then show ?thesis using y 1(2) by (simp add: pick.simps [of F xs])
  qed
qed

lemma next_process_returns:
  assumes ok: "sched_ok xs A s"
  defines "ys \<equiv> pick (doomed s) xs"
  obtains B t where "process_scheduler_next_process r s =
      Some (Ok (if hd ys = hd xs then r else regs (procs s (hd ys))) t)"
    "sched_ok ys B t" "set ys \<subseteq> set xs" "kernel_process t = kernel_process s" "hhdm_offset t = hhdm_offset s"
    "\<forall>p\<in>set ys. pid (procs t p) = pid (procs s p) \<and> PML4 (procs t p) = PML4 (procs s p) \<and>
       regs (procs t p) = (if p = hd xs then r else regs (procs s p)) \<and>
       pending_signals (procs t p) \<in> {0, pending_signals (procs s p)}"
    "current_PML4 t = PML4 (procs s (hd ys))" "cr3 t = PML4 (procs s (hd ys)) - hhdm_offset s"
proof -
  have rg: "ring xs s" using ok by (simp add: sched_ok_def)
  define s1 where "s1 = set_proc (hd xs) ((procs s (hd xs))\<lparr>regs := r\<rparr>) s"
  have p1: "procs s1 p = (procs s p)\<lparr>regs := if p = hd xs then r else regs (procs s p)\<rparr>" for p
    by (simp add: s1_def set_proc_def)
  have f1: "highest_pid s1 = highest_pid s" "current_process s1 = current_process s" "kernel_process s1 = kernel_process s"
    "hhdm_offset s1 = hhdm_offset s" "process_data s1 = process_data s" "kernel_view s1 = kernel_view s"
    "kernel_heap_initialized s1 = kernel_heap_initialized s"
    by (simp_all add: s1_def set_proc_def kernel_view_def)
  define s2 where "s2 = switch_to (process_scheduler_get_kernel_PML4 s1) s1"
  have e2: "sched_same s1 s2" by (simp add: s2_def switch_to_sched)
  have "sched_ok xs A s1" using ok by (subst sched_ok_procs [where s = s]) (simp_all add: p1 f1)
  then have ok2: "sched_ok xs A s2" by (simp only: sched_ok_same [OF e2])
  have dm: "doomed s2 = doomed s" using e2 by (intro ext) (simp add: doomed_def sched_same_def p1 f1)
  obtain B t where t: "next_loop s2 = Some (Ok () t)" "sched_ok ys B t" "set ys \<subseteq> set xs" "keeps ys s2 t"
    using next_loop_refines [OF ok2] unfolding dm ys_def by blast
  have cur: "current_process t = hd ys" "ys \<noteq> []" using t(2) by (simp_all add: sched_ok_def ring_def)
  have hd: "hd ys \<in> set ys" using cur(2) by simp
  have pt: "pid (procs t p) = pid (procs s p) \<and> PML4 (procs t p) = PML4 (procs s p) \<and>
       regs (procs t p) = (if p = hd xs then r else regs (procs s p)) \<and>
       pending_signals (procs t p) \<in> {0, pending_signals (procs s p)}" if "p \<in> set ys" for p
    using t(4) e2 that by (simp add: keeps_def sched_same_def p1)
  define s4 where "s4 = vmm_copy_kernel_PML4 (process_scheduler_get_current_PML4 t) (process_scheduler_get_kernel_PML4 t) t"
  define s5 where "s5 = switch_to (process_scheduler_get_current_PML4 s4) s4"
  have e4: "sched_same t s4" by (simp add: s4_def remaps_sched [OF remaps_copy_kernel])
  have e5: "sched_same t s5" unfolding s5_def by (rule sched_same_trans [OF e4]) (simp add: switch_to_sched)
  have pml4: "process_scheduler_get_current_PML4 s4 = PML4 (procs s (hd ys))"
    using e4 pt [OF hd] cur(1) by (simp add: process_scheduler_get_current_PML4_def sched_same_def)
  have off: "hhdm_offset s4 = hhdm_offset s" "kernel_process t = kernel_process s"
    using e4 e2 t(4) by (simp_all add: sched_same_def keeps_def f1)
  have p5: "procs s5 = procs t" "current_process s5 = hd ys" "kernel_process s5 = kernel_process s" "hhdm_offset s5 = hhdm_offset s"
    using e5 cur(1) off e4 by (simp_all add: sched_same_def)
  have run: "process_scheduler_next_process r s = Some (Ok (regs (procs s5 (hd ys))) s5)"
    using t(1) p5(2)
    by (simp add: process_scheduler_next_process_def Let_def ring_hd(2) [OF rg, symmetric] s1_def [symmetric] s2_def [unfolded switch_to_def, symmetric]
        s4_def [symmetric] s5_def [unfolded switch_to_def, symmetric])
  show thesis
  proof (rule that [of s5 B])
    show "process_scheduler_next_process r s = Some (Ok (if hd ys = hd xs then r else regs (procs s (hd ys))) s5)"
      using run pt [OF hd] p5(1) by simp
    show "sched_ok ys B s5" using t(2) by (simp only: sched_ok_same [OF e5])
    show "current_PML4 s5 = PML4 (procs s (hd ys))" "cr3 s5 = PML4 (procs s (hd ys)) - hhdm_offset s"
      using switch_to_sched [of s4] off(1) by (simp_all add: s5_def pml4)
  qed (use t(3) p5 pt in \<open>simp_all\<close>)
qed

section \<open>Operations on any process id\<close>

lemma remove_process_any:
  assumes ok: "sched_ok xs A s"
  shows "\<exists>t ys B. process_scheduler_remove_process n s = Some (Ok (n \<noteq> 0 \<and> n \<in> set (pids s xs)) t) \<and> sched_ok ys B t"
proof (cases "n \<noteq> 0 \<and> n \<in> set (pids s xs)")
  case True
  then obtain q where q: "q \<in> set xs" "pid (procs s q) = n" by (auto simp: pids_def)
  then have "q \<noteq> kernel_process s" using True ok by (auto simp: sched_ok_def ring_def)
  moreover obtain us vs where "xs = us @ q # vs" using q(1) by (meson split_list)
  ultimately obtain B t where "process_scheduler_remove_process (pid (procs s q)) s = Some (Ok True t)" "sched_ok (vs @ us) B t"
    using remove_process_returns [OF ok] by metis
  then show ?thesis using q(2) True by auto
next
  case False
  have r: "ring xs s" using ok by (simp add: sched_ok_def)
  have "process_scheduler_remove_process n s = Some (Ok False s)"
  proof (cases "n = 0")
    case True
    then show ?thesis by (simp add: process_scheduler_remove_process_def)
  next
    case nz: False
    then have "n \<notin> set (pids s xs)" using False by simp
    then have "pid (procs s (next_process (procs s p))) \<noteq> n" if "p \<in> set xs" for p
      using ring_next [OF r that] by (auto simp: pids_def)
    then have "List.find (\<lambda>p. pid (procs s (next_process (procs s p))) = n) xs = None"
      by (simp add: find_None_iff)
    then show ?thesis
      using nz find_previous_process_ring [OF r, of n] by (simp add: process_scheduler_remove_process_def)
  qed
  then have "process_scheduler_remove_process n s = Some (Ok (n \<noteq> 0 \<and> n \<in> set (pids s xs)) s)" by (simp add: False)
  then show ?thesis using ok by blast
qed

lemma exit_returns:
  assumes "sched_ok xs A s"
  shows "\<exists>t ys B. process_scheduler_exit r s = Some (Ok (regs (procs t (current_process t))) t) \<and> sched_ok ys B t"
proof -
  obtain t ys B b where "process_scheduler_remove_process (pid (procs s (current_process s))) s = Some (Ok b t)"
    "sched_ok ys B t" using remove_process_any [OF assms] by blast
  then show ?thesis by (intro exI [of _ t] exI [of _ ys] exI [of _ B]) (simp add: process_scheduler_exit_def)
qed

lemma send_signals_returns:
  assumes "sched_ok xs A s"
  shows "\<exists>t. process_scheduler_send_signals n sg s = Some t \<and> sched_ok xs A t"
proof (cases "List.find (\<lambda>p. pid (procs s p) = n) xs")
  case None
  then show ?thesis
    using assms find_process_ring [of xs s n] by (simp add: process_scheduler_send_signals_def sched_ok_def)
next
  case (Some p)
  define t where "t = set_proc p ((procs s p)\<lparr>pending_signals := pending_signals (procs s p) OR sg\<rparr>) s"
  have "process_scheduler_send_signals n sg s = Some t"
    using assms find_process_ring [of xs s n] Some by (simp add: process_scheduler_send_signals_def sched_ok_def t_def)
  moreover have "sched_ok xs A t"
    using assms by (subst sched_ok_procs [where s = s]) (simp_all add: t_def set_proc_def kernel_view_def)
  ultimately show ?thesis by blast
qed

section \<open>The first process\<close>

definition quiet :: "'a vmm_scheme \<Rightarrow> 'a vmm_scheme \<Rightarrow> bool" where
  "quiet s t \<longleftrightarrow> t = s\<lparr>con := con t, ram := ram t, tables := tables t\<rparr>"

lemma quietE:
  assumes "quiet s t"
  obtains c r tb where "t = s\<lparr>con := c, ram := r, tables := tb\<rparr>"
  using assms that unfolding quiet_def by blast

lemma quietI: "quiet s (s\<lparr>con := c, ram := r, tables := tb\<rparr>)"
  by (simp add: quiet_def)

lemma quiet_trans:
  assumes "quiet s t" "quiet t u"
  shows "quiet s u"
proof -
  obtain c r tb where t: "t = s\<lparr>con := c, ram := r, tables := tb\<rparr>" using assms(1) by (rule quietE)
  obtain c' r' tb' where "u = t\<lparr>con := c', ram := r', tables := tb'\<rparr>" using assms(2) by (rule quietE)
  then show ?thesis unfolding t by (simp add: quietI)
qed

lemma remaps_quiet: "remaps s t \<Longrightarrow> quiet s t"
  by (elim remapsE) (simp add: quiet_def)

lemma quiet_con_line: "quiet s (con_line m s)"
  by (simp add: con_line_def con_print_def quiet_def)

lemma remaps_alloc_frame: "remaps s (snd (pmm_alloc_frame s))"
  by (auto simp: pmm_alloc_frame_def remaps_set_frame split: option.splits)

lemma remaps_zero_table: "remaps s (zero_table t s)"
  by (simp add: zero_table_def remaps_def)

lemma remaps_reserve_frame: "remaps s (snd (pmm_reserve_frame a s))"
  by (simp add: pmm_reserve_frame_def remaps_set_frame)

lemma remaps_next_table: "remaps s (snd (vmm_next_table tb i s))"
proof (cases "entry_present (tables s tb i)")
  case False
  obtain frame s1 where f: "pmm_alloc_frame s = (frame, s1)" by force
  have s1: "remaps s s1" using remaps_alloc_frame [of s] f by simp
  show ?thesis
    using False f s1 remaps_trans [OF s1 remaps_trans [OF remaps_zero_table remaps_set_entry]]
    by (simp add: vmm_next_table_def Let_def)
qed (simp add: vmm_next_table_def)

lemma remaps_map_leaf: "remaps s (snd (vmm_map_leaf pt i phys flags s))"
proof -
  have "remaps s (snd (if pmm_is_reserved phys s then (True, s) else pmm_reserve_frame phys s))"
    by (simp add: remaps_reserve_frame)
  moreover obtain b s1 where "(if pmm_is_reserved phys s then (True, s) else pmm_reserve_frame phys s) = (b, s1)" by force
  ultimately show ?thesis
    using remaps_trans [of s s1, OF _ remaps_set_entry] by (cases b) (auto simp: vmm_map_leaf_def)
qed

lemma remaps_map_page: "remaps s (snd (vmm_map_page v phys flags s))"
proof -
  obtain o1 s1 where 1: "vmm_next_table (current_PML4 s) (PML4_INDEX v) s = (o1, s1)" by force
  obtain o2 s2 where 2: "vmm_next_table (the o1) (PDPT_INDEX v) s1 = (o2, s2)" by force
  obtain o3 s3 where 3: "vmm_next_table (the o2) (PD_INDEX v) s2 = (o3, s3)" by force
  have r1: "remaps s s1" using remaps_next_table [of s "current_PML4 s" "PML4_INDEX v"] 1 by simp
  have r2: "remaps s s2" using remaps_trans [OF r1] remaps_next_table [of s1 "the o1" "PDPT_INDEX v"] 2 by simp
  have r3: "remaps s s3" using remaps_trans [OF r2] remaps_next_table [of s2 "the o2" "PD_INDEX v"] 3 by simp
  show ?thesis
    using 1 2 3 r1 r2 remaps_trans [OF r3 remaps_map_leaf] r3
    by (cases o1; cases o2; cases o3) (simp_all add: vmm_map_page_def)
qed

lemma remaps_alloc_pages: "remaps s (snd (vmm_alloc_pages start flags is s))"
proof (induction "is" arbitrary: s)
  case (Cons i "is")
  obtain frame s1 where f: "pmm_alloc_frame s = (frame, s1)" by force
  obtain b s2 where m: "vmm_map_page (page_at start i) frame flags s1 = (b, s2)" by force
  have r1: "remaps s s1" using remaps_alloc_frame [of s] f by simp
  have r2: "remaps s s2" using remaps_trans [OF r1] remaps_map_page [of s1 "page_at start i" frame flags] m by simp
  show ?case
    using f m r1 remaps_trans [OF r2 Cons.IH] remaps_trans [OF r2 remaps_free_frame]
    by (cases b) (simp_all add: Let_def)
qed simp

lemma remaps_vmm_alloc: "remaps s (snd (vmm_alloc a b flags s))"
proof -
  obtain f s1 where f: "vmm_alloc_pages a flags [0..<page_amount a b] s = (f, s1)" by force
  have r: "remaps s s1" using remaps_alloc_pages [of s a flags "[0..<page_amount a b]"] f by simp
  have "remaps s (vmm_unmap_pages a n s1)" for n
    unfolding vmm_unmap_pages_def by (intro remaps_trans [OF r] remaps_fold remaps_unmap_page)
  then show ?thesis using f r by (simp add: vmm_alloc_def split: option.splits)
qed

lemma map_heap_fields:
  fixes u :: "'a sched_scheme"
  assumes "map_heap sz True u = (True, t)"
  shows "cr3 t = cr3 u" "hhdm_offset t = hhdm_offset u" "highest_pid t = highest_pid u"
proof -
  obtain ok s1 where a: "vmm_alloc HEAP_START_KERNEL (HEAP_START_KERNEL + sz - 1) VMM_FLAGS_KERNEL_RW u = (ok, s1)" by force
  have "remaps u s1"
    using remaps_vmm_alloc [of u HEAP_START_KERNEL "HEAP_START_KERNEL + sz - 1" VMM_FLAGS_KERNEL_RW] a by simp
  then have s1: "cr3 s1 = cr3 u" "hhdm_offset s1 = hhdm_offset u" "highest_pid s1 = highest_pid u"
    by (elim remapsE; simp)+
  have "ok" using assms a by (cases ok) (simp_all add: map_heap_def Let_def)
  then have "t = con_line ''[allocator] allocator heap init''
      ((init_lists sz True (con_line ''[allocator] mapped heap pages'' s1))\<lparr>kernel_heap_initialized := True\<rparr>)"
    using assms a by (simp add: map_heap_def Let_def)
  then show "cr3 t = cr3 u" "hhdm_offset t = hhdm_offset u" "highest_pid t = highest_pid u"
    using s1 by (simp_all add: init_lists_def set_kernel_block_def set_data_def con_line_def con_print_def)
qed

lemma kernel_heap_init:
  fixes s :: "'a sched_scheme"
  assumes "allocator_heap_init HEAP_SIZE True s = Ok True t"
  shows "cr3 t = cr3 s" "hhdm_offset t = hhdm_offset s" "highest_pid t = highest_pid s"
    "is_kernel (data t)" "kernel_heap_initialized t"
    "heap_inv (unat HEAP_START_KERNEL) (unat HEAP_START_KERNEL + unat HEAP_SIZE) (kernel_view t)
       [(unat HEAP_START_KERNEL, unat HEAP_SIZE)] {}"
proof -
  obtain ok1 s1 where a1: "vmm_alloc data_addr (data_addr + PAGE_SIZE - 1) VMM_FLAGS_KERNEL_RW s = (ok1, s1)" by force
  define s2 where "s2 = con_line ''[allocator] mapped allocator data page'' s1"
  obtain ok3 s3 where a3: "vmm_alloc kernel_data_addr (kernel_data_addr + PAGE_SIZE - 1) VMM_FLAGS_KERNEL_RW s2 = (ok3, s3)"
    by force
  define s4 where "s4 = con_line ''[allocator] mapped kernel allocator data page'' s3"
  have "remaps s s1" using remaps_vmm_alloc [of s data_addr "data_addr + PAGE_SIZE - 1" VMM_FLAGS_KERNEL_RW] a1 by simp
  moreover have "remaps s2 s3"
    using remaps_vmm_alloc [of s2 kernel_data_addr "kernel_data_addr + PAGE_SIZE - 1" VMM_FLAGS_KERNEL_RW] a3 by simp
  ultimately have q: "quiet s s4"
    unfolding s4_def s2_def by (meson quiet_con_line quiet_trans remaps_quiet)
  have ini: "\<not> kernel_heap_initialized s" using assms by (auto simp: allocator_heap_init_def panic_def split: if_splits)
  then have "ok1" using assms a1 by (cases ok1) (simp_all add: allocator_heap_init_def Let_def)
  moreover from this ini have "ok3" using assms a1 a3 by (cases ok3) (simp_all add: allocator_heap_init_def Let_def s2_def)
  ultimately have m: "map_heap HEAP_SIZE True s4 = (True, t)"
    using assms a1 a3 ini by (auto simp: allocator_heap_init_def Let_def s2_def s4_def split: prod.splits)
  show "cr3 t = cr3 s" "hhdm_offset t = hhdm_offset s" "highest_pid t = highest_pid s"
    unfolding map_heap_fields [OF m] using q by (elim quietE; simp)+
  have "24 \<le> unat HEAP_SIZE" "8 dvd unat HEAP_SIZE" "unat HEAP_SIZE < 2 ^ 40" by (simp_all add: HEAP_SIZE_def)
  from map_heap_inv [OF this m] show "is_kernel (data t)" "kernel_heap_initialized t"
    "heap_inv (unat HEAP_START_KERNEL) (unat HEAP_START_KERNEL + unat HEAP_SIZE) (kernel_view t)
       [(unat HEAP_START_KERNEL, unat HEAP_SIZE)] {}"
    by (simp_all add: heap_view_def heap_start_def)
qed

text \<open>Once the kernel heap exists, nothing stops \<open>process_scheduler_init\<close>.\<close>

lemma scheduler_init_ok:
  fixes s :: "'a sched_scheme"
  defines "s0 \<equiv> con_line ''[process_scheduler] initializing heap for kernel:'' s"
  assumes h: "allocator_heap_init HEAP_SIZE True s0 = Ok True s1" and cr3: "cr3 s = kernel_PML4 - hhdm_offset s"
  obtains p A t where "process_scheduler_init kernel_PML4 s = Some (Ok () t)" "sched_ok [p] A t"
    "kernel_process t = p" "PML4 (procs t p) = kernel_PML4" "pid (procs t p) = 0" "hhdm_offset t = hhdm_offset s"
    "highest_pid t = highest_pid s" "cr3 t = cr3 s" "process_data t = process_data s1"
proof -
  note k = kernel_heap_init [OF h]
  define s2 where "s2 = con_line ''[process_scheduler] heap init'' s1"
  have f2: "cr3 s2 = kernel_PML4 - hhdm_offset s2" "is_kernel (data s2)" "kernel_heap_initialized s2" "kernel_view s2 = kernel_view s1"
    "hhdm_offset s2 = hhdm_offset s" "highest_pid s2 = highest_pid s" "process_data s2 = process_data s1" "cr3 s2 = cr3 s"
    using k cr3 by (simp_all add: s2_def s0_def con_line_def con_print_def data_def kernel_view_def)
  have sz: "0 < unat sizeof_process" "unat sizeof_process + 23 < 2 ^ 64" by (simp_all add: sizeof_process_def)
  have fits: "malloc_list (need_of (unat sizeof_process)) [(unat HEAP_START_KERNEL, unat HEAP_SIZE)] \<noteq> None"
    by (simp add: malloc_list_None need_of_def sizeof_process_def HEAP_SIZE_def)
  obtain p fh b bs where m: "malloc_internal sizeof_process (kernel_view s1) = Some (p, fh)" "p \<noteq> 0" "unat p = fst b + 16"
    "heap_inv (unat HEAP_START_KERNEL) (unat HEAP_START_KERNEL + unat HEAP_SIZE) fh bs {b}"
    "need_of (unat sizeof_process) \<le> snd b"
    using fits by (rule_tac heap_inv_alloc_cases [OF k(6) sz]) auto
  define s3 where "s3 = put_kernel_view fh s2"
  have ml: "malloc sizeof_process s2 = Some (Ok p s3)" using f2 m by (simp add: malloc_def s3_def)
  have f3: "process_data s3 = process_data s2" "hhdm_offset s3 = hhdm_offset s2" "kernel_heap_initialized s3" "kernel_view s3 = fh"
    "highest_pid s3 = highest_pid s2" "cr3 s3 = cr3 s2"
    using f2 by (simp_all add: s3_def put_kernel_view_def kernel_view_def)
  define t where "t = con_line ''[process_scheduler] process_scheduler init''
      (con_line ''[process_scheduler] created kernel process''
        ((set_proc p \<lparr>pid = 0, regs = zero_regs, pending_signals = 0, PML4 = kernel_PML4, next_process = p\<rparr>
          (s3\<lparr>current_process := p\<rparr>))\<lparr>kernel_process := p\<rparr>))"
  have i: "process_scheduler_init kernel_PML4 s = Some (Ok () t)"
    using h ml m(2) by (simp add: process_scheduler_init_def s0_def [symmetric] s2_def [symmetric] Let_def t_def)
  have "heap_live fh {payload b}" unfolding heap_live_def using m(4) by (intro exI) auto
  moreover have "fst (payload b) = unat p" "unat sizeof_process \<le> snd (payload b)"
    using m(3,5) by (simp_all add: payload_def need_of_def sizeof_process_def)
  ultimately have "sched_ok [p] {payload b} t"
    using f2 f3 unfolding t_def
    by (cases "payload b")
      (simp add: sched_ok_def ring_def pids_def set_proc_def con_line_def con_print_def kernel_view_def holds_def data_def)
  from that [OF i this] show thesis
    by (simp add: t_def set_proc_def con_line_def con_print_def f2 f3 cr3)
qed

end
