(* ===== verification/SchedBoot.thy ===== *)
theory SchedBoot
  imports SchedProps
begin

text \<open>
  The start of the scheduler, from the physical frames up: on a machine whose page tables are a
  tree and that has enough free frames, the kernel heap is mapped and the kernel becomes the only
  process.
\<close>

section \<open>Mapping the kernel heap\<close>

lemma vmm_alloc_tree:
  assumes "page_tree K s" "0 \<in> used_frames s" "entry_present flags"
    and n: "n = page_amount start end_virt" "n \<le> 2 ^ 36" "4 * n \<le> card (free_frames s)"
    and K: "\<forall>i<n. PML4_INDEX (page_at start i) \<in> K"
    and free: "\<forall>i<n. node s (current_PML4 s) (vpath (page_at start i)) = None"
  obtains s' where "vmm_alloc start end_virt flags s = (True, s')" "page_tree K s'" "0 \<in> used_frames s'"
    "current_PML4 s' = current_PML4 s" "card (free_frames s) \<le> card (free_frames s') + 4 * n"
    "\<forall>q. mpath K q \<longrightarrow> length q = 4 \<longrightarrow> (\<forall>i<n. q \<noteq> vpath (page_at start i)) \<longrightarrow>
       node s' (current_PML4 s) q = node s (current_PML4 s) q"
proof -
  have dist: "distinct (map (\<lambda>i. vpath (page_at start i)) [0..<n])"
    using n(2) by (auto simp: distinct_map intro!: inj_onI dest: vpath_page_at_inj [rotated 2])
  from vmm_alloc_pages_tree [OF assms(1-3) _ _ dist] K free n(3) obtain s' where s':
    "vmm_alloc_pages start flags [0..<n] s = (None, s')" "page_tree K s'" "current_PML4 s' = current_PML4 s"
    "used_frames s \<subseteq> used_frames s'" "card (free_frames s) \<le> card (free_frames s') + 4 * n"
    and other: "\<forall>q. mpath K q \<longrightarrow> length q = 4 \<longrightarrow> q \<notin> (\<lambda>i. vpath (page_at start i)) ` {..<n} \<longrightarrow>
       node s' (current_PML4 s) q = node s (current_PML4 s) q"
    by (auto simp: atLeast0LessThan)
  show thesis
    by (rule that [of s']) (use s' other assms(2) n(1) in \<open>auto simp: vmm_alloc_def image_iff\<close>)
qed

lemma page_tree_con_line:
  "page_tree K (con_line m s) = page_tree K s" "used_frames (con_line m s) = used_frames s"
  "free_frames (con_line m s) = free_frames s" "current_PML4 (con_line m s) = current_PML4 s"
  "node (con_line m s) r q = node s r q"
proof -
  have n: "node (con_line m s) r q = node s r q" for r q
    by (rule node_cong) (simp_all add: con_line_def con_print_def)
  have f: "pmm_get_frame f (con_line m s) = pmm_get_frame f s" for f
    by (simp add: pmm_get_frame_def bitmap_addr_def con_line_def con_print_def)
  show u: "used_frames (con_line m s) = used_frames s" by (simp add: used_frames_def f)
  show "free_frames (con_line m s) = free_frames s"
    by (simp add: free_frames_def u) (simp add: con_line_def con_print_def)
  show "current_PML4 (con_line m s) = current_PML4 s" by (simp add: con_line_def con_print_def)
  then show "page_tree K (con_line m s) = page_tree K s"
    unfolding page_tree_def node_frame_def n u by (simp add: con_line_def con_print_def)
  show "node (con_line m s) r q = node s r q" by (rule n)
qed

text \<open>The pages the kernel heap occupies: the two pages of allocator data and the heap itself.\<close>

definition heap_pages :: "u64 list" where
  "heap_pages = data_addr # kernel_data_addr # map (page_at HEAP_START_KERNEL) [0..<256]"

lemma heap_page_amounts:
  "page_amount data_addr (data_addr + PAGE_SIZE - 1) = 1"
  "page_amount kernel_data_addr (kernel_data_addr + PAGE_SIZE - 1) = 1"
  "page_amount HEAP_START_KERNEL (HEAP_START_KERNEL + HEAP_SIZE - 1) = 256"
  by (simp_all add: page_amount_def data_addr_def kernel_data_addr_def HEAP_START_def HEAP_START_KERNEL_def
      PAGE_SIZE_def HEAP_SIZE_def)

lemma heap_vpns:
  "vpn data_addr = 22906492243" "vpn kernel_data_addr = 53955526655"
  "i < 256 \<Longrightarrow> vpn (page_at HEAP_START_KERNEL i) = 53955526656 + i"
proof -
  show "vpn data_addr = 22906492243" "vpn kernel_data_addr = 53955526655"
    by (simp_all add: vpn_def data_addr_def kernel_data_addr_def HEAP_START_def HEAP_START_KERNEL_def PAGE_SIZE_def)
  assume "i < 256"
  have "unat HEAP_START_KERNEL div 4096 + i = 53955526656 + i + 65535 * 2 ^ 36" by (simp add: HEAP_START_KERNEL_def)
  then have "vpn (page_at HEAP_START_KERNEL i) = (53955526656 + i) mod 2 ^ 36"
    unfolding vpn_page_at by (simp only: mod_mult_self1)
  with \<open>i < 256\<close> show "vpn (page_at HEAP_START_KERNEL i) = 53955526656 + i" by simp
qed

lemma PML4_vpn: "PML4_INDEX v = vpn v div 134217728"
  using vpath_vpn(1) [of v] by simp

lemma heap_PML4_index:
  "PML4_INDEX data_addr = 170" "PML4_INDEX kernel_data_addr = 401"
  "i < 256 \<Longrightarrow> PML4_INDEX (page_at HEAP_START_KERNEL i) = 402"
  by (simp_all add: PML4_vpn heap_vpns)

lemma kernel_heap_maps:
  fixes s :: "'a allocator_scheme"
  assumes tree: "page_tree K s" "0 \<in> used_frames s" and K: "{170, 401, 402} \<subseteq> K" and mem: "1032 \<le> card (free_frames s)"
    and free: "\<forall>v\<in>set heap_pages. \<not> vmm_is_mapped v s" and init: "\<not> kernel_heap_initialized s"
  shows "\<exists>t. allocator_heap_init HEAP_SIZE True s = Ok True t"
proof -
  let ?r = "current_PML4 s"
  have fl: "entry_present VMM_FLAGS_KERNEL_RW" by (simp add: entry_present_def VMM_FLAGS_KERNEL_RW_def)
  have none: "node s ?r (vpath v) = None" if "v \<in> set heap_pages" for v
    using free that by (simp add: vmm_is_mapped_translation translation_def)
  have at: "page_at v 0 = v" for v by (simp add: page_at_def)
  obtain s1 where s1: "vmm_alloc data_addr (data_addr + PAGE_SIZE - 1) VMM_FLAGS_KERNEL_RW s = (True, s1)" "page_tree K s1"
    "0 \<in> used_frames s1" "current_PML4 s1 = ?r" "1028 \<le> card (free_frames s1)"
    "\<forall>q. mpath K q \<longrightarrow> length q = 4 \<longrightarrow> q \<noteq> vpath data_addr \<longrightarrow> node s1 ?r q = node s ?r q"
    by (rule vmm_alloc_tree [OF tree fl heap_page_amounts(1) [symmetric]])
      (use K mem none [of data_addr] in \<open>auto simp: at heap_PML4_index heap_pages_def\<close>)
  define s2 where "s2 = con_line ''[allocator] mapped allocator data page'' s1"
  obtain s3 where s3: "vmm_alloc kernel_data_addr (kernel_data_addr + PAGE_SIZE - 1) VMM_FLAGS_KERNEL_RW s2 = (True, s3)"
    "page_tree K s3" "0 \<in> used_frames s3" "current_PML4 s3 = ?r" "1024 \<le> card (free_frames s3)"
    "\<forall>q. mpath K q \<longrightarrow> length q = 4 \<longrightarrow> q \<noteq> vpath kernel_data_addr \<longrightarrow> node s3 ?r q = node s1 ?r q"
    by (rule vmm_alloc_tree [of K s2, OF _ _ fl heap_page_amounts(2) [symmetric]])
      (use K s1 none [of kernel_data_addr] in
        \<open>auto simp: s2_def page_tree_con_line at heap_PML4_index heap_pages_def vpath_eq_iff heap_vpns\<close>)
  define s4 where "s4 = con_line ''[allocator] mapped kernel allocator data page'' s3"
  have "node s3 ?r (vpath (page_at HEAP_START_KERNEL i)) = None" if "i < 256" for i
    using s3(6) s1(6) K that none [of "page_at HEAP_START_KERNEL i"]
    by (simp add: heap_PML4_index heap_pages_def vpath_eq_iff heap_vpns)
  then obtain s5 where "vmm_alloc HEAP_START_KERNEL (HEAP_START_KERNEL + HEAP_SIZE - 1) VMM_FLAGS_KERNEL_RW s4 = (True, s5)"
    by (rule_tac vmm_alloc_tree [of K s4, OF _ _ fl heap_page_amounts(3) [symmetric]])
      (use K s3 in \<open>auto simp: s4_def page_tree_con_line heap_PML4_index\<close>)
  then show ?thesis
    using init s1(1) s3(1) by (simp add: allocator_heap_init_def map_heap_def Let_def s2_def s4_def)
qed

end
