(* ===== verification/SchedTheorems.thy ===== *)
theory SchedTheorems
  imports SchedBoot
begin

text \<open>
  The properties of the scheduler: its start, the context switch as a refinement of an operation on
  lists, fairness, and the invariant of every state the kernel can reach.
\<close>

section \<open>Turns\<close>

lemma pick_rotate: "\<forall>p\<in>set xs. \<not> F p \<Longrightarrow> pick F xs = rotate1 xs"
  by (subst pick.simps) (cases xs; cases "tl xs"; auto)

lemma next_process_ok:
  assumes "sched_ok xs A s"
  defines "ys \<equiv> pick (doomed s) xs"
  shows "\<exists>B t. process_scheduler_next_process r s =
      Some (Ok (if hd ys = hd xs then r else regs (procs s (hd ys))) t) \<and> sched_ok ys B t \<and>
    kernel_process t = kernel_process s \<and>
    (\<forall>p\<in>set ys. pid (procs t p) = pid (procs s p) \<and> PML4 (procs t p) = PML4 (procs s p) \<and>
       regs (procs t p) = (if p = hd xs then r else regs (procs s p)) \<and>
       pending_signals (procs t p) \<in> {0, pending_signals (procs s p)}) \<and>
    current_PML4 t = PML4 (procs s (hd ys)) \<and> cr3 t = PML4 (procs s (hd ys)) - hhdm_offset s"
  unfolding ys_def by (rule next_process_returns [OF assms(1), of r]) (intro exI conjI; assumption)

text \<open>A sequence of timer interrupts: the registers each one interrupts and those it resumes.\<close>

fun ticks :: "cpu_state_t list \<Rightarrow> 'a sched_scheme \<Rightarrow> (cpu_state_t list \<times> 'a sched_scheme) option" where
  "ticks [] s = Some ([], s)"
| "ticks (r # rs) s =
     (case process_scheduler_next_process r s of
        Some (Ok r' t) \<Rightarrow> map_option (\<lambda>(os, u). (r' # os, u)) (ticks rs t)
      | _ \<Rightarrow> None)"

lemma rotate1_next:
  assumes "xs \<noteq> []" "k < length xs"
  shows "rotate1 xs ! k = (if Suc k < length xs then xs ! Suc k else hd xs)"
  using assms by (cases xs) (auto simp: nth_append)

lemma mod_Suc_rotate:
  assumes "xs \<noteq> []"
  shows "rotate1 xs ! (n mod length xs) = xs ! (Suc n mod length xs)"
proof -
  have n: "n mod length xs < length xs" using assms by simp
  then have "Suc (n mod length xs) < length xs \<or> Suc (n mod length xs) = length xs" by linarith
  then show ?thesis unfolding rotate1_next [OF assms n] mod_Suc using assms by (auto simp: hd_conv_nth)
qed

definition resumed :: "u64 list \<Rightarrow> (u64 \<Rightarrow> process_t) \<Rightarrow> cpu_state_t list \<Rightarrow> nat \<Rightarrow> cpu_state_t" where
  "resumed xs ps rs k = (if k + 1 < length xs then regs (ps (xs ! (k + 1))) else rs ! (k + 1 - length xs))"

lemma resumed_Suc:
  assumes "distinct xs" "xs \<noteq> []"
    and t: "\<forall>p\<in>set xs. regs (qs p) = (if p = hd xs then r else regs (ps p))"
  shows "resumed (rotate1 xs) qs rs k = resumed xs ps (r # rs) (Suc k)"
proof (cases "k + 1 < length xs")
  case True
  have n: "rotate1 xs ! (k + 1) = (if k + 2 < length xs then xs ! (k + 2) else hd xs)"
    using rotate1_next [OF assms(2) True] by simp
  have "xs ! (k + 2) \<noteq> hd xs \<and> xs ! (k + 2) \<in> set xs" if "k + 2 < length xs"
    using that assms(1,2) nth_eq_iff_index_eq [of xs "k + 2" 0] by (simp add: hd_conv_nth)
  then show ?thesis using True n t assms(2) by (auto simp: resumed_def)
next
  case False
  then show ?thesis by (simp add: resumed_def Suc_diff_le)
qed

lemma ticks_turns:
  assumes "sched_ok xs A s" "\<forall>p\<in>set xs. \<not> doomed s p"
  shows "\<exists>os t. ticks rs s = Some (os, t) \<and> length os = length rs \<and> current_process t = xs ! (length rs mod length xs) \<and>
    (\<forall>k<length rs. os ! k = resumed xs (procs s) rs k)"
  using assms
proof (induction rs arbitrary: xs A s)
  case Nil
  then show ?case by (auto simp: sched_ok_def ring_def hd_conv_nth)
next
  case (Cons r rs)
  have pick: "pick (doomed s) xs = rotate1 xs" using Cons.prems(2) by (rule pick_rotate)
  have xs: "xs \<noteq> []" "distinct xs" using Cons.prems(1) by (simp_all add: sched_ok_def ring_def)
  obtain B t where t: "process_scheduler_next_process r s =
      Some (Ok (if hd (rotate1 xs) = hd xs then r else regs (procs s (hd (rotate1 xs)))) t)"
    "sched_ok (rotate1 xs) B t" "kernel_process t = kernel_process s"
    "\<forall>p\<in>set xs. regs (procs t p) = (if p = hd xs then r else regs (procs s p)) \<and>
       pending_signals (procs t p) \<in> {0, pending_signals (procs s p)}"
    using next_process_ok [OF Cons.prems(1), of r] unfolding pick set_rotate1 by blast
  have "\<not> doomed t p" if "p \<in> set (rotate1 xs)" for p
  proof -
    have "pending_signals (procs t p) \<in> {0, pending_signals (procs s p)}" "\<not> doomed s p"
      using that t(4) Cons.prems(2) by simp_all
    then show ?thesis using t(3) by (auto simp: doomed_def fatal_def)
  qed
  then have spared: "\<forall>p\<in>set (rotate1 xs). \<not> doomed t p" by blast
  from Cons.IH [OF t(2) spared] obtain os u where u: "ticks rs t = Some (os, u)" "length os = length rs"
    "current_process u = rotate1 xs ! (length rs mod length xs)"
    "\<forall>k<length rs. os ! k = resumed (rotate1 xs) (procs t) rs k" unfolding length_rotate1 by blast
  define o1 where "o1 = (if hd (rotate1 xs) = hd xs then r else regs (procs s (hd (rotate1 xs))))"
  have o1: "o1 = resumed xs (procs s) (r # rs) 0"
    using xs by (cases xs; cases "tl xs") (auto simp: o1_def resumed_def)
  have rest: "os ! k = resumed xs (procs s) (r # rs) (Suc k)" if "k < length rs" for k
    using u(4) that resumed_Suc [OF xs(2,1), of "procs t" r "procs s" rs k] t(4) by simp
  have "ticks (r # rs) s = Some (o1 # os, u)" using t(1) u(1) by (simp add: o1_def)
  moreover have "(o1 # os) ! k = resumed xs (procs s) (r # rs) k" if "k < length (r # rs)" for k
    using that o1 rest by (cases k) simp_all
  ultimately show ?case using u(2,3) mod_Suc_rotate [OF xs(1)] by auto
qed

section \<open>Reachable states\<close>

text \<open>
  What the rest of the kernel and the processes may do in between: anything that leaves the process
  structures, the kernel heap and the kind of every heap alone.
\<close>

definition elsewhere :: "'a sched_scheme \<Rightarrow> 'a sched_scheme \<Rightarrow> bool" where
  "elsewhere s t \<longleftrightarrow> procs t = procs s \<and> highest_pid t = highest_pid s \<and> current_process t = current_process s \<and>
     kernel_process t = kernel_process s \<and> kernel_heap_initialized t = kernel_heap_initialized s \<and>
     (\<forall>c. is_kernel (process_data t c) = is_kernel (process_data s c)) \<and> kernel_view t = kernel_view s \<and>
     hhdm_offset t = hhdm_offset s"

text \<open>
  A process is created by the kernel process, with a page table whose heap is not the kernel's,
  before the process ids wrap around.
\<close>

inductive sched_reach :: "'a sched_scheme \<Rightarrow> 'a sched_scheme \<Rightarrow> bool" for s0 where
  start: "process_scheduler_init k s0 = Some (Ok () t) \<Longrightarrow> cr3 s0 = k - hhdm_offset s0 \<Longrightarrow> sched_reach s0 t"
| tick: "sched_reach s0 s \<Longrightarrow> process_scheduler_next_process r s = Some (Ok r' t) \<Longrightarrow> sched_reach s0 t"
| add: "sched_reach s0 s \<Longrightarrow> cr3 s = process_scheduler_get_kernel_PML4 s - hhdm_offset s \<Longrightarrow> highest_pid s < - 1 \<Longrightarrow>
    \<not> is_kernel (process_data s (pml4 - hhdm_offset s)) \<Longrightarrow>
    process_scheduler_add_process start_addr pml4 kern s = Some (Ok n t) \<Longrightarrow> sched_reach s0 t"
| remove: "sched_reach s0 s \<Longrightarrow> process_scheduler_remove_process n s = Some (Ok b t) \<Longrightarrow> sched_reach s0 t"
| exit: "sched_reach s0 s \<Longrightarrow> process_scheduler_exit r s = Some (Ok r' t) \<Longrightarrow> sched_reach s0 t"
| signal: "sched_reach s0 s \<Longrightarrow> process_scheduler_send_signals n sg s = Some t \<Longrightarrow> sched_reach s0 t"
| allocate: "sched_reach s0 s \<Longrightarrow> is_kernel (data s) \<Longrightarrow> 0 < unat sz \<Longrightarrow> unat sz + 23 < 2 ^ 64 \<Longrightarrow>
    malloc sz s = Some (Ok q t) \<Longrightarrow> sched_reach s0 t"
| other: "sched_reach s0 s \<Longrightarrow> elsewhere s t \<Longrightarrow> sched_reach s0 t"

lemma sched_ok_elsewhere: "elsewhere s t \<Longrightarrow> sched_ok xs A s \<Longrightarrow> sched_ok xs A t"
  by (simp add: elsewhere_def sched_ok_def ring_def pids_def)

lemma holds_mono: "holds ps A \<Longrightarrow> A \<subseteq> B \<Longrightarrow> holds ps B"
  unfolding holds_def by blast

lemma sched_ok_malloc:
  assumes "sched_ok xs A s" "is_kernel (data s)" "0 < unat sz" "unat sz + 23 < 2 ^ 64" "malloc sz s = Some (Ok q t)"
  shows "\<exists>B. sched_ok xs B t"
proof -
  have live: "heap_live (kernel_view s) A" and init: "kernel_heap_initialized s"
    using assms(1) by (simp_all add: sched_ok_def)
  obtain p fh where m: "malloc_internal sz (kernel_view s) = Some (p, fh)"
    and "p = 0 \<and> heap_live fh A \<or> (\<exists>m\<ge>unat sz. p \<noteq> 0 \<and> heap_live fh (insert (unat p, m) A) \<and> unat p \<notin> fst ` A)"
    using kheap.alloc_live [OF live assms(3,4)] by blast
  then obtain B where B: "heap_live fh B" "A \<subseteq> B" by blast
  have t: "t = put_kernel_view fh s" using assms(2,5) m init by (simp add: malloc_def)
  have "sched_ok xs B t"
    using assms(1) B holds_mono [OF _ B(2)]
    by (simp add: t sched_ok_def put_kernel_view_def kernel_view_def ring_def pids_def)
  then show ?thesis by blast
qed

lemma sched_reach_ok: "sched_reach s0 s \<Longrightarrow> \<exists>xs A. sched_ok xs A s"
proof (induction rule: sched_reach.induct)
  case (start k t)
  define s' where "s' = con_line ''[process_scheduler] initializing heap for kernel:'' s0"
  obtain s1 where "allocator_heap_init HEAP_SIZE True s' = Ok True s1"
    using start(1) by (cases "allocator_heap_init HEAP_SIZE True s'")
      (auto simp: process_scheduler_init_def s'_def panic_def split: if_splits)
  then obtain p A u where "process_scheduler_init k s0 = Some (Ok () u)" "sched_ok [p] A u"
    unfolding s'_def by (rule scheduler_init_ok [OF _ start(2)])
  then show ?case using start(1) by auto
next
  case (tick s r r' t)
  then obtain xs A where ok: "sched_ok xs A s" by blast
  from next_process_ok [OF ok, of r] show ?case using tick.hyps(2) by auto
next
  case (add s pml4 start_addr kern n t)
  then obtain xs A where ok: "sched_ok xs A s" by blast
  moreover obtain c r where "xs = c # r" using ok by (cases xs) (auto simp: sched_ok_def ring_def)
  ultimately have ok': "sched_ok (c # r) A s" by simp
  from add_process_returns [OF ok' add.hyps(2) [unfolded process_scheduler_get_kernel_PML4_def] add.hyps(3,4), of start_addr kern]
  show ?case using add.hyps(5) by auto
next
  case (remove s n b t)
  then obtain xs A where ok: "sched_ok xs A s" by blast
  from remove_process_any [OF ok, of n] show ?case using remove.hyps(2) by auto
next
  case (exit s r r' t)
  then obtain xs A where ok: "sched_ok xs A s" by blast
  from exit_returns [OF ok, of r] show ?case using exit.hyps(2) by auto
next
  case (signal s n sg t)
  then obtain xs A where ok: "sched_ok xs A s" by blast
  from send_signals_returns [OF ok, of n sg] show ?case using signal.hyps(2) ok by auto
next
  case (allocate s sz q t)
  then obtain xs A where ok: "sched_ok xs A s" by blast
  show ?case using sched_ok_malloc [OF ok allocate.hyps(2-5)] by blast
next
  case (other s t)
  then show ?case using sched_ok_elsewhere by blast
qed

section \<open>Two running processes\<close>

definition two_heap :: "u64 \<times> (u64 \<Rightarrow> block_t)" where
  "two_heap = (4560, (\<lambda>_. \<lparr>block_size = 0, block_next = 0\<rparr>)(4096 := \<lparr>block_size = 232, block_next = 0\<rparr>,
     4328 := \<lparr>block_size = 232, block_next = 0\<rparr>, 4560 := \<lparr>block_size = 3632, block_next = 0\<rparr>))"

definition two_procs :: "u64 \<Rightarrow> process_t" where
  "two_procs = (\<lambda>_. \<lparr>pid = 7, regs = zero_regs, pending_signals = 0, PML4 = 0, next_process = 0\<rparr>)
     (4112 := \<lparr>pid = 0, regs = zero_regs, pending_signals = 0, PML4 = 0xFFFF800000001000, next_process = 4344\<rparr>,
      4344 := \<lparr>pid = 1, regs = new_regs 0x400000 False, pending_signals = 0, PML4 = 0xFFFF800000002000,
        next_process = 4112\<rparr>)"

text \<open>The kernel at address 4112 and a process at 4344 in a kernel heap of one page.\<close>

definition two_processes :: sched where
  "two_processes = gdt_state.extend (fs.extend
       (blank_fs\<lparr>kernel_heap_initialized := True,
          kernel_data := \<lparr>free_list = fst two_heap, is_kernel = True, heap_size = 4096\<rparr>, kernel_blocks := snd two_heap,
          process_data := (\<lambda>_. \<lparr>free_list = 0, is_kernel = False, heap_size = 4096\<rparr>)
            (0x1000 := \<lparr>free_list = 0, is_kernel = True, heap_size = 4096\<rparr>)\<rparr>)
       \<lparr>gdt = replicate 56 0, kernel_tss = zero_tss, gdtr = (0, 0), code_selector = 0, data_selectors = 0,
        task_register = 0\<rparr>)
     \<lparr>procs = two_procs, highest_pid = 1, current_process = 4112, kernel_process = 4112, interrupt_flag = True\<rparr>"

lemma two_heap_inv: "heap_inv 4096 8192 two_heap [(4560, 3632)] {(4096, 232), (4328, 232)}"
  by (auto simp: heap_inv_def two_heap_def free_ok_def block_ok_def disjoint_blocks_def bytes_def pairwise_insert)

lemma two_processes_sel [simp]:
  "procs two_processes = two_procs" "highest_pid two_processes = 1" "current_process two_processes = 4112"
  "kernel_process two_processes = 4112" "kernel_heap_initialized two_processes" "kernel_view two_processes = two_heap"
  "hhdm_offset two_processes = 0xFFFF800000000000" "cr3 two_processes = 0x1000"
  "is_kernel (process_data two_processes c) = (c = 0x1000)" "interrupt_flag two_processes"
  by (simp_all add: two_processes_def gdt_state.extend_def fs.extend_def blank_fs_def allocator.extend_def
      boot_allocator_def vmm.extend_def boot_vmm_def kernel_view_def)

lemma two_processes_ok: "sched_ok [4112, 4344] {(4112, 216), (4344, 216)} two_processes"
proof -
  have "{(4112, 216), (4344, 216)} = payload ` {(4096, 232), (4328, 232)}" by (simp add: payload_def)
  then have "heap_live two_heap {(4112, 216), (4344, 216)}" unfolding heap_live_def using two_heap_inv by metis
  then show ?thesis
    by (simp add: sched_ok_def ring_def pids_def two_procs_def holds_def sizeof_process_def)
qed

lemma two_heap_room: "\<nexists>fh. malloc_internal sizeof_process two_heap = Some (0, fh)"
proof -
  have sz: "0 < unat sizeof_process" "unat sizeof_process + 23 < 2 ^ 64" by (simp_all add: sizeof_process_def)
  have "malloc_list (need_of (unat sizeof_process)) [(4560, 3632)] \<noteq> None"
    by (simp add: malloc_list_None need_of_def sizeof_process_def)
  then show ?thesis by (rule_tac heap_inv_alloc_cases [OF two_heap_inv sz]) auto
qed

lemma two_processes_spared: "\<forall>p\<in>set [4112, 4344]. \<not> doomed two_processes p"
  by (simp add: doomed_def fatal_def two_procs_def)

section \<open>A machine before the scheduler starts\<close>

definition boot_sched :: sched where
  "boot_sched = gdt_state.extend (fs.extend (blank_fs\<lparr>total_frames := 2048\<rparr>)
       \<lparr>gdt = replicate 56 0, kernel_tss = zero_tss, gdtr = (0, 0), code_selector = 0, data_selectors = 0,
        task_register = 0\<rparr>)
     \<lparr>procs = two_procs, highest_pid = 0, current_process = 0, kernel_process = 0, interrupt_flag = False\<rparr>"

lemma boot_sched_sel [simp]:
  "current_PML4 boot_sched = 0xFFFF800000001000" "hhdm_offset boot_sched = 0xFFFF800000000000"
  "total_frames boot_sched = 2048" "tables boot_sched = (\<lambda>_ _. 0)" "cr3 boot_sched = 0x1000"
  "pmm_bitmap boot_sched = 0x5000" "ram boot_sched = (\<lambda>_. 0)(0x5000 := 0x07)" "kernel_heap_initialized boot_sched = False"
  by (simp_all add: boot_sched_def gdt_state.extend_def fs.extend_def blank_fs_def allocator.extend_def
      boot_allocator_def vmm.extend_def boot_vmm_def)

lemma boot_sched_used:
  "f < 8 \<Longrightarrow> f \<in> used_frames boot_sched \<longleftrightarrow> f < 3" "8 \<le> f \<Longrightarrow> f < 2048 \<Longrightarrow> f \<notin> used_frames boot_sched"
proof -
  assume "f < 8"
  then have "f = 0 \<or> f = 1 \<or> f = 2 \<or> f = 3 \<or> f = 4 \<or> f = 5 \<or> f = 6 \<or> f = 7" by presburger
  then show "f \<in> used_frames boot_sched \<longleftrightarrow> f < 3"
    by (auto simp: used_frames_def pmm_get_frame_def bitmap_addr_def)
next
  assume f: "8 \<le> f" "f < 2048"
  define i where "i = f div 8"
  have i: "0 < i" "i < 256" using f by (simp_all add: i_def div_greater_zero_iff less_mult_imp_div_less)
  then have "unat (word_of_nat i :: u64) = i" by (simp add: unat_of_nat)
  then have "(word_of_nat i :: u64) \<noteq> 0" using i(1) by (metis less_irrefl unsigned_0)
  then show "f \<notin> used_frames boot_sched"
    by (simp add: used_frames_def pmm_get_frame_def bitmap_addr_def i_def [symmetric])
qed

lemma boot_sched_ready:
  "page_tree UNIV boot_sched" "0 \<in> used_frames boot_sched" "1032 \<le> card (free_frames boot_sched)"
  "\<forall>v\<in>set heap_pages. \<not> vmm_is_mapped v boot_sched"
proof -
  show "page_tree UNIV boot_sched"
    by (rule page_tree_empty_root) (simp_all add: node_frame_def frame_of_def boot_sched_used)
  show "0 \<in> used_frames boot_sched" by (simp add: boot_sched_used)
  have "{8..<2048} \<subseteq> free_frames boot_sched" using boot_sched_used(2) by (auto simp: free_frames_def)
  from card_mono [OF finite_free_frames this] show "1032 \<le> card (free_frames boot_sched)" by simp
  have "\<not> vmm_is_mapped v boot_sched" for v
    using node_empty_root [of UNIV boot_sched "current_PML4 boot_sched" "vpath v"]
    by (simp add: vmm_is_mapped_translation translation_def vpath_def)
  then show "\<forall>v\<in>set heap_pages. \<not> vmm_is_mapped v boot_sched" by blast
qed

lemma scheduler_starts:
  fixes s :: "'a sched_scheme"
  assumes "page_tree K s" "0 \<in> used_frames s" "{170, 401, 402} \<subseteq> K" "1032 \<le> card (free_frames s)"
    and "\<forall>v\<in>set heap_pages. \<not> vmm_is_mapped v s" "\<not> kernel_heap_initialized s" "cr3 s = k - hhdm_offset s"
  shows "\<exists>p A t. process_scheduler_init k s = Some (Ok () t) \<and> sched_ok [p] A t \<and> kernel_process t = p \<and>
    pid (procs t p) = 0 \<and> PML4 (procs t p) = k \<and> highest_pid t = highest_pid s"
proof -
  let ?s = "con_line ''[process_scheduler] initializing heap for kernel:'' s"
  have "vmm_is_mapped v ?s = vmm_is_mapped v s" for v
    by (simp add: vmm_is_mapped_translation translation_def page_tree_con_line)
  moreover have "\<not> kernel_heap_initialized ?s" using assms(6) by (simp add: con_line_def con_print_def)
  ultimately obtain s1 where "allocator_heap_init HEAP_SIZE True ?s = Ok True s1"
    using kernel_heap_maps [of K ?s] assms by (auto simp: page_tree_con_line)
  from scheduler_init_ok [OF this assms(7)] show ?thesis by metis
qed

section \<open>Properties\<close>

text \<open>
  C7: The context switch refines the abstract scheduler \<open>pick\<close> on the list of processes. It always
  returns; processes with a fatal signal pending that come up are removed; the interrupted registers
  are saved with the interrupted process; the result is the registers saved earlier for the new
  current process, whose page tables the processor then uses; and every process that stays keeps its
  id, page tables and registers.
\<close>
theorem process_scheduler_next_process_refines:
  assumes "sched_ok xs A s"
  shows "\<exists>ys B t. ys = pick (doomed s) xs \<and> sched_ok ys B t \<and> set ys \<subseteq> set xs \<and> \<not> doomed s (hd ys) \<and>
    process_scheduler_next_process r s = Some (Ok (if hd ys = hd xs then r else regs (procs s (hd ys))) t) \<and>
    cr3 t = PML4 (procs s (hd ys)) - hhdm_offset s \<and>
    (\<forall>p\<in>set ys. pid (procs t p) = pid (procs s p) \<and> PML4 (procs t p) = PML4 (procs s p) \<and>
       regs (procs t p) = (if p = hd xs then r else regs (procs s p)))"
proof -
  have "kernel_process s \<in> set xs" "\<not> doomed s (kernel_process s)" "xs \<noteq> []"
    using assms by (simp_all add: sched_ok_def ring_def doomed_def)
  then have hd: "\<not> doomed s (hd (pick (doomed s) xs))" using pick_nonempty by blast
  have sub: "set (pick (doomed s) xs) \<subseteq> set xs" using next_loop_refines [OF assms] by blast
  show ?thesis using next_process_ok [OF assms, of r] hd sub by blast
qed

theorem process_scheduler_next_process_refines_witness:
  "\<exists>t. process_scheduler_next_process zero_regs two_processes = Some (Ok (new_regs 0x400000 False) t) \<and> cr3 t = 0x2000"
proof -
  have p: "pick (doomed two_processes) [4112, 4344] = [4344, 4112]" using pick_rotate [OF two_processes_spared] by simp
  show ?thesis
    using process_scheduler_next_process_refines [OF two_processes_ok, of zero_regs] unfolding p by (auto simp: two_procs_def)
qed

text \<open>
  C9: Every process gets its turn. As long as no fatal signal is pending, after \<open>n\<close> timer interrupts
  the current process is the one \<open>n\<close> places further in the ring, so each of \<open>m\<close> processes runs once
  in every \<open>m\<close> interrupts; and every interrupt resumes exactly the registers with which that process
  was interrupted last, or with which it was created.
\<close>
theorem scheduler_round_robin:
  assumes "sched_ok xs A s" "\<forall>p\<in>set xs. \<not> doomed s p"
  shows "\<exists>os t. ticks rs s = Some (os, t) \<and> length os = length rs \<and>
    current_process t = xs ! (length rs mod length xs) \<and>
    (\<forall>k<length rs. os ! k =
       (if k + 1 < length xs then regs (procs s (xs ! (k + 1))) else rs ! (k + 1 - length xs)))"
  using ticks_turns [OF assms, of rs] by (simp add: resumed_def)

theorem scheduler_round_robin_witness:
  "\<exists>t. ticks (map (\<lambda>n. zero_regs\<lparr>rax := n\<rparr>) [1, 2, 3]) two_processes =
     Some ([new_regs 0x400000 False, zero_regs\<lparr>rax := 1\<rparr>, zero_regs\<lparr>rax := 2\<rparr>], t) \<and> current_process t = 4344"
proof -
  define rs where "rs = map (\<lambda>n. zero_regs\<lparr>rax := n\<rparr>) [1, 2, 3]"
  have n: "length rs = 3" "length [4112, 4344 :: u64] = 2" by (simp_all add: rs_def)
  obtain os t where t: "ticks rs two_processes = Some (os, t)" "length os = 3"
    "current_process t = [4112, 4344] ! (3 mod 2)"
    "\<forall>k<3. os ! k = (if k + 1 < 2 then regs (two_procs ([4112, 4344] ! (k + 1))) else rs ! (k + 1 - 2))"
    using scheduler_round_robin [OF two_processes_ok two_processes_spared, of rs]
    unfolding n two_processes_sel(1) by blast
  have "os ! 0 = new_regs 0x400000 False" "os ! 1 = zero_regs\<lparr>rax := 1\<rparr>" "os ! 2 = zero_regs\<lparr>rax := 2\<rparr>"
    using t(4) [THEN spec, of 0] t(4) [THEN spec, of 1] t(4) [THEN spec, of 2] by (simp_all add: two_procs_def rs_def)
  moreover have "os = [os ! 0, os ! 1, os ! 2]" using t(2) by (auto intro!: nth_equalityI simp: less_Suc_eq numeral_3_eq_3 numeral_2_eq_2)
  moreover have "current_process t = 4344" using t(3) by simp
  ultimately show ?thesis using t(1) unfolding rs_def by metis
qed





text \<open>
  C17: \<open>process_scheduler_add_process\<close> halts the kernel (a write through null) exactly if the kernel
  heap has no room. Otherwise it returns an id no process has, the new process runs next, starts at
  the given address with the registers of its privilege level and the given page tables, and all
  other processes are as before.
\<close>
theorem process_scheduler_add_process_correct:
  assumes "sched_ok (c # r) A s" "cr3 s = process_scheduler_get_kernel_PML4 s - hhdm_offset s"
    and "highest_pid s < - 1" "\<not> is_kernel (process_data s (pml4 - hhdm_offset s))"
  shows "(\<exists>t fh. malloc_internal sizeof_process (kernel_view s) = Some (0, fh) \<and>
      process_scheduler_add_process start_addr pml4 kern s = Some (Halted t)) \<or>
    (\<exists>p B t fh. malloc_internal sizeof_process (kernel_view s) = Some (p, fh) \<and> p \<noteq> 0 \<and>
      process_scheduler_add_process start_addr pml4 kern s = Some (Ok (highest_pid s + 1) t) \<and>
      sched_ok (c # p # r) B t \<and> p \<notin> set (c # r) \<and> pid (procs t p) = highest_pid s + 1 \<and> PML4 (procs t p) = pml4 \<and>
      regs (procs t p) = new_regs start_addr kern \<and> (\<forall>q. q \<noteq> p \<longrightarrow> same_process (procs s q) (procs t q)) \<and> interrupt_flag t)"
  using add_process_returns [OF assms(1) assms(2) [unfolded process_scheduler_get_kernel_PML4_def] assms(3,4), of start_addr kern] .

theorem process_scheduler_add_process_correct_witness:
  "\<exists>p B t. process_scheduler_add_process 0x500000 0xFFFF800000003000 False two_processes = Some (Ok 2 t) \<and>
      sched_ok [4112, p, 4344] B t \<and> regs (procs t p) = new_regs 0x500000 False"
proof -
  have h: "cr3 two_processes = process_scheduler_get_kernel_PML4 two_processes - hhdm_offset two_processes"
    by (simp add: process_scheduler_get_kernel_PML4_def two_procs_def)
  have "unat (1 :: u32) < unat (- 1 :: u32)" by (simp add: unsigned_minus_1_eq_mask mask_eq_exp_minus_1)
  then have p: "highest_pid two_processes < - 1" by (simp only: two_processes_sel word_less_nat_alt)
  have d: "\<not> is_kernel (process_data two_processes (0xFFFF800000003000 - hhdm_offset two_processes))" by simp
  show ?thesis
    using process_scheduler_add_process_correct [OF two_processes_ok h p d, of "0x500000" False] two_heap_room
    unfolding two_processes_sel(6) by auto
qed

text \<open>
  C18: \<open>process_scheduler_remove_process\<close> of a process other than the kernel's returns, takes exactly
  this process out of the ring, makes its successor the current process and gives its block back to
  the kernel heap; the other processes keep their ids, registers, signals and page tables.
\<close>
theorem process_scheduler_remove_process_correct:
  assumes "sched_ok (us @ q # vs) A s" "q \<noteq> kernel_process s"
  shows "\<exists>B t. process_scheduler_remove_process (pid (procs s q)) s = Some (Ok True t) \<and> sched_ok (vs @ us) B t \<and>
    B \<subseteq> A \<and> unat q \<notin> fst ` B \<and> (\<forall>p. same_process (procs s p) (procs t p))"
  by (rule remove_process_returns [OF assms(1) refl assms(2)]) blast

theorem process_scheduler_remove_process_correct_witness:
  "\<exists>B t. process_scheduler_remove_process 1 two_processes = Some (Ok True t) \<and> sched_ok [4112] B t"
proof -
  have ok: "sched_ok ([4112] @ 4344 # []) {(4112, 216), (4344, 216)} two_processes" using two_processes_ok by simp
  have "4344 \<noteq> kernel_process two_processes" by simp
  from process_scheduler_remove_process_correct [OF ok this]
  have "\<exists>B t. process_scheduler_remove_process (pid (procs two_processes 4344)) two_processes = Some (Ok True t) \<and>
      sched_ok ([] @ [4112]) B t" by blast
  then show ?thesis by (simp add: two_procs_def)
qed

section \<open>Privileges\<close>

text \<open>How the processor takes a selector apart: the offset of its descriptor and the requested level.\<close>

definition selector_offset :: "u64 \<Rightarrow> nat" where
  "selector_offset sel = unat (sel AND NOT 7)"

definition selector_rpl :: "u64 \<Rightarrow> u8" where
  "selector_rpl sel = ucast (sel AND 3)"

text \<open>
  The descriptor a selector may be loaded from: present, of a code (executable) or data (writable)
  segment, with the privilege of the selector.
\<close>

definition selects :: "u8 list \<Rightarrow> bool \<Rightarrow> u64 \<Rightarrow> bool" where
  "selects t code sel \<longleftrightarrow> selector_offset sel + 8 \<le> length t \<and>
     bit (desc_access t (selector_offset sel)) 7 \<and> bit (desc_access t (selector_offset sel)) 4 \<and>
     bit (desc_access t (selector_offset sel)) 3 = code \<and> bit (desc_access t (selector_offset sel)) 1 \<and>
     desc_dpl t (selector_offset sel) = selector_rpl sel \<and> desc_base t (selector_offset sel) = 0 \<and>
     desc_limit t (selector_offset sel) = 0xFFFFF \<and> (code \<longrightarrow> bit (desc_flags t (selector_offset sel)) 1)"

lemma desc_encode_other:
  assumes "glimit e \<le> 0xFFFFF" "off + 8 \<le> length t" "o' + 8 \<le> off \<or> off + 8 \<le> o'"
  shows "desc_base (encode_gdt_entry off e t) o' = desc_base t o'" "desc_limit (encode_gdt_entry off e t) o' = desc_limit t o'"
    "desc_access (encode_gdt_entry off e t) o' = desc_access t o'" "desc_flags (encode_gdt_entry off e t) o' = desc_flags t o'"
  using assms(3) encode_gdt_entry_nth(9) [OF assms(1,2)]
  by (auto simp: desc_base_def desc_limit_def desc_access_def desc_flags_def)

lemmas desc_encode = desc_base_encode desc_limit_encode desc_flags_encode desc_access_encode desc_encode_other

lemma desc_tss_other:
  assumes "length t = 56" "off + 8 \<le> 0x28"
  shows "desc_base (encode_tss b t) off = desc_base t off" "desc_limit (encode_tss b t) off = desc_limit t off"
    "desc_access (encode_tss b t) off = desc_access t off" "desc_flags (encode_tss b t) off = desc_flags t off"
proof -
  have "encode_tss b t ! n = t ! n" if "n < 0x28" for n
    using that assms(1) by (simp add: encode_tss_def encode_gdt_entry_nth(9) sizeof_tss_def)
  then show "desc_base (encode_tss b t) off = desc_base t off" "desc_limit (encode_tss b t) off = desc_limit t off"
    "desc_access (encode_tss b t) off = desc_access t off" "desc_flags (encode_tss b t) off = desc_flags t off"
    using assms(2) by (simp_all add: desc_base_def desc_limit_def desc_access_def desc_flags_def)
qed

lemma gdt_after_init: "gdt (gdt_init a b c s) = encode_tss b (encode_segments (gdt s))"
  by (simp add: gdt_init_def Let_def con_line_def con_print_def setGdt_def reloadSegments_def flush_tss_def)

lemma segment_descriptors:
  fixes b :: u64
  assumes "length t = 56"
  defines "u \<equiv> encode_tss b (encode_segments t)"
  shows "length u = 56" "\<forall>off\<in>{0x08, 0x10, 0x18, 0x20}. desc_base u off = 0 \<and> desc_limit u off = 0xFFFFF"
    "desc_access u 0x08 = 0x9A" "desc_access u 0x10 = 0x92" "desc_access u 0x18 = 0xFA" "desc_access u 0x20 = 0xF2"
    "desc_flags u 0x08 = 0xA" "desc_flags u 0x18 = 0xA"
proof -
  have l: "length (encode_segments t) = 56" using assms(1) by (simp add: encode_segments_def)
  then show "length u = 56" by (simp add: u_def encode_tss_def)
  show "\<forall>off\<in>{0x08, 0x10, 0x18, 0x20}. desc_base u off = 0 \<and> desc_limit u off = 0xFFFFF"
    using assms(1) by (simp add: u_def desc_tss_other [OF l]) (simp add: encode_segments_def desc_encode)
  show "desc_access u 0x08 = 0x9A" "desc_access u 0x10 = 0x92" "desc_access u 0x18 = 0xFA" "desc_access u 0x20 = 0xF2"
    using assms(1) by (simp_all add: u_def desc_tss_other [OF l]) (simp_all add: encode_segments_def desc_encode)
  show "desc_flags u 0x08 = 0xA" "desc_flags u 0x18 = 0xA"
    using assms(1) by (simp_all add: u_def desc_tss_other [OF l]) (simp_all add: encode_segments_def desc_encode)
qed

text \<open>
  C15: The segment registers of a new process are well typed against the table \<open>gdt_init\<close> builds: for
  either privilege level the code selector names a present, flat 64-bit code segment and the data
  selectors a present, flat, writable data segment inside the table, and the level requested by each
  selector is the level of its descriptor, which is 0 for the kernel and 3 for programs.
\<close>
theorem new_process_segments_typed:
  assumes "length (gdt s) = 56"
  shows "let t = gdt (gdt_init gdt_addr tss_base stack_top s); r = new_regs start_addr kern in
    selects t True (cs_seg r) \<and> selector_rpl (cs_seg r) = (if kern then 0 else 3) \<and>
    (\<forall>sel\<in>{ss_seg r, gs_seg r, fs_seg r}. selects t False sel \<and> selector_rpl sel = (if kern then 0 else 3))"
proof -
  have sel: "cs_seg (new_regs start_addr kern) = (if kern then 0x08 else 0x1B)"
    "ss_seg (new_regs start_addr kern) = (if kern then 0x10 else 0x23)"
    "gs_seg (new_regs start_addr kern) = ss_seg (new_regs start_addr kern)"
    "fs_seg (new_regs start_addr kern) = ss_seg (new_regs start_addr kern)"
    by (simp_all add: new_regs_def gdt_create_selector_def Let_def)
  show ?thesis
    unfolding gdt_after_init Let_def sel
    by (cases kern) (simp_all add: selects_def selector_offset_def selector_rpl_def segment_descriptors [OF assms]
        desc_dpl_def bit_numeral_rec)
qed

theorem new_process_segments_typed_witness:
  "selects (gdt (gdt_init 0x1000 0x2000 0x3000 two_processes)) True (cs_seg (new_regs 0x400000 False)) \<and>
   selector_rpl (ss_seg (new_regs 0x400000 False)) = 3"
proof -
  have "length (gdt two_processes) = 56" by (simp add: two_processes_def gdt_state.extend_def fs.extend_def)
  from new_process_segments_typed [OF this, of "0x1000" "0x2000" "0x3000" "0x400000" False] show ?thesis by (simp add: Let_def)
qed

end
