(* ===== verification/Shell.thy ===== *)
theory Shell
  imports FsProps Keyboard
begin

unbundle bit_operations_syntax

text \<open>
  The shell, \<open>src/programs/shell/c.c\<close>. Its string library is a copy of \<open>util.c\<close> and \<open>string.c\<close>
  and is shared with the theories Util and CString. A system call of the shell is a call of the
  operation behind it: the file system works on the state below, printing goes to the console.

  The state extends that of the file system by the variables of the shell. \<open>keys\<close> are the results
  of successive calls of system call 20, zero when no key was pressed; when they end, waiting for a
  key does not end and the value is \<open>None\<close>. Buffers on the heap are values; \<open>behind_line\<close> is the
  memory behind the 128 bytes of a command line, \<open>behind_table\<close> the memory behind the table of
  characters, \<open>behind_file\<close> the bytes from the end of a file's buffer to the next NUL. \<open>overrun\<close>
  records that a command wrote behind the 128 bytes of \<open>working_dir\<close>.
\<close>

section \<open>State\<close>

record shell = fs +
  working_dir :: cstr
  working_dir_len :: int
  keys :: "u16 list"
  behind_line :: "nat \<Rightarrow> u8"
  behind_table :: "nat \<Rightarrow> u8"
  behind_file :: cstr
  overrun :: bool

section \<open>System calls\<close>

definition print :: "cstr \<Rightarrow> 'a shell_scheme \<Rightarrow> 'a shell_scheme" where
  "print m s = con_print m s"

definition clear_screen :: "'a shell_scheme \<Rightarrow> 'a shell_scheme" where
  "clear_screen s = s\<lparr>con := con s @ [Screen_clear]\<rparr>"

fun key_loop :: "u16 list \<Rightarrow> (u16 \<times> u16 list) option" where
  "key_loop [] = None"
| "key_loop (c # ks) = (if c = 0 then key_loop ks else Some (c, ks))"

definition read_keyboard :: "'a shell_scheme \<Rightarrow> (u16 \<times> 'a shell_scheme) option" where
  "read_keyboard s = map_option (\<lambda>(c, ks). (c, s\<lparr>keys := ks\<rparr>)) (key_loop (keys s))"

definition is_character :: "(nat \<Rightarrow> u8) \<Rightarrow> u16 \<Rightarrow> bool" where
  "is_character behind scancode =
     (if scancode \<ge> 256 then False
      else
        (let ascii = table_at behind scancode in
         if drop_bit 8 scancode = 0xE0 then False
         else (sint ascii \<ge> 32 \<and> sint ascii \<le> 126) \<or> ascii = 8 \<or> ascii = 9 \<or> ascii = 10))"

definition read_file :: "cstr \<Rightarrow> u8 list \<Rightarrow> 'a shell_scheme \<Rightarrow> ((bool \<times> u8 list) \<times> 'a shell_scheme) option" where
  "read_file path data_out s = filesystem_read_file (Some path) data_out s"

definition read_file_metadata ::
    "cstr \<Rightarrow> file_metadata_t \<Rightarrow> 'a shell_scheme \<Rightarrow> ((bool \<times> file_metadata_t) \<times> 'a shell_scheme) option" where
  "read_file_metadata path meta_out s = filesystem_read_file_metadata (Some path) meta_out s"

definition file_exists :: "cstr \<Rightarrow> 'a shell_scheme \<Rightarrow> (bool \<times> 'a shell_scheme) option" where
  "file_exists path s = filesystem_file_exists (Some path) s"

definition write_file :: "cstr \<Rightarrow> u8 list \<Rightarrow> u64 \<Rightarrow> 'a shell_scheme \<Rightarrow> (bool \<times> 'a shell_scheme) option" where
  "write_file path data_in sz s = filesystem_write_file (Some path) data_in FILE sz s"

definition delete_file :: "cstr \<Rightarrow> 'a shell_scheme \<Rightarrow> (bool \<times> 'a shell_scheme) option" where
  "delete_file path s = filesystem_delete_file (Some path) s"

definition create_directory :: "cstr \<Rightarrow> 'a shell_scheme \<Rightarrow> (bool \<times> 'a shell_scheme) option" where
  "create_directory path s = filesystem_create_directory (Some path) s"

definition delete_directory :: "cstr \<Rightarrow> 'a shell_scheme \<Rightarrow> (bool \<times> 'a shell_scheme) option" where
  "delete_directory path s = filesystem_delete_directory (Some path) s"

definition move_file :: "cstr \<Rightarrow> cstr \<Rightarrow> 'a shell_scheme \<Rightarrow> (bool \<times> 'a shell_scheme) option" where
  "move_file path new_path s = filesystem_move_file (Some path) (Some new_path) s"

definition list_dir :: "cstr \<Rightarrow> 'a shell_scheme \<Rightarrow> (file_metadata_t list option \<times> 'a shell_scheme) option" where
  "list_dir path s = filesystem_list_dir (Some path) s"

section \<open>Paths\<close>

definition join_working_dir :: "cstr \<Rightarrow> 'a shell_scheme \<Rightarrow> cstr option" where
  "join_working_dir path s =
     (if deref path = 47 then strdup path else str_concats [working_dir s, str ''/'', path])"

text \<open>One component of a path: the stack \<open>stack[0..top)\<close> of at most 64 names.\<close>

definition push_part :: "cstr \<Rightarrow> cstr list \<Rightarrow> cstr list" where
  "push_part part stack =
     (if strcmp part (str ''..'') then (if length stack > 0 then butlast stack else stack)
      else if strcmp part (str ''.'') then stack
      else if length stack < 64 then stack @ [part] else stack)"

function parse_loop :: "cstr \<Rightarrow> cstr list \<Rightarrow> cstr list" where
  "parse_loop p stack =
     (let p1 = dropWhile ((=) 47) p in
      if p1 = [] then stack
      else parse_loop (dropWhile ((\<noteq>) 47) p1) (push_part (takeWhile ((\<noteq>) 47) p1) stack))"
  by pat_completeness auto
termination
proof (relation "measure (length \<circ> fst)")
  fix p p1 :: cstr and stack :: "cstr list"
  assume p1: "p1 = dropWhile ((=) 47) p" and ne: "p1 \<noteq> []"
  then have "hd p1 \<noteq> 47" using hd_dropWhile by metis
  with ne have "length (dropWhile ((\<noteq>) 47) p1) < length p1"
    by (cases p1) (auto simp: less_Suc_eq_le length_dropWhile_le)
  also have "length p1 \<le> length p" by (simp add: p1 length_dropWhile_le)
  finally show "((dropWhile ((\<noteq>) 47) p1, push_part (takeWhile ((\<noteq>) 47) p1) stack), p, stack) \<in> measure (length \<circ> fst)"
    by simp
qed simp

declare parse_loop.simps [simp del]

text \<open>
  The loop that builds the path from the stack. \<open>memcpy\<close> copies \<open>strlen(temp2) + 1\<close> bytes, none at
  all if \<open>strlen\<close> gives up.
\<close>

fun rebuild :: "cstr \<Rightarrow> cstr list \<Rightarrow> cstr option" where
  "rebuild path [] = Some path"
| "rebuild path (part # parts) =
     Option.bind (str_concat path part) (\<lambda>temp.
       Option.bind (if parts \<noteq> [] then str_concat temp (str ''/'') else Some temp) (\<lambda>temp2.
         rebuild (if strlen temp2 < 0 then path else temp2) parts))"

definition parse_path :: "cstr \<Rightarrow> cstr option" where
  "parse_path path =
     (if strlen path \<le> 1 then Some path else rebuild (str ''/'') (parse_loop path []))"

text \<open>The two calls with which most commands begin.\<close>

definition full_path :: "cstr \<Rightarrow> 'a shell_scheme \<Rightarrow> cstr option" where
  "full_path arg s = Option.bind (join_working_dir arg s) parse_path"

section \<open>Commands\<close>

text \<open>A command returns the new state; \<open>None\<close> when a call of it does not return.\<close>

definition print_name :: "file_metadata_t \<Rightarrow> 'a shell_scheme \<Rightarrow> 'a shell_scheme" where
  "print_name m s = print [10] (print (takeWhile ((\<noteq>) 0) (mname m)) s)"

definition cmd_ls :: "cstr list \<Rightarrow> 'a shell_scheme \<Rightarrow> 'a shell_scheme option" where
  "cmd_ls args s =
     (if length args > 1 then Some (print (str ''Usage: ls'' @ [10]) s)
      else do {
        path \<leftarrow> (if args = [] then Option.bind (strdup (working_dir s)) parse_path else full_path (args ! 0) s);
        (files, s1) \<leftarrow> list_dir path s;
        (case files of
           None \<Rightarrow> Some (print (str ''No files found'' @ [10]) s1)
         | Some fs \<Rightarrow> Some (fold print_name fs s1)) })"

definition cmd_echo :: "cstr list \<Rightarrow> 'a shell_scheme \<Rightarrow> 'a shell_scheme option" where
  "cmd_echo args s =
     (if length args \<noteq> 1 then Some (print (str ''Usage: echo <string>'' @ [10]) s)
      else
        (let msg_len = strlen (args ! 0) in
         if msg_len < 0 then None else Some (print (take (nat msg_len) (args ! 0) @ [10]) s)))"

definition cmd_clear :: "cstr list \<Rightarrow> 'a shell_scheme \<Rightarrow> 'a shell_scheme option" where
  "cmd_clear args s =
     Some (if length args \<noteq> 0 then print (str ''Usage: clear'' @ [10]) s else clear_screen s)"

text \<open>\<open>memcpy\<close> to \<open>working_dir\<close> writes \<open>strlen(path) + 1\<close> bytes.\<close>

definition cmd_cd :: "cstr list \<Rightarrow> 'a shell_scheme \<Rightarrow> 'a shell_scheme option" where
  "cmd_cd args s =
     (if length args \<noteq> 1 then Some (print (str ''Usage: cd <path>'' @ [10]) s)
      else do {
        path \<leftarrow> full_path (args ! 0) s;
        let wd = (if strlen path < 0 then working_dir s else path);
        Some (s\<lparr>working_dir := wd, working_dir_len := strlen wd, overrun := overrun s \<or> strlen path + 1 > 128\<rparr>) })"

definition cmd_touch :: "cstr list \<Rightarrow> 'a shell_scheme \<Rightarrow> 'a shell_scheme option" where
  "cmd_touch args s =
     (if length args \<noteq> 1 then Some (print (str ''Usage: touch <filename>'' @ [10]) s)
      else do {
        path \<leftarrow> full_path (args ! 0) s;
        (success, s1) \<leftarrow> write_file path [0] 1 s;
        Some (print [10] (print path (print (str ''Created: '') s1))) })"

text \<open>\<open>meta\<close> is the uninitialised variable on the stack.\<close>

definition uninit_metadata :: "'a shell_scheme \<Rightarrow> file_metadata_t" where
  "uninit_metadata s = \<lparr>msize = 0, mtype = 0, mname = map (junk s (mallocs s)) [0..<60]\<rparr>"

definition cmd_cat :: "cstr list \<Rightarrow> 'a shell_scheme \<Rightarrow> 'a shell_scheme option" where
  "cmd_cat args s =
     (if length args \<noteq> 1 then Some (print (str ''Usage: cat <filename>'' @ [10]) s)
      else do {
        path \<leftarrow> full_path (args ! 0) s;
        ((found, metadata), s1) \<leftarrow> read_file_metadata path (uninit_metadata s) s;
        if \<not> found then Some (print (str ''Error: File doesn'' @ [39] @ str ''t exist'' @ [10]) s1)
        else do {
          let (buf, s2) = fs_malloc (unat (msize metadata)) s1;
          ((success, out), s3) \<leftarrow> read_file path buf s2;
          if \<not> success then Some (print (str ''Error: Failed to read file'' @ [10]) s3)
          else Some (print [10] (print (takeWhile ((\<noteq>) 0) (out @ behind_file s3)) s3)) } })"

definition cmd_write :: "cstr list \<Rightarrow> 'a shell_scheme \<Rightarrow> 'a shell_scheme option" where
  "cmd_write args s =
     (if length args \<noteq> 2 then Some (print (str ''Usage: write <filename> <data>'' @ [10]) s)
      else do {
        path \<leftarrow> full_path (args ! 0) s;
        (there, s1) \<leftarrow> file_exists path s;
        if there then do {
          (success, s2) \<leftarrow> write_file path (args ! 1 @ [0]) (word_of_int (strlen (args ! 1) + 1)) s1;
          if success then Some (print [10] (print path (print (str ''Wrote data to: '') s2)))
          else Some (print (str ''Error: Failed to write to file'' @ [10]) s2) }
        else Some (print (str ''Error: File doesn'' @ [39] @ str ''t exist'' @ [10]) s1) })"

definition cmd_rm :: "cstr list \<Rightarrow> 'a shell_scheme \<Rightarrow> 'a shell_scheme option" where
  "cmd_rm args s =
     (if length args \<noteq> 1 then Some (print (str ''Usage: rm <filename>'' @ [10]) s)
      else do {
        path \<leftarrow> full_path (args ! 0) s;
        (success, s1) \<leftarrow> delete_file path s;
        Some (if success then print [10] (print path (print (str ''Deleted: '') s1))
              else print (str ''Error: File doesn'' @ [39] @ str ''t exist'' @ [10]) s1) })"

text \<open>The pages of the manual, in the order in which \<open>cmd_man\<close> compares.\<close>

definition man_pages :: "(string \<times> string \<times> string) list" where
  "man_pages =
     [(''ls'', ''ls - prints all files and folders inside of working dir'', ''Usage: ls''),
      (''echo'', ''echo - prints the provided text to the screen'', ''Usage: echo <string>''),
      (''cd'', ''cd - changes the current working directory'', ''Usage: cd <path>''),
      (''touch'', ''touch - creates a new empty file'', ''Usage: touch <filename>''),
      (''cat'', ''cat - displays the contents of a file'', ''Usage: cat <filename>''),
      (''write'', ''write - overwrites a file with provided text'', ''Usage: write <path> <data>''),
      (''rm'', ''rm - removes a file from the system'', ''Usage: rm <path>''),
      (''man'', ''man - displays manual pages for commands'', ''Usage: man or man <command>''),
      (''find'', ''find - prints all nested files and folders in working dir'', ''Usage: find or find <path>''),
      (''mkdir'', ''mkdir - creates a new directory'', ''Usage: mkdir <path>''),
      (''rmdir'', ''rmdir - removes an empty directory'', ''Usage: rmdir <path>''),
      (''mv'', ''mv - moves or renames a file'', ''Usage: mv <src> <dst>''),
      (''stat'', ''stat - displays metadata about a file'', ''Usage: stat <path>'')]"

definition cmd_man :: "cstr list \<Rightarrow> 'a shell_scheme \<Rightarrow> 'a shell_scheme option" where
  "cmd_man args s =
     Some (if length args \<noteq> 0 \<and> length args \<noteq> 1 then print (str ''Usage: man or man <command>'' @ [10]) s
           else if length args = 0
           then print (str ''List of commands:'' @ [10] @
                  str ''ls echo cd touch cat write rm man find mkdir rmdir mv stat'' @ [10]) s
           else
             (case List.find (\<lambda>(name, _). strcmp (args ! 0) (str name)) man_pages of
                Some (_, page, usage) \<Rightarrow> print (str page @ [10] @ str usage @ [10]) s
              | None \<Rightarrow> print (str ''Error: Command not found in manual.'' @ [10]) s))"

text \<open>
  \<open>recursive_find\<close> with its call stack made explicit: for every active call the recursion level, the
  path and the files its loop has still to visit.
\<close>

definition indent :: "nat \<Rightarrow> 'a shell_scheme \<Rightarrow> 'a shell_scheme" where
  "indent level s = (print (str ''   '') ^^ level) s"

definition child_path :: "cstr \<Rightarrow> file_metadata_t \<Rightarrow> cstr option" where
  "child_path path m = Option.bind (str_concats [path, str ''/'', takeWhile ((\<noteq>) 0) (mname m)]) parse_path"

definition visit :: "nat \<Rightarrow> file_metadata_t \<Rightarrow> 'a shell_scheme \<Rightarrow> 'a shell_scheme" where
  "visit level m s = print_name m (indent level s)"

definition open_dir ::
    "cstr \<Rightarrow> nat \<Rightarrow> 'a shell_scheme \<Rightarrow> ((nat \<times> cstr \<times> file_metadata_t list) list \<times> 'a shell_scheme) option" where
  "open_dir path level s =
     map_option (\<lambda>(files, s1). (case files of None \<Rightarrow> [] | Some fs \<Rightarrow> [(level, path, fs)], s1)) (list_dir path s)"

partial_function (option) find_calls ::
    "(nat \<times> cstr \<times> file_metadata_t list) list \<Rightarrow> 'a shell_scheme \<Rightarrow> 'a shell_scheme option" where
  "find_calls calls s =
     (case calls of
        [] \<Rightarrow> Some s
      | (level, path, files) # rest \<Rightarrow>
          (case files of
             [] \<Rightarrow> find_calls rest s
           | m # ms \<Rightarrow>
               if mtype m = DIRECTORY then
                 Option.bind (child_path path m) (\<lambda>child.
                   Option.bind (open_dir child (Suc level) (visit level m s)) (\<lambda>r.
                     find_calls (fst r @ (level, path, ms) # rest) (snd r)))
               else find_calls ((level, path, ms) # rest) (visit level m s)))"

definition recursive_find :: "cstr \<Rightarrow> nat \<Rightarrow> 'a shell_scheme \<Rightarrow> 'a shell_scheme option" where
  "recursive_find path recursion_level s =
     Option.bind (open_dir path recursion_level s) (\<lambda>r. find_calls (fst r) (snd r))"

definition cmd_find :: "cstr list \<Rightarrow> 'a shell_scheme \<Rightarrow> 'a shell_scheme option" where
  "cmd_find args s =
     (if length args = 0 then recursive_find (working_dir s) 0 s
      else if length args = 1 then Option.bind (full_path (args ! 0) s) (\<lambda>path. recursive_find path 0 s)
      else Some (print (str ''Usage: find or find <path> '' @ [10]) s))"

definition cmd_mkdir :: "cstr list \<Rightarrow> 'a shell_scheme \<Rightarrow> 'a shell_scheme option" where
  "cmd_mkdir args s =
     (if length args \<noteq> 1 then Some (print (str ''Usage: mkdir <path>'' @ [10]) s)
      else do {
        path \<leftarrow> full_path (args ! 0) s;
        (success, s1) \<leftarrow> create_directory path s;
        Some (if success then print [10] (print path (print (str ''Create directory: '') s1))
              else print (str ''mkdir: Failed to create directory'' @ [10]) s1) })"

definition cmd_rmdir :: "cstr list \<Rightarrow> 'a shell_scheme \<Rightarrow> 'a shell_scheme option" where
  "cmd_rmdir args s =
     (if length args \<noteq> 1 then Some (print (str ''Usage: rmdir <path>'' @ [10]) s)
      else do {
        path \<leftarrow> full_path (args ! 0) s;
        (success, s1) \<leftarrow> delete_directory path s;
        Some (if success then print [10] (print path (print (str ''Removed directory: '') s1))
              else print (str ''rmdir: Failed to remove directory'' @ [10]) s1) })"

definition cmd_mv :: "cstr list \<Rightarrow> 'a shell_scheme \<Rightarrow> 'a shell_scheme option" where
  "cmd_mv args s =
     (if length args \<noteq> 2 then Some (print (str ''Usage: mv <src> <dst>'' @ [10]) s)
      else do {
        src \<leftarrow> full_path (args ! 0) s;
        dst \<leftarrow> full_path (args ! 1) s;
        (success, s1) \<leftarrow> move_file src dst s;
        Some (if success
              then print [10] (print dst (print (str '' to: '') (print src (print (str ''Moved file from: '') s1))))
              else print (str ''mv: Failed to move file'' @ [10]) s1) })"

definition cmd_stat :: "cstr list \<Rightarrow> 'a shell_scheme \<Rightarrow> 'a shell_scheme option" where
  "cmd_stat args s =
     (if length args \<noteq> 1 then Some (print (str ''Usage: stat <path>'' @ [10]) s)
      else do {
        path \<leftarrow> full_path (args ! 0) s;
        ((found, meta), s1) \<leftarrow> read_file_metadata path (uninit_metadata s) s;
        if \<not> found then Some (print (str ''stat: No such file or directory'' @ [10]) s1)
        else do {
          size_str \<leftarrow> num_to_str (junk s1 (mallocs s1)) (real (unat (msize meta)));
          let s2 = print (str ''  Size: '') (print [10] (print path (print (str ''  File: '') s1)));
          let s3 = print (str ''  Type: '') (print (str '' bytes'' @ [10]) (print size_str s2));
          Some (print (if mtype meta = DIRECTORY then str ''directory'' @ [10] else str ''file'' @ [10]) s3) } })"

section \<open>Command lines\<close>

datatype command = Cmd_none | Cmd_ls | Cmd_echo | Cmd_clear | Cmd_cd | Cmd_touch | Cmd_cat | Cmd_write | Cmd_rm |
  Cmd_man | Cmd_find | Cmd_mkdir | Cmd_rmdir | Cmd_mv | Cmd_stat

text \<open>The table \<open>commands\<close>; its first entry is null.\<close>

fun commands :: "command \<Rightarrow> (cstr list \<Rightarrow> 'a shell_scheme \<Rightarrow> 'a shell_scheme option) option" where
  "commands Cmd_none = None"
| "commands Cmd_ls = Some cmd_ls"
| "commands Cmd_echo = Some cmd_echo"
| "commands Cmd_clear = Some cmd_clear"
| "commands Cmd_cd = Some cmd_cd"
| "commands Cmd_touch = Some cmd_touch"
| "commands Cmd_cat = Some cmd_cat"
| "commands Cmd_write = Some cmd_write"
| "commands Cmd_rm = Some cmd_rm"
| "commands Cmd_man = Some cmd_man"
| "commands Cmd_find = Some cmd_find"
| "commands Cmd_mkdir = Some cmd_mkdir"
| "commands Cmd_rmdir = Some cmd_rmdir"
| "commands Cmd_mv = Some cmd_mv"
| "commands Cmd_stat = Some cmd_stat"

definition execute_command_line :: "command \<Rightarrow> cstr list \<Rightarrow> 'a shell_scheme \<Rightarrow> 'a shell_scheme option" where
  "execute_command_line command args s =
     (case commands command of
        Some c \<Rightarrow> c args s
      | None \<Rightarrow> Some (print (str ''Error: Command not found'' @ [10]) s))"

text \<open>The byte \<open>command_line[i]\<close>.\<close>

definition line_at :: "(nat \<Rightarrow> u8) \<Rightarrow> u8 list \<Rightarrow> nat \<Rightarrow> u8" where
  "line_at behind line i = (if i < length line then line ! i else behind i)"

text \<open>The length of the first word, \<open>None\<close> when it is too long.\<close>

function command_length :: "(nat \<Rightarrow> u8) \<Rightarrow> nat \<Rightarrow> nat option" where
  "command_length c n =
     (if c n \<noteq> 32 \<and> c n \<noteq> 0 then (if n > 127 then None else command_length c (n + 1)) else Some n)"
  by pat_completeness auto
termination by (relation "measure (\<lambda>(_, n). 129 - n)") auto

declare command_length.simps [simp del]

definition command_names :: "(string \<times> command) list" where
  "command_names =
     [(''ls'', Cmd_ls), (''echo'', Cmd_echo), (''clear'', Cmd_clear), (''cd'', Cmd_cd), (''touch'', Cmd_touch),
      (''cat'', Cmd_cat), (''write'', Cmd_write), (''rm'', Cmd_rm), (''man'', Cmd_man), (''find'', Cmd_find),
      (''mkdir'', Cmd_mkdir), (''rmdir'', Cmd_rmdir), (''mv'', Cmd_mv), (''stat'', Cmd_stat)]"

definition find_command :: "cstr \<Rightarrow> command" where
  "find_command word =
     (case List.find (\<lambda>(name, _). strncmp word (str name) (length word)) command_names of
        Some (_, cmd) \<Rightarrow> cmd | None \<Rightarrow> Cmd_none)"

text \<open>The inner loop: the size of the argument and whether the line ended.\<close>

partial_function (option) arg_length :: "(nat \<Rightarrow> u8) \<Rightarrow> nat \<Rightarrow> nat \<Rightarrow> (nat \<times> bool) option" where
  "arg_length c arg_start arg_size =
     (if c (arg_start + arg_size) \<noteq> 32 then
        (if c (arg_start + arg_size) = 0 \<or> arg_start + arg_size > 127 then Some (arg_size, True)
         else arg_length c arg_start (arg_size + 1))
      else Some (arg_size, False))"

text \<open>The outer loop. \<open>capacity\<close> is the size of the array \<open>args\<close>, doubled when it is more than half full.\<close>

partial_function (option) args_loop ::
    "(nat \<Rightarrow> u8) \<Rightarrow> nat \<Rightarrow> bool \<Rightarrow> nat \<Rightarrow> cstr list \<Rightarrow> (cstr list \<times> nat) option" where
  "args_loop c arg_start reached_end capacity args =
     (if reached_end then Some (args, capacity)
      else Option.bind (arg_length c arg_start 0) (\<lambda>r.
        args_loop c (arg_start + fst r + 1) (snd r)
          (if length args > capacity div 2 then capacity * 2 else capacity)
          (args @ [map c [arg_start..<arg_start + fst r]])))"

text \<open>The result is \<open>Some None\<close> when the function returns false.\<close>

definition parse_command_line :: "(nat \<Rightarrow> u8) \<Rightarrow> (command \<times> cstr list) option option" where
  "parse_command_line c =
     (if c 0 = 0 then Some None
      else
        (case command_length c 0 of
           None \<Rightarrow> Some None
         | Some command_size \<Rightarrow>
             map_option (\<lambda>(args, capacity). Some (find_command (map c [0..<command_size]), args))
               (args_loop c (command_size + 1) (c (command_size + 1) = 0 \<or> command_size + 1 > 127) 10 [])))"

text \<open>The loop of \<open>read_command_line\<close> after a key was read: the buffer, \<open>counter\<close> and the character to print.\<close>

definition type_key :: "(nat \<Rightarrow> u8) \<Rightarrow> u16 \<Rightarrow> u8 list \<times> nat \<Rightarrow> (u8 list \<times> nat) \<times> u8 option" where
  "type_key behind scancode b =
     (case b of (line, counter) \<Rightarrow>
        if is_character behind scancode then
          (let ascii = table_at behind scancode in
           if ascii = 8 \<and> counter = 0 then (b, None)
           else
             (let (line1, counter1) =
                    (if sint ascii \<ge> 32 \<and> sint ascii \<le> 126 then (line[counter := ascii], counter + 1)
                     else if ascii = 8 then (line[counter - 1 := 0], counter - 1)
                     else (line, counter))
              in ((line1, if counter1 \<ge> 128 then 0 else counter1), Some ascii)))
        else (b, None))"

partial_function (option) line_loop :: "u16 \<Rightarrow> u8 list \<times> nat \<Rightarrow> 'a shell_scheme \<Rightarrow> (u8 list \<times> 'a shell_scheme) option" where
  "line_loop scancode b s =
     (if scancode \<noteq> 0x1C then
        Option.bind (read_keyboard s) (\<lambda>r.
          line_loop (fst r) (fst (type_key (behind_table s) (fst r) b))
            (case snd (type_key (behind_table s) (fst r) b) of
               None \<Rightarrow> snd r | Some ascii \<Rightarrow> print [ascii] (snd r)))
      else Some (fst b, s))"

definition read_command_line :: "'a shell_scheme \<Rightarrow> (u8 list \<times> 'a shell_scheme) option" where
  "read_command_line s = line_loop 0 (replicate 128 0, 0) s"

text \<open>One round of the endless loop of \<open>main\<close>.\<close>

definition shell_round :: "'a shell_scheme \<Rightarrow> 'a shell_scheme option" where
  "shell_round s = do {
     line_prefix \<leftarrow> str_concat (working_dir s) (str ''> '');
     (command_line, s1) \<leftarrow> read_command_line (print line_prefix s);
     parsed \<leftarrow> parse_command_line (line_at (behind_line s1) command_line);
     (case parsed of
        None \<Rightarrow> Some s1
      | Some (command, args) \<Rightarrow> execute_command_line command args s1) }"

end
