(* ===== verification/ShellProps.thy ===== *)
theory ShellProps
  imports Shell
begin

text \<open>
  Properties of the shell: paths are brought into canonical form, and what the user typed is what is
  executed.
\<close>

section \<open>Canonical paths\<close>

text \<open>The specification: the components of a path with \<open>.\<close> and \<open>..\<close> resolved, joined again.\<close>

definition step_dots :: "cstr \<Rightarrow> cstr list \<Rightarrow> cstr list" where
  "step_dots part dirs =
     (if part = str ''..'' then butlast dirs else if part = str ''.'' then dirs else dirs @ [part])"

definition resolve_dots :: "cstr list \<Rightarrow> cstr list" where
  "resolve_dots parts = fold step_dots parts []"

definition canon :: "cstr list \<Rightarrow> cstr" where
  "canon parts = (if parts = [] then str ''/'' else str_join 47 parts)"

lemma slash [simp]: "str ''/'' = [47]"
  by (simp add: str_def)

lemma dots_short [simp]: "length (str ''..'') = 2" "length (str ''.'') = 1"
  by (simp_all add: str_def)

lemma push_part_dots:
  assumes "length dirs < 64"
  shows "push_part part dirs = step_dots part dirs"
  using assms by (auto simp: push_part_def step_dots_def strcmp_iff)

lemma length_step_dots: "length (step_dots part dirs) \<le> Suc (length dirs)"
  by (auto simp: step_dots_def)

lemma fold_push_part: "length dirs + length parts \<le> 64 \<Longrightarrow> fold push_part parts dirs = fold step_dots parts dirs"
proof (induction parts arbitrary: dirs)
  case (Cons part parts)
  then have "push_part part dirs = step_dots part dirs" by (intro push_part_dots) simp
  moreover have "length (step_dots part dirs) + length parts \<le> 64" using Cons.prems length_step_dots [of part dirs] by simp
  ultimately show ?case using Cons.IH by simp
qed simp

lemma parse_loop_fold: "parse_loop p dirs = fold push_part (str_split 47 p) dirs"
proof (induction p dirs rule: parse_loop.induct)
  case (1 p dirs)
  then show ?case by (simp add: parse_loop.simps [of p] str_split.simps [of 47 p] Let_def)
qed

lemma str_join_Cons [simp]: "str_join d (t # ts) = d # t @ str_join d ts" "str_join d [] = []"
  by (simp_all add: str_join_def)

lemma str_join_append [simp]: "str_join d (ts @ us) = str_join d ts @ str_join d us"
  by (simp add: str_join_def)

lemma rebuild_join:
  "length path + length (str_join 47 parts) \<le> 1002 \<Longrightarrow> length path \<le> 1001 \<Longrightarrow>
     rebuild path parts = Some (path @ tl (str_join 47 parts))"
proof (induction path parts rule: rebuild.induct)
  case (2 path part parts)
  have t: "str_concat path part = Some (path @ part)" using 2(2,3) by (intro str_concat_Some) simp_all
  show ?case
  proof (cases "parts = []")
    case True
    then show ?thesis using 2(2) t by (simp add: strlen_eq)
  next
    case False
    then have pos: "1 \<le> length (str_join 47 parts)" by (cases parts) simp_all
    moreover have "length path + length part + length (str_join 47 parts) \<le> 1001" using 2(2) by simp
    ultimately have "length path + length part \<le> 1000" by linarith
    then have c: "str_concat (path @ part) [47] = Some (path @ part @ [47])" "\<not> strlen (path @ part @ [47]) < 0"
      by (simp_all add: str_concat_Some strlen_eq)
    have "rebuild path (part # parts) = rebuild (path @ part @ [47]) parts"
      using t c False by (subst rebuild.simps(2)) simp
    also have "\<dots> = Some ((path @ part @ [47]) @ tl (str_join 47 parts))"
      using 2(1) [of "path @ part" "path @ part @ [47]"] 2(2) c \<open>length path + length part \<le> 1000\<close> False t by simp
    also have "\<dots> = Some (path @ tl (str_join 47 (part # parts)))" using False by (cases parts) simp_all
    finally show ?thesis .
  qed
qed simp

lemma parse_path_eq:
  assumes "deref p = 47" "length p \<le> 1001" "length (str_split 47 p) \<le> 64"
    and "length (str_join 47 (resolve_dots (str_split 47 p))) \<le> 1001"
  shows "parse_path p = Some (canon (resolve_dots (str_split 47 p)))"
proof (cases "strlen p \<le> 1")
  case True
  then have "p = [47]" using assms(1,2) by (cases p; cases "tl p") (auto simp: strlen_eq deref_def)
  then show ?thesis by (simp add: parse_path_def canon_def resolve_dots_def str_split.simps strlen_eq)
next
  case False
  have loop: "parse_loop p [] = resolve_dots (str_split 47 p)"
    using fold_push_part [of "[]" "str_split 47 p"] assms(3) by (simp add: parse_loop_fold resolve_dots_def)
  show ?thesis
  proof (cases "resolve_dots (str_split 47 p)")
    case Nil
    then show ?thesis using False loop by (simp add: parse_path_def canon_def)
  next
    case (Cons t ts)
    then show ?thesis using False loop assms(4) by (simp add: parse_path_def canon_def rebuild_join del: rebuild.simps)
  qed
qed

lemma length_join_split:
  "length (str_join d (str_split d p)) \<le> length p + (if p = [] \<or> hd p = d then 0 else 1)"
proof (induction d p rule: str_split.induct)
  case (1 d p)
  define p1 where "p1 = dropWhile ((=) d) p"
  show ?case
  proof (cases "p1 = []")
    case True
    then show ?thesis by (simp add: str_split.simps [of d p] p1_def)
  next
    case False
    define r where "r = dropWhile ((\<noteq>) d) p1"
    have "r = [] \<or> hd r = d" unfolding r_def using hd_dropWhile [of "(\<noteq>) d" p1] by auto
    then have r: "length (str_join d (str_split d r)) \<le> length r" using 1 [OF p1_def False] by (simp add: r_def)
    have "length (takeWhile ((\<noteq>) d) p1) + length r = length p1" unfolding r_def by (metis length_append takeWhile_dropWhile_id)
    then have l: "length (str_join d (str_split d p)) \<le> Suc (length p1)"
      using r False by (simp add: str_split.simps [of d p] Let_def p1_def [symmetric] r_def [symmetric])
    have "p \<noteq> []" using False by (auto simp: p1_def)
    moreover have "length p1 < length p" if "hd p = d"
      using that \<open>p \<noteq> []\<close> by (cases p) (auto simp: p1_def less_Suc_eq_le length_dropWhile_le)
    moreover have "length p1 \<le> length p" by (simp add: p1_def length_dropWhile_le)
    ultimately show ?thesis using l by auto
  qed
qed

lemma length_join_butlast: "length (str_join d (butlast ts)) \<le> length (str_join d ts)"
  by (induction ts) auto

lemma length_join_dots: "length (str_join d (fold step_dots parts dirs)) \<le> length (str_join d dirs) + length (str_join d parts)"
proof (induction parts arbitrary: dirs)
  case (Cons part parts)
  have "length (str_join d (step_dots part dirs)) \<le> length (str_join d dirs) + Suc (length part)"
    using length_join_butlast [of d dirs] by (auto simp: step_dots_def)
  then show ?case using Cons.IH [of "step_dots part dirs"] by simp
qed simp

lemma set_fold_dots: "set (fold step_dots parts dirs) \<subseteq> set dirs \<union> (set parts - {str ''.'', str ''..''})"
proof (induction parts arbitrary: dirs)
  case (Cons part parts)
  have "set (step_dots part dirs) \<subseteq> set dirs \<union> ({part} - {str ''.'', str ''..''})"
    by (auto simp: step_dots_def dest: in_set_butlastD)
  then show ?case using Cons.IH [of "step_dots part dirs"] by auto
qed simp

lemma fold_dots_clean: "set parts \<inter> {str ''.'', str ''..''} = {} \<Longrightarrow> fold step_dots parts dirs = dirs @ parts"
  by (induction parts arbitrary: dirs) (auto simp: step_dots_def)

lemma length_fold_dots: "length (fold step_dots parts dirs) \<le> length dirs + length parts"
proof (induction parts arbitrary: dirs)
  case (Cons part parts)
  have "length (fold step_dots parts (step_dots part dirs)) \<le> length (step_dots part dirs) + length parts" by (rule Cons.IH)
  then show ?case using length_step_dots [of part dirs] by simp
qed simp

lemma canon_split:
  assumes "\<forall>t\<in>set ts. t \<noteq> [] \<and> 47 \<notin> set t"
  shows "str_split 47 (canon ts) = ts"
  using assms str_split_join [of ts 47] by (auto simp: canon_def str_split.simps)

lemma canon_facts:
  assumes "deref p = 47" "length p \<le> 1001" "length (str_split 47 p) \<le> 64"
  defines "q \<equiv> canon (resolve_dots (str_split 47 p))"
  shows "parse_path p = Some q" "deref q = 47" "length q \<le> length p" "parse_path q = Some q"
    "str_split 47 q = resolve_dots (str_split 47 p)" "set (str_split 47 q) \<inter> {str ''.'', str ''..''} = {}"
proof -
  let ?ts = "resolve_dots (str_split 47 p)"
  have p: "p \<noteq> []" "hd p = 47" using assms(1) by (cases p; simp add: deref_def)+
  have join: "length (str_join 47 ?ts) \<le> length p"
    using length_join_dots [of 47 "str_split 47 p" "[]"] length_join_split [of 47 p] p by (simp add: resolve_dots_def)
  then show "parse_path p = Some q" unfolding q_def using assms(2) by (intro parse_path_eq [OF assms(1-3)]) simp
  show d: "deref q = 47" by (cases ?ts) (simp_all add: q_def canon_def deref_def)
  show l: "length q \<le> length p" using join p(1) by (cases p) (auto simp: q_def canon_def)
  have sub: "set ?ts \<subseteq> set (str_split 47 p) - {str ''.'', str ''..''}"
    using set_fold_dots [of "str_split 47 p" "[]"] by (simp add: resolve_dots_def)
  then have "\<forall>t\<in>set ?ts. t \<noteq> [] \<and> 47 \<notin> set t" using str_split_tokens [of _ 47 p] by blast
  then show split: "str_split 47 q = ?ts" unfolding q_def by (rule canon_split)
  then show clean: "set (str_split 47 q) \<inter> {str ''.'', str ''..''} = {}" using sub by auto
  have n: "length ?ts \<le> 64" using length_fold_dots [of "str_split 47 p" "[]"] assms(3) by (simp add: resolve_dots_def)
  have again: "resolve_dots ?ts = ?ts"
    using fold_dots_clean [OF clean, of "[]"] split by (simp add: resolve_dots_def)
  have "parse_path q = Some (canon (resolve_dots (str_split 47 q)))"
    by (rule parse_path_eq [OF d]) (use l assms(2) split n again join in \<open>simp_all\<close>)
  then show "parse_path q = Some q" unfolding split again by (simp add: q_def)
qed

section \<open>The command line\<close>

text \<open>The line the keys spell, with backspace taking back the last character.\<close>

definition edit_line :: "(nat \<Rightarrow> u8) \<Rightarrow> u16 \<Rightarrow> cstr \<Rightarrow> cstr" where
  "edit_line behind key line =
     (if \<not> is_character behind key then line
      else if table_at behind key = 8 then butlast line
      else if sint (table_at behind key) \<ge> 32 \<and> sint (table_at behind key) \<le> 126 then line @ [table_at behind key]
      else line)"

definition pad :: "cstr \<Rightarrow> u8 list" where
  "pad line = line @ replicate (128 - length line) 0"

lemma pad_type:
  assumes "length line < 127"
  shows "(pad line)[length line := a] = pad (line @ [a])"
proof -
  have "128 - length line = Suc (128 - Suc (length line))" using assms by simp
  then have "replicate (128 - length line) (0 :: u8) = 0 # replicate (128 - Suc (length line)) 0" by simp
  then show ?thesis by (simp add: pad_def)
qed

lemma pad_back:
  assumes "line \<noteq> []" "length line < 128"
  shows "(pad line)[length line - 1 := 0] = pad (butlast line)"
proof -
  obtain l a where l: "line = l @ [a]" using assms(1) by (metis rev_exhaust)
  have "128 - length l = Suc (128 - Suc (length l))" using assms(2) l by simp
  then have "replicate (128 - length l) (0 :: u8) = 0 # replicate (128 - Suc (length l)) 0" by simp
  then show ?thesis by (simp add: pad_def l list_update_append)
qed

lemma type_key_edit:
  assumes "length line < 128" "length (edit_line behind key line) < 128"
  shows "fst (type_key behind key (pad line, length line)) =
    (pad (edit_line behind key line), length (edit_line behind key line))"
proof -
  have b: "\<not> (32 \<le> sint (8 :: u8))" by simp
  have len: "length line < 127" if "length (line @ [a]) < 128" for a :: u8 using that by simp
  show ?thesis
    using assms pad_type [of line] pad_back [of line] b
    by (cases "line = []") (auto simp: type_key_def edit_line_def Let_def)
qed

lemma key_loop_keys:
  "key_loop ks = (case dropWhile ((=) 0) ks of [] \<Rightarrow> None | c # r \<Rightarrow> Some (c, r))"
  by (induction ks) auto

lemma behind_print [simp]: "behind_table (print m s) = behind_table s" "keys (print m s) = keys s"
  "behind_line (print m s) = behind_line s"
  by (simp_all add: print_def con_print_def)

lemma zero_key [simp]: "edit_line behind 0 line = line"
  by (simp add: edit_line_def is_character_def table_at_def scancode_to_ascii_def)

lemma enter_key [simp]: "edit_line behind 0x1C line = line"
  by (simp add: edit_line_def table_at_def scancode_to_ascii_def str_def)

lemma line_loop_typed:
  assumes "keys s = ks @ 0x1C # rest" "0x1C \<notin> set ks" "length line < 128" "k \<noteq> 0x1C"
    and "\<forall>n\<le>length ks. length (fold (edit_line (behind_table s)) (take n ks) line) < 128"
  shows "\<exists>t. line_loop k (pad line, length line) s = Some (pad (fold (edit_line (behind_table s)) ks line), t) \<and>
    keys t = rest \<and> behind_line t = behind_line s"
  using assms
proof (induction ks arbitrary: s line k)
  case Nil
  define u where "u = s\<lparr>keys := rest\<rparr>"
  define t where "t = (case snd (type_key (behind_table s) 0x1C (pad line, length line)) of None \<Rightarrow> u | Some a \<Rightarrow> print [a] u)"
  have r: "read_keyboard s = Some (0x1C, u)" using Nil.prems(1) by (simp add: read_keyboard_def u_def)
  have f: "fst (type_key (behind_table s) 0x1C (pad line, length line)) = (pad line, length line)"
    using type_key_edit [of line "behind_table s" "0x1C"] Nil.prems(3) by simp
  have "line_loop 0x1C (pad line, length line) t = Some (pad line, t)" by (subst line_loop.simps) simp
  then have "line_loop k (pad line, length line) s = Some (pad line, t)"
    using r f Nil.prems(4) by (subst line_loop.simps) (simp add: t_def split: option.splits)
  moreover have "keys t = rest" "behind_line t = behind_line s" by (simp_all add: t_def u_def split: option.splits)
  ultimately show ?case by simp
next
  case (Cons c ks)
  define line' where "line' = edit_line (behind_table s) c line"
  have len': "length line' < 128" using Cons.prems(5) [THEN spec, of 1] by (simp add: line'_def)
  show ?case
  proof (cases "c = 0")
    case True
    define u where "u = s\<lparr>keys := ks @ 0x1C # rest\<rparr>"
    have "read_keyboard s = map_option (\<lambda>(c, ks). (c, s\<lparr>keys := ks\<rparr>)) (key_loop (ks @ 0x1C # rest))"
      using Cons.prems(1) True by (simp add: read_keyboard_def)
    also have "\<dots> = read_keyboard u" by (simp add: read_keyboard_def u_def)
    finally have r: "read_keyboard s = read_keyboard u" .
    have ll: "line_loop k (pad line, length line) s = line_loop k (pad line, length line) u"
      using Cons.prems(4) by (subst (1 2) line_loop.simps) (simp add: r, simp add: u_def)
    have pre: "\<forall>n\<le>length ks. length (fold (edit_line (behind_table u)) (take n ks) line) < 128"
      using Cons.prems(5) True by (auto simp: u_def dest: spec [of _ "Suc _"])
    from Cons.IH [of u line k] Cons.prems(2-4) pre show ?thesis by (simp add: ll u_def True)
  next
    case False
    define u where "u = s\<lparr>keys := ks @ 0x1C # rest\<rparr>"
    define t where "t = (case snd (type_key (behind_table s) c (pad line, length line)) of None \<Rightarrow> u | Some a \<Rightarrow> print [a] u)"
    have r: "read_keyboard s = Some (c, u)" using Cons.prems(1) False by (simp add: read_keyboard_def u_def)
    have f: "fst (type_key (behind_table s) c (pad line, length line)) = (pad line', length line')"
      unfolding line'_def using Cons.prems(3) len' by (intro type_key_edit) (simp_all add: line'_def)
    have ll: "line_loop k (pad line, length line) s = line_loop c (pad line', length line') t"
      using Cons.prems(4) r f by (subst line_loop.simps) (simp add: t_def split: option.splits)
    have t: "keys t = ks @ 0x1C # rest" "behind_table t = behind_table s" "behind_line t = behind_line s"
      by (simp_all add: t_def u_def split: option.splits)
    have pre: "\<forall>n\<le>length ks. length (fold (edit_line (behind_table t)) (take n ks) line') < 128"
      using Cons.prems(5) by (auto simp: t(2) line'_def dest: spec [of _ "Suc _"])
    from Cons.IH [OF t(1) _ len' _ pre] Cons.prems(2) show ?thesis by (simp add: ll t line'_def)
  qed
qed

section \<open>Parsing the command line\<close>

text \<open>The words of a line: exactly one space separates two of them, so that words may be empty.\<close>

function words :: "cstr \<Rightarrow> cstr list" where
  "words xs = (if 32 \<in> set xs then takeWhile ((\<noteq>) 32) xs # words (tl (dropWhile ((\<noteq>) 32) xs)) else [xs])"
  by pat_completeness auto
termination
proof (relation "measure length")
  fix xs :: cstr
  assume "32 \<in> set xs"
  then have "dropWhile ((\<noteq>) 32) xs \<noteq> []" by (auto simp: dropWhile_eq_Nil_conv)
  moreover have "length (dropWhile ((\<noteq>) 32) xs) \<le> length xs" by (rule length_dropWhile_le)
  ultimately show "(tl (dropWhile ((\<noteq>) 32) xs), xs) \<in> measure length"
    by (cases "dropWhile ((\<noteq>) 32) xs") auto
qed simp

declare words.simps [simp del]

definition line_mem :: "(nat \<Rightarrow> u8) \<Rightarrow> cstr \<Rightarrow> nat \<Rightarrow> u8" where
  "line_mem behind line = line_at behind (pad line)"

lemma line_mem_nth:
  assumes "length line < 128"
  shows "i < length line \<Longrightarrow> line_mem behind line i = line ! i"
    "length line \<le> i \<Longrightarrow> i < 128 \<Longrightarrow> line_mem behind line i = 0"
  using assms by (auto simp: line_mem_def line_at_def pad_def nth_append)

lemma map_line_mem:
  assumes "length line < 128" "a + n \<le> length line"
  shows "map (line_mem behind line) [a..<a + n] = take n (drop a line)"
  using assms by (intro nth_equalityI) (simp_all add: line_mem_nth)

lemma command_length_eq:
  assumes "length line < 128" "0 \<notin> set line" "n \<le> length line"
  shows "command_length (line_mem b line) n = Some (n + length (takeWhile ((\<noteq>) 32) (drop n line)))"
  using assms(3)
proof (induction "length line - n" arbitrary: n)
  case 0
  then show ?case using assms(1) by (subst command_length.simps) (simp add: line_mem_nth)
next
  case (Suc m)
  then have n: "n < length line" by simp
  have d: "drop n line = line ! n # drop (Suc n) line" using n by (simp add: Cons_nth_drop_Suc)
  have nz: "line ! n \<noteq> 0" using assms(2) n by (metis nth_mem)
  have "command_length (line_mem b line) (Suc n) = Some (Suc n + length (takeWhile ((\<noteq>) 32) (drop (Suc n) line)))"
    using Suc(1) [of "Suc n"] Suc(2) n by simp
  then show ?case using n nz assms(1) d by (subst command_length.simps) (auto simp: line_mem_nth)
qed

lemma arg_length_eq:
  assumes "length line < 128" "0 \<notin> set line" "a + k \<le> length line"
  shows "arg_length (line_mem b line) a k =
    Some (k + length (takeWhile ((\<noteq>) 32) (drop (a + k) line)), 32 \<notin> set (drop (a + k) line))"
  using assms(3)
proof (induction "length line - (a + k)" arbitrary: k)
  case 0
  then show ?case using assms(1) by (subst arg_length.simps) (simp add: line_mem_nth)
next
  case (Suc m)
  then have n: "a + k < length line" by simp
  have d: "drop (a + k) line = line ! (a + k) # drop (Suc (a + k)) line" using n by (simp add: Cons_nth_drop_Suc)
  have nz: "line ! (a + k) \<noteq> 0" using assms(2) n by (metis nth_mem)
  have "arg_length (line_mem b line) a (Suc k) =
      Some (Suc k + length (takeWhile ((\<noteq>) 32) (drop (Suc (a + k)) line)), 32 \<notin> set (drop (Suc (a + k)) line))"
    using Suc(1) [of "Suc k"] Suc(2) n by simp
  then show ?case using n nz assms(1) d by (subst arg_length.simps) (auto simp: line_mem_nth)
qed

text \<open>The array of arguments is always large enough for the argument written next.\<close>

lemma args_loop_eq:
  assumes "length line < 128" "0 \<notin> set line" "a \<le> length line" "length args \<le> cap div 2 + 1" "2 \<le> cap"
  shows "\<exists>cap'. args_loop (line_mem b line) a False cap args = Some (args @ words (drop a line), cap') \<and>
    length (args @ words (drop a line)) \<le> cap'"
  using assms(3-)
proof (induction "length line - a" arbitrary: a args cap rule: less_induct)
  case less
  define r where "r = drop a line"
  define w where "w = takeWhile ((\<noteq>) 32) r"
  define cap1 where "cap1 = (if length args > cap div 2 then cap * 2 else cap)"
  have al: "arg_length (line_mem b line) a 0 = Some (length w, 32 \<notin> set r)"
    using arg_length_eq [OF assms(1,2), of a 0 b] less.prems(1) by (simp add: w_def r_def)
  have wr: "length w \<le> length r" "r = w @ dropWhile ((\<noteq>) 32) r" by (simp_all add: w_def length_takeWhile_le)
  then have aw: "a + length w \<le> length line" using less.prems(1) by (simp add: r_def)
  have tw: "take (length w) r = w" using wr(2) by (metis append_eq_conv_conj)
  have arg: "map (line_mem b line) [a..<a + length w] = w"
    using map_line_mem [OF assms(1) aw] tw by (simp add: r_def)
  have step: "args_loop (line_mem b line) a False cap args =
      args_loop (line_mem b line) (a + length w + 1) (32 \<notin> set r) cap1 (args @ [w])"
    using al arg by (subst args_loop.simps) (simp add: cap1_def)
  have inv: "length (args @ [w]) \<le> cap1 div 2 + 1" "2 \<le> cap1" "length (args @ [w]) \<le> cap1"
    using less.prems(2,3) by (auto simp: cap1_def)
  show ?case
  proof (cases "32 \<in> set r")
    case False
    then have "w = r" by (auto simp: w_def takeWhile_eq_all_conv)
    have "args_loop (line_mem b line) (a + length w + 1) True cap1 (args @ [w]) = Some (args @ [w], cap1)"
      by (subst args_loop.simps) simp
    then show ?thesis
      using step False inv(3) \<open>w = r\<close> by (simp add: words.simps [of "drop a line"] r_def)
  next
    case True
    then have ne: "dropWhile ((\<noteq>) 32) r \<noteq> []" by (auto simp: dropWhile_eq_Nil_conv)
    have "length w < length r" using ne by (subst wr(2)) simp
    then have a': "a + length w + 1 \<le> length line" by (simp add: r_def)
    have "drop (length w) r = dropWhile ((\<noteq>) 32) r" using wr(2) by (metis append_eq_conv_conj)
    then have rest: "drop (a + length w + 1) line = tl (dropWhile ((\<noteq>) 32) r)"
      by (metis (no_types, lifting) add.commute drop_Suc drop_drop drop_tl plus_1_eq_Suc r_def tl_drop)
    have ws: "words (drop a line) = w # words (drop (a + length w + 1) line)"
      unfolding rest r_def [symmetric] using True by (subst words.simps) (simp add: w_def)
    have "length line - (a + length w + 1) < length line - a" using a' by simp
    from less.hyps [OF this a' inv(1,2)] show ?thesis using step True ws by simp
  qed
qed

text \<open>The command a word stands for: the first one whose name starts with the word.\<close>

definition meant :: "cstr \<Rightarrow> command" where
  "meant word = (case List.find (\<lambda>(name, _). take (length word) (str name) = word) command_names of
     Some (_, cmd) \<Rightarrow> cmd | None \<Rightarrow> Cmd_none)"

lemma command_names_nonzero: "(name, c) \<in> set command_names \<Longrightarrow> 0 \<notin> set (str name)"
  by (auto simp: command_names_def str_def)

lemma find_congr: "(\<And>x. x \<in> set xs \<Longrightarrow> P x = Q x) \<Longrightarrow> List.find P xs = List.find Q xs"
  by (induction xs) auto

lemma find_command_meant:
  assumes "0 \<notin> set word"
  shows "find_command word = meant word"
proof -
  have "strncmp word (str name) (length word) = (take (length word) (str name) = word)"
    if "(name, c) \<in> set command_names" for name c
    using strncmp_iff [OF assms command_names_nonzero [OF that], of "length word"] by auto
  then have "List.find (\<lambda>(name, _). strncmp word (str name) (length word)) command_names =
      List.find (\<lambda>(name, _). take (length word) (str name) = word) command_names"
    by (intro find_congr) auto
  then show ?thesis by (simp add: find_command_def meant_def)
qed

text \<open>What a line means: its first word and the words behind the space that follows it.\<close>

definition meaning :: "cstr \<Rightarrow> (command \<times> cstr list) option" where
  "meaning line =
     (if line = [] then None
      else
        (let word = takeWhile ((\<noteq>) 32) line; rest = drop (length word + 1) line
         in Some (meant word, if rest = [] then [] else words rest)))"

lemma parse_command_line_eq:
  assumes "length line < 128" "0 \<notin> set line"
  shows "parse_command_line (line_mem b line) = Some (meaning line)"
proof (cases "line = []")
  case True
  then show ?thesis by (simp add: parse_command_line_def line_mem_nth meaning_def)
next
  case False
  define w where "w = takeWhile ((\<noteq>) 32) line"
  define e where "e \<longleftrightarrow> line_mem b line (length w + 1) = 0 \<or> length w + 1 > 127"
  have z: "line_mem b line 0 \<noteq> 0" using False assms by (simp add: line_mem_nth) (metis length_greater_0_conv nth_mem)
  have cl: "command_length (line_mem b line) 0 = Some (length w)" using command_length_eq [OF assms, of 0 b] by (simp add: w_def)
  have wl: "length w \<le> length line" by (simp add: w_def length_takeWhile_le)
  have mw: "map (line_mem b line) [0..<length w] = w"
    using map_line_mem [of line 0 "length w" b] assms(1) wl by (simp add: w_def takeWhile_eq_take [symmetric])
  have w0: "0 \<notin> set w" using assms(2) by (auto simp: w_def dest: set_takeWhileD)
  have "e \<longleftrightarrow> drop (length w + 1) line = []"
  proof (cases "length w + 1 < length line")
    case True
    then have "line_mem b line (length w + 1) = line ! (length w + 1)" using assms(1) by (intro line_mem_nth)
    moreover have "line ! (length w + 1) \<noteq> 0" using True assms(2) by (metis nth_mem)
    ultimately show ?thesis using True assms(1) by (simp add: e_def)
  next
    case False
    then have "length w + 1 \<le> 127 \<Longrightarrow> line_mem b line (length w + 1) = 0" using assms(1) by (intro line_mem_nth) simp_all
    then show ?thesis using False by (auto simp: e_def)
  qed
  moreover have "args_loop (line_mem b line) (length w + 1) True 10 [] = Some ([], 10)" by (subst args_loop.simps) simp
  moreover have "\<exists>cap. args_loop (line_mem b line) (length w + 1) False 10 [] = Some (words (drop (length w + 1) line), cap)"
    if "drop (length w + 1) line \<noteq> []"
    using args_loop_eq [OF assms, of "length w + 1" "[]" 10 b] that by auto
  ultimately have "\<exists>cap. args_loop (line_mem b line) (length w + 1) e 10 [] =
      Some (if drop (length w + 1) line = [] then [] else words (drop (length w + 1) line), cap)" by auto
  moreover have "parse_command_line (line_mem b line) =
      map_option (\<lambda>(args, capacity). Some (find_command (map (line_mem b line) [0..<length w]), args))
        (args_loop (line_mem b line) (length w + 1) e 10 [])"
    unfolding parse_command_line_def cl e_def using z by simp
  moreover have "meaning line =
      Some (meant w, if drop (length w + 1) line = [] then [] else words (drop (length w + 1) line))"
    unfolding meaning_def w_def Let_def using False by simp
  ultimately show ?thesis unfolding mw find_command_meant [OF w0] by (auto simp del: drop_eq_Nil)
qed

lemma edit_line_nonzero: "0 \<notin> set line \<Longrightarrow> 0 \<notin> set (edit_line b k line)"
  by (auto simp: edit_line_def dest: in_set_butlastD)

lemma fold_edit_nonzero: "0 \<notin> set line \<Longrightarrow> 0 \<notin> set (fold (edit_line b) ks line)"
  by (induction ks arbitrary: line) (simp_all add: edit_line_nonzero)

lemma length_fold_edit: "length (fold (edit_line b) ks line) \<le> length line + length ks"
proof (induction ks arbitrary: line)
  case (Cons k ks)
  have "length (edit_line b k line) \<le> Suc (length line)" by (auto simp: edit_line_def)
  then show ?case using Cons.IH [of "edit_line b k line"] by simp
qed simp

section \<open>A shell at work\<close>

text \<open>The keys spell a command and the enter key; a zero is a poll that found no key.\<close>

definition busy_shell :: shell where
  "busy_shell = fs.extend blank_fs
     \<lparr>working_dir = str ''/home'', working_dir_len = 5, keys = [0x2E, 0, 0x20, 0x39, 0x34, 0x34, 0x35, 0x2D, 0x0E, 0x1E, 0x1C],
      behind_line = (\<lambda>_. 7), behind_table = (\<lambda>_. 0), behind_file = [], overrun = False\<rparr>"

lemma busy_shell_sel [simp]:
  "working_dir busy_shell = str ''/home''" "behind_table busy_shell = (\<lambda>_. 0)" "overrun busy_shell = False"
  "keys busy_shell = [0x2E, 0, 0x20, 0x39, 0x34, 0x34, 0x35, 0x2D, 0x0E, 0x1E] @ 0x1C # []"
  by (simp_all add: busy_shell_def fs.extend_def)

section \<open>Properties\<close>

text \<open>
  C21: \<open>parse_path\<close> brings every absolute path of at most 1001 bytes and 64 components into canonical
  form: it resolves \<open>.\<close>, \<open>..\<close> (which stops at the root) and repeated slashes exactly as specified;
  the result never needs more room than the buffer it is written to has, has no \<open>.\<close> or \<open>..\<close> left,
  and is left alone when parsed again.
\<close>
theorem parse_path_correct:
  assumes "deref p = 47" "length p \<le> 1001" "length (str_split 47 p) \<le> 64"
  shows "\<exists>q. parse_path p = Some q \<and> q = canon (resolve_dots (str_split 47 p)) \<and> length q \<le> length p \<and>
    set (str_split 47 q) \<inter> {str ''.'', str ''..''} = {} \<and> parse_path q = Some q"
  using canon_facts [OF assms] by blast

theorem parse_path_correct_witness:
  "parse_path (str ''/home//me/./../x'') = Some (str ''/home/x'')"
proof -
  have s: "str_split 47 (str ''/home//me/./../x'') = [str ''home'', str ''me'', str ''.'', str ''..'', str ''x'']"
    by (simp add: str_split.simps str_def)
  have "resolve_dots [str ''home'', str ''me'', str ''.'', str ''..'', str ''x''] = [str ''home'', str ''x'']"
    by (simp add: resolve_dots_def step_dots_def str_def)
  then show ?thesis
    using parse_path_correct [of "str ''/home//me/./../x''"] unfolding s
    by (simp add: canon_def) (simp add: str_def deref_def)
qed

text \<open>
  C20: What was typed is what is executed. Whatever the user types before the enter key, with
  backspaces, as long as the line never reaches 128 characters, \<open>read_command_line\<close> returns, consumes
  exactly these keys, and \<open>parse_command_line\<close> of its buffer ends and yields the meaning of the
  line: the first command whose name starts with the first word, and the words behind it, whatever
  the memory behind the buffer holds.
\<close>
theorem command_line_understood:
  assumes "keys s = ks @ 0x1C # rest" "0x1C \<notin> set ks"
    and "\<forall>n\<le>length ks. length (fold (edit_line (behind_table s)) (take n ks) []) < 128"
  shows "\<exists>buf t. read_command_line s = Some (buf, t) \<and> length buf = 128 \<and> keys t = rest \<and>
    parse_command_line (line_at (behind_line t) buf) = Some (meaning (fold (edit_line (behind_table s)) ks []))"
proof -
  define line where "line = fold (edit_line (behind_table s)) ks []"
  have len: "length line < 128" using assms(3) [THEN spec, of "length ks"] by (simp add: line_def)
  have p: "pad [] = replicate 128 0" by (simp add: pad_def)
  obtain t where "read_command_line s = Some (pad line, t)" "keys t = rest"
    using line_loop_typed [OF assms(1,2), of "[]" 0] assms(3) unfolding read_command_line_def line_def p by auto
  moreover have "parse_command_line (line_at (behind_line t) (pad line)) = Some (meaning line)"
    using parse_command_line_eq [OF len, of "behind_line t"] fold_edit_nonzero [of "[]"] by (simp add: line_def line_mem_def)
  moreover have "length (pad line) = 128" using len by (simp add: pad_def)
  ultimately show ?thesis unfolding line_def by blast
qed

theorem command_line_understood_witness:
  "\<exists>buf t. read_command_line busy_shell = Some (buf, t) \<and>
     parse_command_line (line_at (behind_line t) buf) = Some (Some (Cmd_cd, [str ''../a'']))"
proof -
  define ks :: "u16 list" where "ks = [0x2E, 0, 0x20, 0x39, 0x34, 0x34, 0x35, 0x2D, 0x0E, 0x1E]"
  have k: "keys busy_shell = ks @ 0x1C # []" "0x1C \<notin> set ks" by (simp_all add: ks_def)
  have n: "\<forall>n\<le>length ks. length (fold (edit_line (behind_table busy_shell)) (take n ks) []) < 128"
  proof (intro allI impI)
    fix n
    have "length (fold (edit_line (behind_table busy_shell)) (take n ks) []) \<le> length (take n ks)"
      using length_fold_edit [of _ "take n ks" "[]"] by simp
    also have "\<dots> \<le> 10" by (simp add: ks_def)
    finally show "length (fold (edit_line (behind_table busy_shell)) (take n ks) []) < 128" by simp
  qed
  have line: "fold (edit_line (behind_table busy_shell)) ks [] = str ''cd ../a''"
    by (simp add: ks_def edit_line_def is_character_def table_at_def scancode_to_ascii_def str_def)
  have "meaning (str ''cd ../a'') = Some (Cmd_cd, [str ''../a''])"
    by (simp add: meaning_def meant_def command_names_def str_def words.simps)
  then show ?thesis using command_line_understood [OF k n] unfolding line by auto
qed

text \<open>
  C22: \<open>cd\<close> of a path that is absolute or continues an absolute working directory makes its canonical
  form the working directory, whether or not such a directory exists. It writes behind the 128 bytes
  of \<open>working_dir\<close> exactly if the canonical path has 128 bytes or more: nothing stops the user from
  getting there by descending step by step.
\<close>
theorem cmd_cd_correct:
  fixes s :: "'a shell_scheme"
  defines "wd \<equiv> working_dir s"
  assumes "deref wd = 47" "length wd + length arg \<le> 1000"
    and "length (str_split 47 (if deref arg = 47 then arg else wd @ str ''/'' @ arg)) \<le> 64"
  shows "\<exists>q. q = canon (resolve_dots (str_split 47 (if deref arg = 47 then arg else wd @ str ''/'' @ arg))) \<and>
    cmd_cd [arg] s = Some (s\<lparr>working_dir := q, working_dir_len := int (length q), overrun := overrun s \<or> 128 \<le> length q\<rparr>) \<and>
    deref q = 47 \<and> parse_path q = Some q"
proof -
  define p where "p = (if deref arg = 47 then arg else wd @ str ''/'' @ arg)"
  have j: "join_working_dir arg s = Some p"
    using assms(3) str_concats_Some [of "[wd, str ''/'', arg]"]
    by (simp add: join_working_dir_def p_def wd_def strdup_Some del: slash) (simp add: wd_def)
  have d: "deref p = 47" using assms(2) by (cases wd) (auto simp: p_def deref_def)
  have l: "length p \<le> 1001" using assms(3) by (simp add: p_def)
  note f = canon_facts [OF d l assms(4) [folded p_def]]
  define q where "q = canon (resolve_dots (str_split 47 p))"
  have "strlen q = int (length q)" using f(3) l by (simp add: q_def strlen_eq)
  then have "cmd_cd [arg] s = Some (s\<lparr>working_dir := q, working_dir_len := int (length q), overrun := overrun s \<or> 128 \<le> length q\<rparr>)"
    using j f(1) by (simp add: cmd_cd_def full_path_def q_def Let_def)
  then show ?thesis using f(2,4) unfolding p_def [symmetric] q_def by blast
qed

theorem cmd_cd_correct_witness:
  "(\<exists>t. cmd_cd [str ''..''] busy_shell = Some t \<and> working_dir t = str ''/'' \<and> \<not> overrun t) \<and>
   (\<exists>t. cmd_cd [replicate 125 97] busy_shell = Some t \<and> overrun t)"
proof
  have a: "str_split 47 (working_dir busy_shell @ str ''/'' @ str ''..'') = [str ''home'', str ''..'']"
    by (simp add: str_split.simps str_def)
  have "resolve_dots [str ''home'', str ''..''] = []" by (simp add: resolve_dots_def step_dots_def str_def)
  then show "\<exists>t. cmd_cd [str ''..''] busy_shell = Some t \<and> working_dir t = str ''/'' \<and> \<not> overrun t"
    using cmd_cd_correct [of busy_shell "str ''..''"] a by (simp add: canon_def deref_def str_def)
next
  define big :: cstr where "big = replicate 125 97"
  have len: "length big = 125" by (simp add: big_def)
  have n: "big \<noteq> str ''..''" "big \<noteq> str ''.''" using len by auto
  have hd: "deref big = 97" by (simp add: big_def deref_def numeral_eq_Suc)
  have wd: "deref (working_dir busy_shell) = 47" "length (working_dir busy_shell) + length big \<le> 1000"
    by (simp_all add: len) (simp_all add: str_def deref_def)
  have j: "(if deref big = 47 then big else working_dir busy_shell @ str ''/'' @ big) = str_join 47 [str ''home'', big]"
    using hd by (simp add: str_def)
  have "str_split 47 (str_join 47 [str ''home'', big]) = [str ''home'', big]"
    by (rule str_split_join) (auto simp: str_def big_def)
  moreover have "resolve_dots [str ''home'', big] = [str ''home'', big]"
    using n by (simp add: resolve_dots_def step_dots_def) (simp add: str_def)
  moreover have "128 \<le> length (canon [str ''home'', big])" by (simp add: canon_def len str_def)
  ultimately show "\<exists>t. cmd_cd [replicate 125 97] busy_shell = Some t \<and> overrun t"
    using cmd_cd_correct [OF wd] unfolding j big_def [symmetric] by auto
qed

end
