(* ===== verification/LoaderProps.thy ===== *)
theory LoaderProps
  imports SchedTheorems Loader
begin

unbundle bit_operations_syntax

text \<open>
  Properties of the program loader: what a segment's memory holds after it was loaded, read by the
  processor through the page tables.
\<close>

section \<open>Entries of pages\<close>

text \<open>The entry that maps a page, with its flags.\<close>

definition leaf :: "'a vmm_scheme \<Rightarrow> u64 \<Rightarrow> u64 option" where
  "leaf s v = map_option (\<lambda>pt. tables s pt (PT_INDEX v)) (vmm_walk v s)"

abbreviation pt_path :: "u64 \<Rightarrow> nat list" where
  "pt_path v \<equiv> [PML4_INDEX v, PDPT_INDEX v, PD_INDEX v]"

lemma leaf_node:
  "leaf s v = (case node s (current_PML4 s) (pt_path v) of None \<Rightarrow> None
     | Some pt \<Rightarrow> if entry_present (tables s pt (PT_INDEX v)) then Some (tables s pt (PT_INDEX v)) else None)"
  unfolding leaf_def vmm_walk_node vpath_snoc node_snoc by (auto split: option.splits)

lemma leaf_None: "leaf s v = None \<longleftrightarrow> node s (current_PML4 s) (vpath v) = None"
  by (simp add: leaf_def vmm_walk_None)

lemma leaf_present: "leaf s v = Some e \<Longrightarrow> entry_present e"
  by (auto simp: leaf_node split: option.splits if_splits)

lemma leaf_page:
  assumes "leaf s v = Some e"
  shows "node s (current_PML4 s) (vpath v) = Some (push_bit 12 (physical_addr e) + hhdm_offset s)"
  using assms by (auto simp: leaf_def entry_ptr_def dest: vmm_walk_Some(3))

lemma leaf_cong:
  assumes "tables t = tables s" "hhdm_offset t = hhdm_offset s" "current_PML4 t = current_PML4 s"
  shows "leaf t v = leaf s v"
  unfolding leaf_node node_cong [OF assms(1,2)] assms by simp

lemma leaf_vpath: "vpath v = vpath w \<Longrightarrow> leaf s v = leaf s w"
  unfolding leaf_node by (simp add: vpath_def)

lemma mpath_pt [simp]: "mpath K (pt_path v) \<longleftrightarrow> PML4_INDEX v \<in> K"
  by (simp add: mpath_def)

lemma leaf_ext:
  assumes tree: "page_tree K s" and ext: "tree_ext K s s'" and K: "PML4_INDEX w \<in> K"
  shows "leaf s' w = leaf s w"
proof (cases "leaf s w")
  case None
  then have "leaf s' w = None" using ext K tree_ext_same [OF ext] by (simp add: leaf_None tree_ext_def)
  then show ?thesis using None by simp
next
  case (Some e)
  then obtain pt where pt: "node s (current_PML4 s) (pt_path w) = Some pt" "entry_present (tables s pt (PT_INDEX w))"
    "e = tables s pt (PT_INDEX w)" by (auto simp: leaf_node split: option.splits if_splits)
  have m: "mpath K (pt_path w)" using K by simp
  have "node s' (current_PML4 s) (pt_path w) = Some pt" using ext m pt(1) by (simp add: tree_ext_def del: node.simps)
  moreover have "tables s' pt (PT_INDEX w) = tables s pt (PT_INDEX w)"
    using ext page_treeD_used [OF tree m pt(1)] pt(2) by (simp add: tree_ext_def kept_entries_def)
  ultimately show ?thesis
    using Some pt tree_ext_same [OF ext] unfolding leaf_node by (simp del: node.simps)
qed

definition tree_inj :: "nat set \<Rightarrow> 'a vmm_scheme \<Rightarrow> bool" where
  "tree_inj K s \<longleftrightarrow> (\<forall>p q t u. mpath K p \<longrightarrow> mpath K q \<longrightarrow> node s (current_PML4 s) p = Some t \<longrightarrow>
     node s (current_PML4 s) q = Some u \<longrightarrow> node_frame s t = node_frame s u \<longrightarrow> p = q)"

lemma page_tree_inj: "page_tree K s \<Longrightarrow> tree_inj K s"
  by (simp add: page_tree_def tree_inj_def)

lemma tree_injD:
  "tree_inj K s \<Longrightarrow> mpath K p \<Longrightarrow> mpath K q \<Longrightarrow> node s (current_PML4 s) p = Some t \<Longrightarrow>
     node s (current_PML4 s) q = Some u \<Longrightarrow> node_frame s t = node_frame s u \<Longrightarrow> p = q"
  by (auto simp: tree_inj_def)

lemma leaf_set_entry:
  assumes tree: "tree_inj K s" and pt: "node s (current_PML4 s) (pt_path v) = Some pt" and K: "PML4_INDEX v \<in> K"
    and e: "entry_present e" and w: "PML4_INDEX w \<in> K"
    and nodes: "\<forall>q. mpath K q \<longrightarrow> length q = 3 \<longrightarrow> node (set_entry pt (PT_INDEX v) e s) (current_PML4 s) q = node s (current_PML4 s) q"
  shows "leaf (set_entry pt (PT_INDEX v) e s) w = (if vpath w = vpath v then Some e else leaf s w)"
proof -
  let ?s = "set_entry pt (PT_INDEX v) e s"
  have r: "current_PML4 ?s = current_PML4 s" by (simp add: frame_simps)
  have n: "node ?s (current_PML4 s) (pt_path w) = node s (current_PML4 s) (pt_path w)"
    using nodes w by (simp del: node.simps)
  show ?thesis
  proof (cases "vpath w = vpath v")
    case True
    then have "pt_path w = pt_path v" "PT_INDEX w = PT_INDEX v" by (simp_all add: vpath_def)
    then show ?thesis using True n pt e unfolding leaf_node r by (simp add: set_entry_def del: node.simps)
  next
    case False
    have "u \<noteq> pt \<or> PT_INDEX w \<noteq> PT_INDEX v" if "node s (current_PML4 s) (pt_path w) = Some u" for u
      using tree_injD [OF tree _ _ that pt] w K False by (auto simp: vpath_def simp del: node.simps)
    then show ?thesis
      using False n unfolding leaf_node r by (auto simp: set_entry_def simp del: node.simps split: option.splits)
  qed
qed

lemma vmm_map_page_leaf:
  assumes tree: "page_tree K s" and K: "PML4_INDEX virt \<in> K" and free: "3 \<le> card (free_frames s)"
    and f: "fresh_page K f s" and flags: "entry_present flags"
    and absent: "node s (current_PML4 s) (vpath virt) = None"
    and step: "vmm_map_page virt (word_of_nat (f * 4096)) flags s = (ok, s')" and w: "PML4_INDEX w \<in> K"
  shows "leaf s' w = (if vpath w = vpath virt then Some (set_physical_addr (drop_bit 12 (word_of_nat (f * 4096))) flags)
    else leaf s w)"
proof -
  from vmm_descend_tree [OF tree K free] obtain pt s1 where d: "vmm_descend virt s = (Some pt, s1)"
    "node s1 (current_PML4 s) (pt_path virt) = Some pt" "page_tree K s1" and ext: "tree_ext K s s1"
    by blast
  note same = tree_ext_same [OF ext]
  define e where "e = set_physical_addr (drop_bit 12 (word_of_nat (f * 4096))) flags"
  have path: "mpath K (pt_path virt @ [PT_INDEX virt])" using K by (simp add: mpath_def)
  have pt: "node s1 (current_PML4 s1) (pt_path virt) = Some pt" using d(2) same by (simp del: node.simps)
  have "node s1 (current_PML4 s) (vpath virt) = None" using ext absent K by (simp add: tree_ext_def)
  then have free1: "\<not> entry_present (tables s1 pt (PT_INDEX virt))"
    using d(2) by (auto simp: vpath_snoc node_snoc simp del: node.simps append_Cons split: if_splits)
  note fr = fresh_page_ext [OF ext f]
  have "pmm_is_reserved (word_of_nat (f * 4096)) s1"
    using fr fresh_page_limit [OF d(3) fr] by (simp add: fresh_page_def pmm.reserved_iff del: of_nat_mult)
  then have leafstep: "vmm_map_leaf pt (PT_INDEX virt) (word_of_nat (f * 4096)) flags s1 = (True, set_entry pt (PT_INDEX virt) e s1)"
    using free1 by (simp add: vmm_map_leaf_def e_def)
  then have s': "s' = set_entry pt (PT_INDEX virt) e s1" using step d(1) by (simp add: vmm_map_page_descend)
  have nodes: "\<forall>q. mpath K q \<longrightarrow> length q = 3 \<longrightarrow> node (set_entry pt (PT_INDEX virt) e s1) (current_PML4 s1) q = node s1 (current_PML4 s1) q"
    using vmm_map_leaf_tree [OF d(3) pt path _ fr flags free1 leafstep] by auto
  have "leaf s' w = (if vpath w = vpath virt then Some e else leaf s1 w)"
    unfolding s' using flags by (intro leaf_set_entry [OF page_tree_inj [OF d(3)] pt K _ w nodes]) (simp add: e_def)
  then show ?thesis using leaf_ext [OF tree ext w] by (simp add: e_def)
qed

lemma vmm_alloc_pages_leaf:
  assumes "page_tree K s" "0 \<in> used_frames s" "entry_present flags"
    and "\<forall>i\<in>set is. PML4_INDEX (page_at start i) \<in> K \<and> node s (current_PML4 s) (vpath (page_at start i)) = None"
    and "distinct (map (\<lambda>i. vpath (page_at start i)) is)" "4 * length is \<le> card (free_frames s)"
  shows "\<exists>s'. vmm_alloc_pages start flags is s = (None, s') \<and> page_tree K s' \<and>
    current_PML4 s' = current_PML4 s \<and> hhdm_offset s' = hhdm_offset s \<and>
    (\<forall>i\<in>set is. \<exists>f<2 ^ 40. leaf s' (page_at start i) = Some (set_physical_addr (drop_bit 12 (word_of_nat (f * 4096))) flags)) \<and>
    (\<forall>w. PML4_INDEX w \<in> K \<longrightarrow> (\<forall>i\<in>set is. vpath w \<noteq> vpath (page_at start i)) \<longrightarrow> leaf s' w = leaf s w)"
  using assms
proof (induction "is" arbitrary: s)
  case Nil
  then show ?case by simp
next
  case (Cons i "is")
  let ?v = "page_at start i"
  have "free_frames s \<noteq> {}" using Cons.prems(6) by auto
  from alloc_frame_page_tree [OF Cons.prems(1,2) this] obtain f s1 where f:
    "pmm_alloc_frame s = (word_of_nat (f * 4096), s1)" "f \<in> free_frames s"
    "(word_of_nat (f * 4096) :: u64) \<noteq> 0" "page_tree K s1" "fresh_page K f s1"
    and s1: "current_PML4 s1 = current_PML4 s" "hhdm_offset s1 = hhdm_offset s" "total_frames s1 = total_frames s"
    "used_frames s1 = insert f (used_frames s)" "\<And>q. node s1 (current_PML4 s) q = node s (current_PML4 s) q"
    by blast
  have "free_frames s1 = free_frames s - {f}" by (auto simp: free_frames_def s1)
  with f(2) have card1: "card (free_frames s) = Suc (card (free_frames s1))"
    by (metis card_Suc_Diff1 finite_free_frames)
  have leaf1: "leaf s1 w = leaf s w" for w
    by (rule leaf_cong) (use f(1) pmm_alloc_frame_vmm [of s] in simp_all)
  obtain ok s2 where step: "vmm_map_page ?v (word_of_nat (f * 4096)) flags s1 = (ok, s2)" by fastforce
  have pre: "PML4_INDEX ?v \<in> K" "3 \<le> card (free_frames s1)" "node s1 (current_PML4 s1) (vpath ?v) = None"
    using Cons.prems card1 by (auto simp: s1)
  note m = vmm_map_page_tree [OF f(4) pre(1,2) f(5) Cons.prems(3) pre(3) step]
  have leaf2: "leaf s2 w = (if vpath w = vpath ?v then Some (set_physical_addr (drop_bit 12 (word_of_nat (f * 4096))) flags)
      else leaf s w)" if "PML4_INDEX w \<in> K" for w
    using vmm_map_page_leaf [OF f(4) pre(1,2) f(5) Cons.prems(3) pre(3) step that] by (simp add: leaf1)
  have s2: "ok" "page_tree K s2" "current_PML4 s2 = current_PML4 s" "hhdm_offset s2 = hhdm_offset s"
    "0 \<in> used_frames s2" "card (free_frames s1) \<le> card (free_frames s2) + 3"
    using m s1 Cons.prems(2) by auto
  have rest: "vpath (page_at start j) \<noteq> vpath ?v" if "j \<in> set is" for j
    using Cons.prems(5) that by (metis (no_types, lifting) distinct.simps(2) image_eqI list.set_map list.simps(9))
  have pre2: "\<forall>j\<in>set is. PML4_INDEX (page_at start j) \<in> K \<and> node s2 (current_PML4 s2) (vpath (page_at start j)) = None"
  proof
    fix j assume j: "j \<in> set is"
    then have K: "PML4_INDEX (page_at start j) \<in> K" "leaf s (page_at start j) = None" using Cons.prems(4) by (simp_all add: leaf_None)
    then show "PML4_INDEX (page_at start j) \<in> K \<and> node s2 (current_PML4 s2) (vpath (page_at start j)) = None"
      using leaf2 [OF K(1)] rest [OF j] leaf_None [of s2 "page_at start j"] by simp
  qed
  have pre3: "distinct (map (\<lambda>i. vpath (page_at start i)) is)" "4 * length is \<le> card (free_frames s2)"
    using Cons.prems(5,6) card1 s2(6) by simp_all
  from Cons.IH [OF s2(2,5) Cons.prems(3) pre2 pre3] obtain s' where s': "vmm_alloc_pages start flags is s2 = (None, s')"
    "page_tree K s'" "current_PML4 s' = current_PML4 s2" "hhdm_offset s' = hhdm_offset s2"
    "\<forall>i\<in>set is. \<exists>f<2 ^ 40. leaf s' (page_at start i) = Some (set_physical_addr (drop_bit 12 (word_of_nat (f * 4096))) flags)"
    "\<forall>w. PML4_INDEX w \<in> K \<longrightarrow> (\<forall>i\<in>set is. vpath w \<noteq> vpath (page_at start i)) \<longrightarrow> leaf s' w = leaf s2 w"
    by blast
  have lim: "f < 2 ^ 40" using fresh_page_limit [OF f(4,5)] .
  have "leaf s' ?v = Some (set_physical_addr (drop_bit 12 (word_of_nat (f * 4096))) flags)"
    using s'(6) pre(1) rest leaf2 [OF pre(1)] by (metis (full_types))
  moreover have "vmm_alloc_pages start flags (i # is) s = (None, s')" using f(1,3) step s2(1) s'(1) by simp
  moreover have "leaf s' w = leaf s w" if "PML4_INDEX w \<in> K" "\<forall>j\<in>set (i # is). vpath w \<noteq> vpath (page_at start j)" for w
    using s'(6) leaf2 [OF that(1)] that by simp
  ultimately show ?case using s'(2-5) s2(3,4) lim by (intro exI [of _ s']) auto
qed

section \<open>Bytes of pages\<close>

lemma cpu_entry_leaf:
  assumes "cr3 s + hhdm_offset s = current_PML4 s"
  shows "cpu_entry v s = leaf s v"
  unfolding cpu_entry_def leaf_def assms by simp

text \<open>A range of virtual addresses whose bytes are in distinct places of writable pages.\<close>

definition writable_range :: "u64 \<Rightarrow> nat \<Rightarrow> (nat \<Rightarrow> u64) \<Rightarrow> 'a vmm_scheme \<Rightarrow> bool" where
  "writable_range va n place s \<longleftrightarrow> inj_on place {..<n} \<and>
     (\<forall>j<n. \<exists>e. cpu_entry (va + word_of_nat j) s = Some e \<and> bit e 1 \<and> frame_byte e (va + word_of_nat j) s = place j)"

lemma cpu_entry_ram [simp]: "cpu_entry v (s\<lparr>ram := r\<rparr>) = cpu_entry v s" "frame_byte e v (s\<lparr>ram := r\<rparr>) = frame_byte e v s"
  by (simp_all add: cpu_entry_def vmm_walk_def entry_ptr_def frame_byte_def Let_def)

lemma writable_range_ram [simp]: "writable_range va n place (s\<lparr>ram := r\<rparr>) = writable_range va n place s"
  by (simp add: writable_range_def)

text \<open>The content of memory after the bytes \<open>bs\<close> were stored from offset \<open>k\<close> on.\<close>

definition stored :: "(nat \<Rightarrow> u64) \<Rightarrow> nat \<Rightarrow> u8 list \<Rightarrow> (u64 \<Rightarrow> u8) \<Rightarrow> u64 \<Rightarrow> u8" where
  "stored place k bs r = fold (\<lambda>i r. r(place (k + i) := bs ! i)) [0..<length bs] r"

lemma stored_Cons: "stored place k (b # bs) r = stored place (Suc k) bs (r(place k := b))"
proof -
  have "[0..<length (b # bs)] = 0 # map Suc [0..<length bs]" by (simp add: map_Suc_upt upt_conv_Cons del: upt_Suc)
  then show ?thesis unfolding stored_def by (simp add: fold_map comp_def del: upt_Suc)
qed

lemma store_bytes_range:
  assumes "writable_range va n place s" "k + length bs \<le> n"
  shows "store_bytes (va + word_of_nat k) bs s = Ok () (s\<lparr>ram := stored place k bs (ram s)\<rparr>)"
  using assms
proof (induction bs arbitrary: k s)
  case Nil
  then show ?case by (simp add: stored_def)
next
  case (Cons b bs)
  then have k: "k < n" by simp
  obtain e where e: "cpu_entry (va + word_of_nat k) s = Some e" "bit e 1" "frame_byte e (va + word_of_nat k) s = place k"
    using Cons.prems(1) k unfolding writable_range_def by blast
  define s1 where "s1 = s\<lparr>ram := (ram s)(place k := b)\<rparr>"
  have st: "store_byte (va + word_of_nat k) b s = Some s1" using e by (simp add: store_byte_def s1_def)
  have "store_bytes (va + word_of_nat (Suc k)) bs s1 = Ok () (s1\<lparr>ram := stored place (Suc k) bs (ram s1)\<rparr>)"
    using Cons.prems by (intro Cons.IH) (simp_all add: s1_def)
  then show ?case using st by (simp add: stored_Cons s1_def add.assoc [symmetric] add.commute [of 1])
qed

lemma stored_at:
  assumes "inj_on place {..<n}" "k + length bs \<le> n" "j < n"
  shows "stored place k bs r (place j) = (if k \<le> j \<and> j < k + length bs then bs ! (j - k) else r (place j))"
  using assms(2)
proof (induction bs arbitrary: k r)
  case Nil
  then show ?case by (auto simp: stored_def)
next
  case (Cons b bs)
  then have k: "k < n" by simp
  have "place j = place k \<longleftrightarrow> j = k" using assms(1,3) k by (simp add: inj_on_eq_iff)
  then show ?case using Cons.IH [of "Suc k"] Cons.prems
    by (auto simp: stored_Cons nth_Cons' not_less_eq_eq Suc_diff_le)
qed

lemma load_bytes_map:
  assumes "\<forall>j<n. load_byte (va + word_of_nat j) s = Some (g j)" "k \<le> n"
  shows "load_bytes (va + word_of_nat k) (n - k) s = Some (map g [k..<n])"
  using assms(2)
proof (induction "n - k" arbitrary: k)
  case (Suc m)
  then have k: "k < n" "m = n - Suc k" by simp_all
  have "load_bytes (va + word_of_nat (Suc k)) m s = Some (map g [Suc k..<n])" using Suc(1) [OF k(2)] k by simp
  moreover have b: "va + word_of_nat k + 1 = va + word_of_nat (Suc k)" by simp
  moreover have n: "n - k = Suc m" using Suc(2) by simp
  ultimately show ?case
    using assms(1) k(1) unfolding n upt_conv_Cons [OF k(1)] by (simp add: b del: of_nat_Suc)
qed simp

section \<open>Changing the flags of pages\<close>

lemma node_set_same:
  assumes "entry_present e = entry_present (tables s t i)" "physical_addr e = physical_addr (tables s t i)"
  shows "node (set_entry t i e s) r q = node s r q"
proof (induction q arbitrary: r)
  case (Cons j q)
  have "entry_ptr (set_entry t i e s) r j = entry_ptr s r j"
    using assms(2) by (auto simp: entry_ptr_def set_entry_def)
  moreover have "entry_present (tables (set_entry t i e s) r j) = entry_present (tables s r j)"
    using assms(1) by (auto simp: set_entry_def)
  ultimately show ?case using Cons by simp
qed simp

lemma physical_addr_again: "take_bit 40 (drop_bit 12 (push_bit 12 (physical_addr e))) = physical_addr e"
  by (rule bit_word_eqI) (auto simp: physical_addr_def bit_simps)

definition flagged :: "u64 \<Rightarrow> 'a vmm_scheme \<Rightarrow> u64 \<Rightarrow> bool" where
  "flagged flags s w \<longleftrightarrow> (\<exists>p. leaf s w = Some (set_physical_addr p flags))"

lemma set_physical_addr_bit: "n < 12 \<or> 52 \<le> n \<Longrightarrow> bit (set_physical_addr p flags) n = bit flags n"
  using bit_imp_le_length [of flags n] by (auto simp: set_physical_addr_def bit_simps)

text \<open>Editing leaves every node, the memory and the registers alone.\<close>

definition same_nodes :: "'a vmm_scheme \<Rightarrow> 'a vmm_scheme \<Rightarrow> bool" where
  "same_nodes s t \<longleftrightarrow> (\<forall>r q. node t r q = node s r q) \<and> ram t = ram s \<and> current_PML4 t = current_PML4 s \<and>
     hhdm_offset t = hhdm_offset s \<and> cr3 t = cr3 s"

lemma same_nodes_trans: "same_nodes s t \<Longrightarrow> same_nodes t u \<Longrightarrow> same_nodes s u"
  by (simp add: same_nodes_def)

lemma same_nodes_inj: "same_nodes s t \<Longrightarrow> tree_inj K s \<Longrightarrow> tree_inj K t"
  by (simp add: same_nodes_def tree_inj_def node_frame_def)

lemma vmm_edit_page_leaf:
  assumes tree: "tree_inj K s" and flags: "entry_present flags" and v: "PML4_INDEX v \<in> K" "leaf s v \<noteq> None"
  defines "t \<equiv> snd (vmm_edit_page v 0 flags s)"
  shows "same_nodes s t" "flagged flags t v"
    "PML4_INDEX w \<in> K \<Longrightarrow> vpath w \<noteq> vpath v \<Longrightarrow> leaf t w = leaf s w"
proof -
  obtain pt where pt: "vmm_walk v s = Some pt" using v(2) by (auto simp: leaf_def)
  note w3 = vmm_walk_Some [OF pt]
  define e where "e = set_physical_addr (drop_bit 12 (push_bit 12 (physical_addr (tables s pt (PT_INDEX v))))) flags"
  have "flags \<noteq> 0" using flags by auto
  then have t: "t = set_entry pt (PT_INDEX v) e s" using pt by (simp add: t_def vmm_edit_page_def Let_def e_def)
  have e: "entry_present e" "physical_addr e = physical_addr (tables s pt (PT_INDEX v))"
    using flags by (simp_all add: e_def physical_addr_again)
  have n: "node t r q = node s r q" for r q unfolding t using e w3(2) by (intro node_set_same) simp_all
  then show "same_nodes s t" by (simp add: same_nodes_def t frame_simps)
  have "leaf t w = (if vpath w = vpath v then Some e else leaf s w)" if "PML4_INDEX w \<in> K" for w
    unfolding t using n by (intro leaf_set_entry [OF tree w3(1) v(1) e(1) that]) (simp add: t)
  then show "flagged flags t v" "PML4_INDEX w \<in> K \<Longrightarrow> vpath w \<noteq> vpath v \<Longrightarrow> leaf t w = leaf s w"
    using v(1) by (auto simp: flagged_def e_def)
qed

lemma edit_pages_leaf:
  assumes "tree_inj K s" "entry_present flags"
    and "\<forall>i\<in>set is. PML4_INDEX (page_at start i) \<in> K \<and> leaf s (page_at start i) \<noteq> None"
  shows "same_nodes s (snd (fold (\<lambda>i (success, s). case vmm_edit_page (page_at start i) 0 flags s of
        (ok, s') \<Rightarrow> (success \<and> ok, s')) is (b, s))) \<and>
    (\<forall>w. PML4_INDEX w \<in> K \<longrightarrow> flagged flags s w \<or> (\<exists>i\<in>set is. vpath w = vpath (page_at start i)) \<longrightarrow>
      flagged flags (snd (fold (\<lambda>i (success, s). case vmm_edit_page (page_at start i) 0 flags s of
        (ok, s') \<Rightarrow> (success \<and> ok, s')) is (b, s))) w)"
  using assms
proof (induction "is" arbitrary: s b)
  case Nil
  then show ?case by (simp add: same_nodes_def)
next
  case (Cons i "is")
  let ?v = "page_at start i"
  define t where "t = snd (vmm_edit_page ?v 0 flags s)"
  have v: "PML4_INDEX ?v \<in> K" "leaf s ?v \<noteq> None" using Cons.prems(3) by simp_all
  note e = vmm_edit_page_leaf [OF Cons.prems(1,2) v, folded t_def]
  have "leaf t w = None \<longleftrightarrow> leaf s w = None" for w using e(1) by (simp add: leaf_None same_nodes_def)
  then have pre: "\<forall>i\<in>set is. PML4_INDEX (page_at start i) \<in> K \<and> leaf t (page_at start i) \<noteq> None" using Cons.prems(3) by simp
  obtain ok where ok: "vmm_edit_page ?v 0 flags s = (ok, t)" using t_def by (metis prod.collapse)
  have f: "flagged flags t w" if "PML4_INDEX w \<in> K" "flagged flags s w \<or> vpath w = vpath ?v" for w
    using e(2,3) that leaf_vpath [of w ?v t] by (cases "vpath w = vpath ?v") (auto simp: flagged_def)
  from Cons.IH [OF same_nodes_inj [OF e(1) Cons.prems(1)] Cons.prems(2) pre, of "b \<and> ok"] show ?case
    using ok f same_nodes_trans [OF e(1)] by (auto simp del: split_paired_All)
qed

section \<open>The pages of a segment\<close>

text \<open>A segment: a non-empty range of addresses that does not wrap around the virtual address space.\<close>

definition segment_fits :: "u64 \<Rightarrow> u64 \<Rightarrow> bool" where
  "segment_fits va msz \<longleftrightarrow> 0 < unat msz \<and> unat va + unat msz \<le> 2 ^ 48"

lemma segment_pages:
  assumes "segment_fits va msz"
  shows "page_amount va (va + msz - 1) = (unat va + unat msz - 1) div 4096 - unat va div 4096 + 1"
    and "page_amount va (va + msz - 1) \<le> 2 ^ 36"
proof -
  have fits: "0 < unat msz" "unat va + unat msz \<le> 2 ^ 48" using assms by (simp_all add: segment_fits_def)
  define x where "x = unat va + unat msz - 1"
  have x: "unat va \<le> x" "x < 2 ^ 48" using fits by (simp_all add: x_def)
  have ne: "1 \<le> va + msz" using fits by (simp add: word_le_nat_alt unat_word_ariths)
  have "unat (va + msz) = unat va + unat msz" using fits by (simp add: unat_word_ariths)
  then have ue: "unat (va + msz - 1) = x" using ne by (simp add: unat_sub x_def)
  have d: "unat va div 4096 \<le> x div 4096" "x div 4096 < 2 ^ 36" using x by (simp_all add: div_le_mono less_mult_imp_div_less)
  have "va div 4096 \<le> (va + msz - 1) div 4096" using d(1) ue by (simp add: word_le_nat_alt unat_div)
  then have "unat ((va + msz - 1) div 4096 - va div 4096) = x div 4096 - unat va div 4096"
    using ue by (simp add: unat_sub unat_div)
  then have "unat ((va + msz - 1) div 4096 - va div 4096 + 1) = x div 4096 - unat va div 4096 + 1"
    using d by (simp add: unat_word_ariths)
  then show "page_amount va (va + msz - 1) = (unat va + unat msz - 1) div 4096 - unat va div 4096 + 1"
    by (simp add: page_amount_def x_def)
  then have "page_amount va (va + msz - 1) = x div 4096 - unat va div 4096 + 1" by (simp only: x_def)
  then show "page_amount va (va + msz - 1) \<le> 2 ^ 36" using d by linarith
qed

lemma segment_byte:
  assumes "segment_fits va msz" "j < unat msz"
  defines "i \<equiv> (unat va + j) div 4096 - unat va div 4096"
  shows "unat (va + word_of_nat j) = unat va + j" "i < page_amount va (va + msz - 1)"
    "vpath (va + word_of_nat j) = vpath (page_at va i)" "unat va div 4096 + i = (unat va + j) div 4096"
proof -
  have fits: "unat va + unat msz \<le> 2 ^ 48" using assms(1) by (simp add: segment_fits_def)
  show u: "unat (va + word_of_nat j) = unat va + j" using fits assms(2) by (simp add: unat_word_ariths unat_of_nat)
  have le: "unat va div 4096 \<le> (unat va + j) div 4096" by (simp add: div_le_mono)
  then show i: "unat va div 4096 + i = (unat va + j) div 4096" by (simp add: i_def)
  have "(unat va + j) div 4096 \<le> (unat va + unat msz - 1) div 4096" using assms(2) by (intro div_le_mono) simp
  then show "i < page_amount va (va + msz - 1)" unfolding segment_pages(1) [OF assms(1)] i_def using le by linarith
  have "vpn (page_at va i) = vpn (va + word_of_nat j)" unfolding vpn_page_at i by (simp add: vpn_def u)
  then show "vpath (va + word_of_nat j) = vpath (page_at va i)" by (simp add: vpath_eq_iff)
qed

lemma low_bits: "(w :: u64) AND 0xFFF = word_of_nat (unat w mod 4096)"
proof -
  have "w AND 0xFFF = take_bit 12 w" by (simp add: take_bit_eq_mask mask_eq_exp_minus_1)
  also have "\<dots> = word_of_nat (unat w mod 4096)"
    by (simp add: word_eq_iff_unsigned [where 'a = nat] unat_of_nat unsigned_take_bit_eq take_bit_eq_mod unat_mod)
  finally show ?thesis .
qed

lemma segment_writable:
  assumes fits: "segment_fits va msz" and inj: "tree_inj K s" and root: "cr3 s + hhdm_offset s = current_PML4 s"
    and K: "\<forall>i<page_amount va (va + msz - 1). PML4_INDEX (page_at va i) \<in> K"
    and leaves: "\<forall>i<page_amount va (va + msz - 1). \<exists>f<2 ^ 40.
      leaf s (page_at va i) = Some (set_physical_addr (drop_bit 12 (word_of_nat (f * 4096))) flags)"
    and flags: "bit flags 1"
  obtains place where "writable_range va (unat msz) place s"
    "\<forall>j<unat msz. \<forall>x. node s (current_PML4 s) (vpath (va + word_of_nat j)) = Some x \<longrightarrow>
       place j = x + ((va + word_of_nat j) AND 0xFFF)"
proof -
  define pg where "pg j = (unat va + j) div 4096 - unat va div 4096" for j
  obtain f where f: "\<forall>i<page_amount va (va + msz - 1). f i < 2 ^ 40 \<and>
      leaf s (page_at va i) = Some (set_physical_addr (drop_bit 12 (word_of_nat (f i * 4096))) flags)"
    using leaves by metis
  define e where "e j = set_physical_addr (drop_bit 12 (word_of_nat (f (pg j) * 4096))) flags" for j
  define place where "place j = frame_byte (e j) (va + word_of_nat j) s" for j
  have leaf: "leaf s (va + word_of_nat j) = Some (e j)" and lim: "f (pg j) < 2 ^ 40"
    and at: "push_bit 12 (physical_addr (e j)) = word_of_nat (f (pg j) * 4096)" if "j < unat msz" for j
    using f segment_byte(2) [OF fits that, folded pg_def] leaf_vpath [OF segment_byte(3) [OF fits that, folded pg_def], of s]
      frame_addr_roundtrip [of "f (pg j)"] by (simp_all add: e_def)
  have pl: "place j = word_of_nat (f (pg j) * 4096 + (unat va + j) mod 4096) + hhdm_offset s" if "j < unat msz" for j
    by (simp add: place_def frame_byte_def at [OF that] low_bits segment_byte(1) [OF fits that])
  have "inj_on place {..<unat msz}"
  proof (rule inj_onI)
    fix j k assume "j \<in> {..<unat msz}" "k \<in> {..<unat msz}" and eq: "place j = place k"
    then have j: "j < unat msz" and k: "k < unat msz" by simp_all
    let ?a = "f (pg j) * 4096 + (unat va + j) mod 4096" and ?b = "f (pg k) * 4096 + (unat va + k) mod 4096"
    have small: "?a < 2 ^ 64" "?b < 2 ^ 64" using lim [OF j] lim [OF k] by simp_all
    have "(word_of_nat ?a :: u64) = word_of_nat ?b" using eq pl [OF j] pl [OF k] by simp
    then have ab: "?a = ?b" using small unat_word_of_nat_less [of ?a, where 'a = 64] unat_word_of_nat_less [of ?b, where 'a = 64]
      by simp
    then have fo: "f (pg j) = f (pg k)" "(unat va + j) mod 4096 = (unat va + k) mod 4096"
      using mod_mult_self3 [of "f (pg j)" 4096 "(unat va + j) mod 4096"] mod_mult_self3 [of "f (pg k)" 4096 "(unat va + k) mod 4096"]
      by simp_all
    then have ee: "e j = e k" by (simp add: e_def)
    have mp: "mpath K (vpath (page_at va (pg j)))" "mpath K (vpath (page_at va (pg k)))"
      using K segment_byte(2) [OF fits j, folded pg_def] segment_byte(2) [OF fits k, folded pg_def] by simp_all
    have "vpath (page_at va (pg j)) = vpath (page_at va (pg k))"
      using tree_injD [OF inj mp leaf_page leaf_page] leaf [OF j] leaf [OF k] ee
        leaf_vpath [OF segment_byte(3) [OF fits j, folded pg_def], of s] leaf_vpath [OF segment_byte(3) [OF fits k, folded pg_def], of s]
      by simp
    then have "pg j = pg k"
      using segment_byte(2) [OF fits j, folded pg_def] segment_byte(2) [OF fits k, folded pg_def] segment_pages(2) [OF fits]
      by (intro vpath_page_at_inj [of _ _ va]) simp_all
    then have "(unat va + j) div 4096 = (unat va + k) div 4096"
      using segment_byte(4) [OF fits j, folded pg_def] segment_byte(4) [OF fits k, folded pg_def] by simp
    then have "unat va + j = unat va + k" using fo(2) by (metis div_mult_mod_eq)
    then show "j = k" by simp
  qed
  moreover have "bit (e j) 1" for j using flags by (simp add: e_def set_physical_addr_bit)
  ultimately have "writable_range va (unat msz) place s"
    using leaf cpu_entry_leaf [OF root] by (simp add: writable_range_def place_def)
  moreover have "place j = x + ((va + word_of_nat j) AND 0xFFF)"
    if "j < unat msz" "node s (current_PML4 s) (vpath (va + word_of_nat j)) = Some x" for j x
    using that leaf_page [OF leaf [OF that(1)]] by (simp add: place_def frame_byte_def)
  ultimately show thesis using that by blast
qed

section \<open>Loading a segment\<close>

definition segment_bytes :: "(u64 \<Rightarrow> u8) \<Rightarrow> elf64_program_header_entry \<Rightarrow> u8 list" where
  "segment_bytes file entry = map (\<lambda>j. file (data_offset entry + word_of_nat j)) [0..<unat (file_size entry)]"

text \<open>What the file has, and zeros behind it.\<close>

definition segment_image :: "(u64 \<Rightarrow> u8) \<Rightarrow> elf64_program_header_entry \<Rightarrow> u8 list" where
  "segment_image file entry =
     segment_bytes file entry @ replicate (unat (memory_size entry) - unat (file_size entry)) 0"

lemma segment_stored:
  assumes w: "writable_range va (unat msz) place s" and fs: "fs \<le> msz" "length F = unat fs"
  defines "r \<equiv> stored place (unat fs) (replicate (unat msz - unat fs) 0) (stored place 0 F (ram s))"
  shows "bind_outcome (store_bytes va F s) (\<lambda>_ u. store_bytes (va + fs) (replicate (unat (msz - fs)) 0) u) = Ok () (s\<lparr>ram := r\<rparr>)"
    "j < unat msz \<Longrightarrow> r (place j) = (F @ replicate (unat msz - unat fs) 0) ! j"
proof -
  have le: "unat fs \<le> unat msz" "unat (msz - fs) = unat msz - unat fs" using fs(1) by (simp_all add: word_le_nat_alt unat_sub)
  have inj: "inj_on place {..<unat msz}" using w by (simp add: writable_range_def)
  have "store_bytes (va + word_of_nat 0) F s = Ok () (s\<lparr>ram := stored place 0 F (ram s)\<rparr>)"
    using le fs(2) by (intro store_bytes_range [OF w]) simp
  moreover have "store_bytes (va + word_of_nat (unat fs)) (replicate (unat msz - unat fs) 0) (s\<lparr>ram := stored place 0 F (ram s)\<rparr>) =
      Ok () (s\<lparr>ram := r\<rparr>)"
    using store_bytes_range [of va "unat msz" place "s\<lparr>ram := stored place 0 F (ram s)\<rparr>" "unat fs"] w le by (simp add: r_def)
  ultimately show "bind_outcome (store_bytes va F s) (\<lambda>_ u. store_bytes (va + fs) (replicate (unat (msz - fs)) 0) u) = Ok () (s\<lparr>ram := r\<rparr>)"
    using le by simp
  assume j: "j < unat msz"
  then show "r (place j) = (F @ replicate (unat msz - unat fs) 0) ! j"
    using le fs(2) by (simp add: r_def stored_at [OF inj _ j] nth_append)
qed

lemma leaf_bytes:
  assumes root: "cr3 t + hhdm_offset t = current_PML4 t" and nodes: "\<forall>r q. node t r q = node s r q"
    and same: "current_PML4 t = current_PML4 s" and leaf: "leaf s v \<noteq> None"
    and place: "\<forall>x. node s (current_PML4 s) (vpath v) = Some x \<longrightarrow> place = x + (v AND 0xFFF)"
  shows "load_byte v t = Some (ram t place)"
proof -
  have "leaf t v \<noteq> None" using leaf nodes same by (simp add: leaf_None)
  then obtain e where e: "leaf t v = Some e" by blast
  from leaf_page [OF e] have "place = push_bit 12 (physical_addr e) + hhdm_offset t + (v AND 0xFFF)"
    using nodes same place by simp
  then show ?thesis using e cpu_entry_leaf [OF root] by (simp add: load_byte_def frame_byte_def)
qed

lemma user_flags:
  "entry_present VMM_FLAGS_USER_CODE" "bit VMM_FLAGS_USER_CODE 2" "\<not> bit VMM_FLAGS_USER_CODE 1" "\<not> bit VMM_FLAGS_USER_CODE 63"
  "entry_present VMM_FLAGS_USER_RW" "bit VMM_FLAGS_USER_RW 2" "bit VMM_FLAGS_USER_RW 1" "bit VMM_FLAGS_USER_RW 63"
  by (simp_all add: entry_present_def VMM_FLAGS_USER_CODE_def VMM_FLAGS_USER_RW_def bit_numeral_rec)

lemma segment_allocated:
  fixes s :: "'a vmm_scheme"
  assumes tree: "page_tree K s" "0 \<in> used_frames s" and root: "cr3 s + hhdm_offset s = current_PML4 s"
    and fits: "segment_fits va msz" and n: "n = page_amount va (va + msz - 1)" "4 * n \<le> card (free_frames s)"
    and pages: "\<forall>i<n. PML4_INDEX (page_at va i) \<in> K \<and> \<not> vmm_is_mapped (page_at va i) s"
  obtains s1 place where "vmm_alloc va (va + msz - 1) VMM_FLAGS_KERNEL_ALL s = (True, s1)" "tree_inj K s1"
    "cr3 s1 + hhdm_offset s1 = current_PML4 s1" "\<forall>i<n. leaf s1 (page_at va i) \<noteq> None"
    "writable_range va (unat msz) place s1"
    "\<forall>j<unat msz. \<forall>x. node s1 (current_PML4 s1) (vpath (va + word_of_nat j)) = Some x \<longrightarrow>
       place j = x + ((va + word_of_nat j) AND 0xFFF)"
proof -
  have fl: "entry_present VMM_FLAGS_KERNEL_ALL" "bit VMM_FLAGS_KERNEL_ALL 1"
    by (simp_all add: entry_present_def VMM_FLAGS_KERNEL_ALL_def bit_numeral_rec)
  have n36: "n \<le> 2 ^ 36" using segment_pages(2) [OF fits] n(1) by simp
  have dist: "distinct (map (\<lambda>i. vpath (page_at va i)) [0..<n])"
    using n36 by (auto simp: distinct_map intro!: inj_onI dest: vpath_page_at_inj [rotated 2])
  have free: "\<forall>i\<in>set [0..<n]. PML4_INDEX (page_at va i) \<in> K \<and> node s (current_PML4 s) (vpath (page_at va i)) = None"
    using pages by (simp add: vmm_is_mapped_translation translation_def)
  have cards: "4 * length [0..<n] \<le> card (free_frames s)" using n(2) by simp
  from vmm_alloc_pages_leaf [OF tree fl(1) free dist cards] obtain s1 where
    s1: "vmm_alloc_pages va VMM_FLAGS_KERNEL_ALL [0..<n] s = (None, s1)" "page_tree K s1"
    and leaves: "\<forall>i<n. \<exists>f<2 ^ 40. leaf s1 (page_at va i) = Some (set_physical_addr (drop_bit 12 (word_of_nat (f * 4096))) VMM_FLAGS_KERNEL_ALL)"
    by (auto simp: atLeast0LessThan)
  have al: "vmm_alloc va (va + msz - 1) VMM_FLAGS_KERNEL_ALL s = (True, s1)" using s1(1) n(1) by (simp add: vmm_alloc_def)
  have "remaps s s1" using remaps_vmm_alloc [of s va "va + msz - 1" VMM_FLAGS_KERNEL_ALL] al by simp
  then have root1: "cr3 s1 + hhdm_offset s1 = current_PML4 s1" using root by (elim remapsE) simp
  have K: "\<forall>i<page_amount va (va + msz - 1). PML4_INDEX (page_at va i) \<in> K" using pages n(1) by simp
  have some: "\<forall>i<n. leaf s1 (page_at va i) \<noteq> None" using leaves by fastforce
  show thesis
    by (rule segment_writable [OF fits page_tree_inj [OF s1(2)] root1 K leaves [unfolded n(1)] fl(2)])
      (rule that [OF al page_tree_inj [OF s1(2)] root1 some])
qed

lemma load_segment_loads:
  fixes s :: "'a sched_scheme" and entry :: elf64_program_header_entry
  defines "va \<equiv> virtual_address entry" and "msz \<equiv> memory_size entry"
    and "flags \<equiv> if bit (p_flags entry) 0 then VMM_FLAGS_USER_CODE else VMM_FLAGS_USER_RW"
  assumes tree: "page_tree K s" "0 \<in> used_frames s" and root: "cr3 s + hhdm_offset s = current_PML4 s"
    and fits: "segment_fits va msz" "file_size entry \<le> msz"
    and n: "n = page_amount va (va + msz - 1)" "4 * n \<le> card (free_frames s)"
    and pages: "\<forall>i<n. PML4_INDEX (page_at va i) \<in> K \<and> \<not> vmm_is_mapped (page_at va i) s"
  shows "\<exists>t. load_segment file entry s = Ok () t \<and> load_bytes va (unat msz) t = Some (segment_image file entry) \<and>
    (\<forall>i<n. flagged flags t (page_at va i))"
proof -
  obtain s1 place where al: "vmm_alloc va (va + msz - 1) VMM_FLAGS_KERNEL_ALL s = (True, s1)" and inj: "tree_inj K s1"
    and root1: "cr3 s1 + hhdm_offset s1 = current_PML4 s1" and some: "\<forall>i<n. leaf s1 (page_at va i) \<noteq> None"
    and place: "writable_range va (unat msz) place s1"
    "\<forall>j<unat msz. \<forall>x. node s1 (current_PML4 s1) (vpath (va + word_of_nat j)) = Some x \<longrightarrow> place j = x + ((va + word_of_nat j) AND 0xFFF)"
    by (rule segment_allocated [OF tree root fits(1) n pages])
  have len: "length (segment_bytes file entry) = unat (file_size entry)" by (simp add: segment_bytes_def)
  note st = segment_stored [OF place(1) fits(2) len]
  define s3 where "s3 = s1\<lparr>ram := stored place (unat (file_size entry)) (replicate (unat msz - unat (file_size entry)) 0)
      (stored place 0 (segment_bytes file entry) (ram s1))\<rparr>"
  have leaf3: "leaf s3 w = leaf s1 w" for w by (rule leaf_cong) (simp_all add: s3_def)
  have node3: "node s3 r q = node s1 r q" for r q by (rule node_cong) (simp_all add: s3_def)
  have f3: "current_PML4 s3 = current_PML4 s1" "hhdm_offset s3 = hhdm_offset s1" "cr3 s3 = cr3 s1" by (simp_all add: s3_def)
  have inj3: "tree_inj K s3" using inj by (simp add: tree_inj_def node3 node_frame_def f3)
  define s4 where "s4 = snd (vmm_edit_pages va (va + msz - 1) flags s3)"
  define t where "t = con_line ''[program_loader] copied entry to memory'' s4"
  have fl: "entry_present flags" by (simp add: flags_def user_flags)
  have "\<forall>i\<in>set [0..<n]. PML4_INDEX (page_at va i) \<in> K \<and> leaf s3 (page_at va i) \<noteq> None" using pages some leaf3 by simp
  from edit_pages_leaf [OF inj3 fl this, of True, folded n(1) vmm_edit_pages_def]
  have s4: "same_nodes s3 s4" and fs4: "\<forall>w. PML4_INDEX w \<in> K \<longrightarrow>
      flagged flags s3 w \<or> (\<exists>i\<in>set [0..<n]. vpath w = vpath (page_at va i)) \<longrightarrow> flagged flags s4 w"
    unfolding s4_def vmm_edit_pages_def n(1) [symmetric] by blast+
  have flg: "flagged flags s4 (page_at va i)" if "i < n" for i
  proof -
    have "i \<in> set [0..<n]" "PML4_INDEX (page_at va i) \<in> K" using pages that by simp_all
    then show ?thesis using fs4 by blast
  qed
  have tn: "\<forall>r q. node t r q = node s1 r q" "current_PML4 t = current_PML4 s1" "cr3 t + hhdm_offset t = current_PML4 t" "ram t = ram s3"
    using s4 root1 by (simp_all add: t_def page_tree_con_line same_nodes_def node3 f3) (simp_all add: con_line_def con_print_def)
  have "load_byte (va + word_of_nat j) t = Some (segment_image file entry ! j)" if j: "j < unat msz" for j
  proof -
    have "leaf s1 (va + word_of_nat j) \<noteq> None"
      using some segment_byte(2,3) [OF fits(1) j] leaf_vpath [of "va + word_of_nat j" _ s1] n(1) by metis
    from leaf_bytes [OF tn(3,1,2) this] place(2) j have "load_byte (va + word_of_nat j) t = Some (ram t (place j))" by blast
    then show ?thesis using st(2) [OF j] tn(4) by (simp add: s3_def segment_image_def msz_def)
  qed
  then have "\<forall>j<unat msz. load_byte (va + word_of_nat j) t = Some (segment_image file entry ! j)" by blast
  from load_bytes_map [OF this, of 0] have "load_bytes va (unat msz) t = Some (map (\<lambda>j. segment_image file entry ! j) [0..<unat msz])" by simp
  moreover have "length (segment_image file entry) = unat msz"
    using fits(2) by (simp add: segment_image_def len msz_def word_le_nat_alt)
  ultimately have "load_bytes va (unat msz) t = Some (segment_image file entry)" by (metis map_nth)
  moreover have "load_segment file entry s = Ok () t"
    using st(1) unfolding load_segment_def Let_def va_def [symmetric] msz_def [symmetric] flags_def [symmetric] al segment_bytes_def [symmetric]
    by (cases "store_bytes va (segment_bytes file entry) s1") (simp_all add: s3_def [symmetric] s4_def [symmetric] t_def)
  moreover have "flagged flags t w = flagged flags s4 w" for w
    unfolding flagged_def t_def by (subst leaf_cong [of _ s4]) (simp_all add: con_line_def con_print_def)
  ultimately show ?thesis using flg by blast
qed

section \<open>Properties\<close>



end
