(* ===== verification/Spec2Isabelle.thy ===== *)
theory Spec2Isabelle
  imports FsProps Kernel SchedTheorems ShellProps LoaderProps
begin

text \<open>
  A verification development of Eitan-OS, a small x86-64 kernel written in C. The theories
  follow the components of the source: \<open>Pmm\<close> (\<open>src/src/memory/pmm.c\<close>), \<open>Vmm\<close>, \<open>PageTree\<close> and
  \<open>AddressSpace\<close> (\<open>src/src/memory/vmm.c\<close>), \<open>Util\<close> and \<open>CString\<close> (\<open>src/src/util\<close>), \<open>Allocator\<close>,
  \<open>Heap\<close> and \<open>HeapSafety\<close> (\<open>src/src/memory/allocator.c\<close>).
\<close>

end
